(* ===== verification/Prelude.thy ===== *)
theory Prelude
  imports Main "HOL-Library.AList" "HOL-Library.Char_ord" "HOL-Library.List_Lexorder"
    "HOL-Library.Multiset"
begin

text \<open>
  The shared base of the development: the collections of rewrite rules the components feed,
  the Go standard library functions the modelled code calls (package \<^verbatim>\<open>strings\<close>,
  \<^verbatim>\<open>strconv\<close>, the clock functions of package \<^verbatim>\<open>time\<close>), Go's built-in maps as
  association lists with distinct keys, and the lemmas on them that the component proofs use.

  Conventions. A Go string is a list of bytes, \<^typ>\<open>string\<close>; white space is the ASCII white
  space of package \<^verbatim>\<open>unicode\<close>. Comparison of strings with \<open><\<close> is the byte-wise
  lexicographic order of \<^verbatim>\<open>List_Lexorder\<close>, as in Go. A Go \<^verbatim>\<open>int64\<close> that holds an
  identifier, a number of seconds or a small counter is an \<^typ>\<open>int\<close>: none of the modelled
  code comes near the bounds of the type. A nil pointer, a missing map entry and an error
  return are values of an option or sum type.
\<close>

named_theorems gomap_simps "lookups in updated Go maps"
named_theorems gostr_simps "Go string functions on the strings the components build"

section \<open>Go maps\<close>

text \<open>
  A Go map is an association list with distinct keys: the list fixes one iteration order,
  and \<^verbatim>\<open>range\<close> over a map visits the keys in an order the runtime chooses. Operations
  whose outcome depends on that order take the order as a parameter (\<open>range_order\<close> below).
\<close>

type_synonym ('k, 'v) gomap = "('k \<times> 'v) list"

abbreviation mget :: "('k, 'v) gomap \<Rightarrow> 'k \<Rightarrow> 'v option" where
  "mget m k \<equiv> map_of m k"

abbreviation mput :: "'k \<Rightarrow> 'v \<Rightarrow> ('k, 'v) gomap \<Rightarrow> ('k, 'v) gomap" where
  "mput k v m \<equiv> AList.update k v m"

abbreviation mdel :: "'k \<Rightarrow> ('k, 'v) gomap \<Rightarrow> ('k, 'v) gomap" where
  "mdel k m \<equiv> AList.delete k m"

definition mkeys :: "('k, 'v) gomap \<Rightarrow> 'k list" where
  "mkeys m = map fst m"

definition mhas :: "('k, 'v) gomap \<Rightarrow> 'k \<Rightarrow> bool" where
  "mhas m k \<longleftrightarrow> mget m k \<noteq> None"

definition mwf :: "('k, 'v) gomap \<Rightarrow> bool" where
  "mwf m \<longleftrightarrow> distinct (map fst m)"

text \<open>\<^verbatim>\<open>m[k] = append(m[k], v)\<close>: the entry starts from the nil slice.\<close>

definition mappend :: "'k \<Rightarrow> 'v \<Rightarrow> ('k, 'v list) gomap \<Rightarrow> ('k, 'v list) gomap" where
  "mappend k v m = mput k ((case mget m k of None \<Rightarrow> [] | Some vs \<Rightarrow> vs) @ [v]) m"

definition range_order :: "('k list \<Rightarrow> 'k list) \<Rightarrow> bool" where
  "range_order f \<longleftrightarrow> (\<forall>ks. mset (f ks) = mset ks)"

section \<open>Strings\<close>

definition is_space :: "char \<Rightarrow> bool" where
  "is_space c \<longleftrightarrow> c = CHR '' '' \<or> (9 \<le> (of_char c :: nat) \<and> (of_char c :: nat) \<le> 13)"

fun ltrim :: "string \<Rightarrow> string" where
  "ltrim [] = []"
| "ltrim (c # cs) = (if is_space c then ltrim cs else c # cs)"

definition TrimSpace :: "string \<Rightarrow> string" where
  "TrimSpace s = rev (ltrim (rev (ltrim s)))"

text \<open>\<^verbatim>\<open>strings.Fields\<close>: the words of the string; \<open>w\<close> is the word being read.\<close>

fun fields_acc :: "string \<Rightarrow> string \<Rightarrow> string list" where
  "fields_acc w [] = (if w = [] then [] else [w])"
| "fields_acc w (c # cs) =
     (if is_space c then (if w = [] then fields_acc [] cs else w # fields_acc [] cs)
      else fields_acc (w @ [c]) cs)"

definition Fields :: "string \<Rightarrow> string list" where
  "Fields s = fields_acc [] s"

fun strip_prefix :: "string \<Rightarrow> string \<Rightarrow> string option" where
  "strip_prefix [] s = Some s"
| "strip_prefix (p # ps) [] = None"
| "strip_prefix (p # ps) (c # cs) = (if p = c then strip_prefix ps cs else None)"

definition HasPrefix :: "string \<Rightarrow> string \<Rightarrow> bool" where
  "HasPrefix s p \<longleftrightarrow> strip_prefix p s \<noteq> None"

text \<open>\<open>Cut s sep\<close>: the text before and after the first occurrence of the separator.\<close>

fun Cut :: "string \<Rightarrow> string \<Rightarrow> (string \<times> string) option" where
  "Cut [] sep = (if sep = [] then Some ([], []) else None)"
| "Cut (c # cs) sep =
     (case strip_prefix sep (c # cs) of
        Some r \<Rightarrow> Some ([], r)
      | None \<Rightarrow> (case Cut cs sep of None \<Rightarrow> None | Some (a, b) \<Rightarrow> Some (c # a, b)))"

definition Contains :: "string \<Rightarrow> string \<Rightarrow> bool" where
  "Contains s sub \<longleftrightarrow> Cut s sub \<noteq> None"

text \<open>\<^verbatim>\<open>strings.Index\<close>: the position of the first occurrence, \<open>None\<close> for \<^verbatim>\<open>-1\<close>.\<close>

definition Index :: "string \<Rightarrow> string \<Rightarrow> nat option" where
  "Index s sub = map_option (\<lambda>(a, b). length a) (Cut s sub)"

lemma strip_prefix_length: "strip_prefix p s = Some r \<Longrightarrow> length s = length p + length r"
  by (induction p s rule: strip_prefix.induct) (auto split: if_splits)

lemma Cut_length: "Cut s sep = Some (a, b) \<Longrightarrow> length s = length a + length sep + length b"
  by (induction s sep arbitrary: a b rule: Cut.induct)
    (auto split: if_splits option.splits dest: strip_prefix_length)

function Split :: "string \<Rightarrow> string \<Rightarrow> string list" where
  "Split s sep =
     (if sep = [] then map (\<lambda>c. [c]) s
      else case Cut s sep of None \<Rightarrow> [s] | Some (a, b) \<Rightarrow> a # Split b sep)"
  by pat_completeness auto
termination
  by (relation "measure (\<lambda>(s, sep). length s)") (auto dest: Cut_length)

declare Split.simps [simp del]

text \<open>\<^verbatim>\<open>strings.SplitN(s, sep, 2)\<close> for a separator that is not empty.\<close>

definition SplitN2 :: "string \<Rightarrow> string \<Rightarrow> string list" where
  "SplitN2 s sep = (case Cut s sep of None \<Rightarrow> [s] | Some (a, b) \<Rightarrow> [a, b])"

fun Join :: "string list \<Rightarrow> string \<Rightarrow> string" where
  "Join [] sep = []"
| "Join [x] sep = x"
| "Join (x # y # ys) sep = x @ sep @ Join (y # ys) sep"

definition ReplaceAll :: "string \<Rightarrow> string \<Rightarrow> string \<Rightarrow> string" where
  "ReplaceAll s old new = Join (Split s old) new"

text \<open>\<^verbatim>\<open>strings.Replace(s, old, new, 1)\<close>.\<close>

definition Replace1 :: "string \<Rightarrow> string \<Rightarrow> string \<Rightarrow> string" where
  "Replace1 s old new = (case Cut s old of None \<Rightarrow> s | Some (a, b) \<Rightarrow> a @ new @ b)"

fun to_lower_char :: "char \<Rightarrow> char" where
  "to_lower_char c =
     (let n = (of_char c :: nat) in if 65 \<le> n \<and> n \<le> 90 then char_of (n + 32) else c)"

fun to_upper_char :: "char \<Rightarrow> char" where
  "to_upper_char c =
     (let n = (of_char c :: nat) in if 97 \<le> n \<and> n \<le> 122 then char_of (n - 32) else c)"

definition ToLower :: "string \<Rightarrow> string" where
  "ToLower s = map to_lower_char s"

definition ToUpper :: "string \<Rightarrow> string" where
  "ToUpper s = map to_upper_char s"

section \<open>Decimal numbers\<close>

fun utoa :: "nat \<Rightarrow> string" where
  "utoa n = (if n < 10 then [char_of (48 + n)] else utoa (n div 10) @ [char_of (48 + n mod 10)])"

declare utoa.simps [simp del]

text \<open>\<^verbatim>\<open>strconv.Itoa\<close>, \<^verbatim>\<open>strconv.FormatInt(_, 10)\<close> and \<^verbatim>\<open>fmt.Sprintf("%d", _)\<close>.\<close>

definition Itoa :: "int \<Rightarrow> string" where
  "Itoa i = (if i < 0 then ''-'' @ utoa (nat (- i)) else utoa (nat i))"

definition is_digit :: "char \<Rightarrow> bool" where
  "is_digit c \<longleftrightarrow> 48 \<le> (of_char c :: nat) \<and> (of_char c :: nat) \<le> 57"

fun atou_acc :: "nat \<Rightarrow> string \<Rightarrow> nat option" where
  "atou_acc acc [] = Some acc"
| "atou_acc acc (c # cs) =
     (if is_digit c then atou_acc (10 * acc + (of_char c - 48)) cs else None)"

text \<open>\<^verbatim>\<open>strconv.ParseInt(s, 10, 64)\<close>: \<open>None\<close> for a syntax or range error.\<close>

definition ParseInt :: "string \<Rightarrow> int option" where
  "ParseInt s =
     (let (neg, ds) = (case s of
            [] \<Rightarrow> (False, [])
          | c # cs \<Rightarrow> if c = CHR ''-'' then (True, cs)
                      else if c = CHR ''+'' then (False, cs) else (False, s))
      in if ds = [] then None
         else case atou_acc 0 ds of
                None \<Rightarrow> None
              | Some n \<Rightarrow>
                  (if neg then (if n \<le> 2 ^ 63 then Some (- int n) else None)
                   else (if n < 2 ^ 63 then Some (int n) else None)))"

section \<open>The clock\<close>

text \<open>
  A \<^verbatim>\<open>*time.Location\<close> is the function that gives its offset from UTC, in seconds, at an
  instant. \<^verbatim>\<open>time.Unix(ts, 0).In(loc)\<close> is read in two ways only: \<^verbatim>\<open>Format("15:04")\<close>
  and \<^verbatim>\<open>Weekday()\<close> (1 January 1970 was a Thursday, number 4).
\<close>

type_synonym location = "int \<Rightarrow> int"

definition local_secs :: "location \<Rightarrow> int \<Rightarrow> int" where
  "local_secs loc ts = ts + loc ts"

definition two_digits :: "nat \<Rightarrow> string" where
  "two_digits n = [char_of (48 + n div 10), char_of (48 + n mod 10)]"

definition minute_of_day :: "location \<Rightarrow> int \<Rightarrow> nat" where
  "minute_of_day loc ts = nat ((local_secs loc ts mod 86400) div 60)"

definition hhmm :: "nat \<Rightarrow> string" where
  "hhmm m = two_digits (m div 60) @ '':'' @ two_digits (m mod 60)"

definition Format_15_04 :: "location \<Rightarrow> int \<Rightarrow> string" where
  "Format_15_04 loc ts = hhmm (minute_of_day loc ts)"

definition Weekday :: "location \<Rightarrow> int \<Rightarrow> int" where
  "Weekday loc ts = (local_secs loc ts div 86400 + 4) mod 7"

section \<open>Lemmas on maps\<close>

lemma mget_mput [simp, gomap_simps]: "mget (mput k v m) k' = (if k' = k then Some v else mget m k')"
  by (simp add: update_conv')

lemma mget_mdel [simp, gomap_simps]: "mget (mdel k m) k' = (if k' = k then None else mget m k')"
  by (simp add: delete_conv')

lemma mwf_Nil [simp]: "mwf []"
  by (simp add: mwf_def)

lemma mwf_mput [simp, intro]: "mwf m \<Longrightarrow> mwf (mput k v m)"
  by (simp add: mwf_def distinct_update)

lemma mwf_mdel [simp, intro]: "mwf m \<Longrightarrow> mwf (mdel k m)"
  by (simp add: mwf_def distinct_delete)

lemma set_mkeys: "set (mkeys m) = dom (map_of m)"
  by (simp add: mkeys_def dom_map_of_conv_image_fst)

lemma in_mkeys_iff: "k \<in> set (mkeys m) \<longleftrightarrow> mhas m k"
  by (auto simp: set_mkeys mhas_def)

lemma distinct_mkeys: "mwf m \<Longrightarrow> distinct (mkeys m)"
  by (simp add: mwf_def mkeys_def)

lemma mget_mappend [simp, gomap_simps]:
  "mget (mappend k v m) k' =
     (if k' = k then Some ((case mget m k of None \<Rightarrow> [] | Some vs \<Rightarrow> vs) @ [v]) else mget m k')"
  by (simp add: mappend_def)

lemma mwf_mappend [simp, intro]: "mwf m \<Longrightarrow> mwf (mappend k v m)"
  by (simp add: mappend_def mwf_mput)

lemma set_range_order: "range_order f \<Longrightarrow> set (f ks) = set ks"
  by (metis range_order_def set_mset_mset)

lemma distinct_range_order: "range_order f \<Longrightarrow> distinct (f ks) \<longleftrightarrow> distinct ks"
  by (metis mset_eq_imp_distinct_iff range_order_def)

lemma range_order_id [simp]: "range_order (\<lambda>ks. ks)"
  by (simp add: range_order_def)

lemma range_order_rev [simp]: "range_order rev"
  by (simp add: range_order_def)

text \<open>Folding \<open>mappend\<close> over a list groups it by key, keeping the order inside a group.\<close>

lemma mget_fold_mappend:
  "mget (fold (\<lambda>x. mappend (f x) (g x)) xs m) k =
     (if \<exists>x \<in> set xs. f x = k
      then Some ((case mget m k of None \<Rightarrow> [] | Some vs \<Rightarrow> vs) @ map g (filter (\<lambda>x. f x = k) xs))
      else mget m k)"
  by (induction xs arbitrary: m) (auto split: option.splits)

lemma mwf_fold_mappend: "mwf m \<Longrightarrow> mwf (fold (\<lambda>x. mappend (f x) (g x)) xs m)"
  by (induction xs arbitrary: m) auto

text \<open>Folding \<open>mput\<close>: the last entry for a key wins.\<close>

lemma mget_fold_mput:
  "mget (fold (\<lambda>x. mput (f x) (g x)) xs m) k =
     (case find (\<lambda>x. f x = k) (rev xs) of Some x \<Rightarrow> Some (g x) | None \<Rightarrow> mget m k)"
proof (induction xs rule: rev_induct)
  case Nil
  show ?case by simp
next
  case (snoc x xs)
  then show ?case by auto
qed

lemma mwf_fold_mput: "mwf m \<Longrightarrow> mwf (fold (\<lambda>x. mput (f x) (g x)) xs m)"
  by (induction xs arbitrary: m) auto

lemma mput_present: "mwf m \<Longrightarrow> (k, v) \<in> set m \<Longrightarrow> mput k v m = m"
  by (induction m) (auto simp: mwf_def rev_image_eqI)

lemma fold_mput_present: "mwf m \<Longrightarrow> set kvs \<subseteq> set m \<Longrightarrow> fold (\<lambda>(k, v). mput k v) kvs m = m"
  by (induction kvs) (auto simp: mput_present)

lemma mget_fold_mdel: "mget (fold mdel ks m) k = (if k \<in> set ks then None else mget m k)"
  by (induction ks arbitrary: m) auto

section \<open>Lemmas on strings\<close>

lemma strip_prefix_append [simp, gostr_simps]: "strip_prefix p (p @ s) = Some s"
  by (induction p) auto

lemma strip_prefix_Some_iff: "strip_prefix p s = Some r \<longleftrightarrow> s = p @ r"
  by (induction p s rule: strip_prefix.induct) auto

lemma HasPrefix_iff: "HasPrefix s p \<longleftrightarrow> (\<exists>r. s = p @ r)"
  by (auto simp: HasPrefix_def strip_prefix_Some_iff)

lemma Cut_Some: "Cut s sep = Some (a, b) \<Longrightarrow> s = a @ sep @ b"
  by (induction s sep arbitrary: a b rule: Cut.induct)
    (auto split: if_splits option.splits simp: strip_prefix_Some_iff)

lemma Cut_append_sep: "Cut (a @ sep @ b) sep \<noteq> None"
proof (induction a)
  case Nil
  show ?case
  proof (cases "sep @ b")
    case Nil
    then show ?thesis by simp
  next
    case (Cons c cs)
    have "strip_prefix sep (c # cs) = Some b" using strip_prefix_append Cons by metis
    then show ?thesis using Cons by simp
  qed
next
  case (Cons c a)
  then obtain p where "Cut (a @ sep @ b) sep = Some p" by blast
  then show ?case by (cases p) (auto split: option.splits)
qed

lemma Contains_iff: "Contains s sub \<longleftrightarrow> (\<exists>a b. s = a @ sub @ b)"
  by (metis Contains_def Cut_Some Cut_append_sep option.exhaust surj_pair)

lemma Contains_singleton: "Contains s [c] \<longleftrightarrow> c \<in> set s"
  by (auto simp: Contains_iff dest: split_list)

text \<open>A separator of one character is found at its first occurrence.\<close>

lemma Cut_char: "c \<notin> set a \<Longrightarrow> Cut (a @ c # b) [c] = Some (a, b)"
  by (induction a) auto

lemma Cut_char_None: "c \<notin> set s \<Longrightarrow> Cut s [c] = None"
  by (induction s) auto

lemma Split_None: "sep \<noteq> [] \<Longrightarrow> Cut s sep = None \<Longrightarrow> Split s sep = [s]"
  by (subst Split.simps) simp

lemma Split_Some: "sep \<noteq> [] \<Longrightarrow> Cut s sep = Some (a, b) \<Longrightarrow> Split s sep = a # Split b sep"
  by (subst Split.simps) simp

lemma Split_neq_Nil: "sep \<noteq> [] \<Longrightarrow> Split s sep \<noteq> []"
  by (subst Split.simps) (auto split: option.splits)

lemma Join_Cons: "ys \<noteq> [] \<Longrightarrow> Join (x # ys) sep = x @ sep @ Join ys sep"
  by (cases ys) auto

text \<open>Joining what was split gives the string back.\<close>

lemma Join_Split: "sep \<noteq> [] \<Longrightarrow> Join (Split s sep) sep = s"
proof (induction s sep rule: Split.induct)
  case (1 s sep)
  show ?case
  proof (cases "Cut s sep")
    case None
    then show ?thesis using 1 by (simp add: Split_None)
  next
    case (Some p)
    then obtain a b where ab: "Cut s sep = Some (a, b)" by (cases p) auto
    with 1 have "Join (Split b sep) sep = b" by auto
    with ab 1 Cut_Some [OF ab] show ?thesis by (simp add: Split_Some Join_Cons Split_neq_Nil)
  qed
qed

text \<open>
  Splitting what was joined gives the parts back when no part contains a character the
  separator is made of.
\<close>

lemma Cut_disjoint:
  assumes "sep \<noteq> []" and "set a \<inter> set sep = {}"
  shows "Cut (a @ sep @ b) sep = Some (a, b)"
  using assms(2)
proof (induction a)
  case Nil
  obtain c cs where cs: "sep @ b = c # cs" using assms(1) by (cases sep) auto
  have "strip_prefix sep (c # cs) = Some b" using strip_prefix_append cs by metis
  then show ?case using cs by simp
next
  case (Cons c a)
  obtain p ps where sep: "sep = p # ps" using assms(1) by (cases sep) auto
  with Cons.prems have "strip_prefix sep ((c # a) @ sep @ b) = None" by auto
  with Cons show ?case by simp
qed

lemma Cut_disjoint_None:
  assumes "sep \<noteq> []" and "set a \<inter> set sep = {}"
  shows "Cut a sep = None"
  using assms(2)
proof (induction a)
  case Nil
  then show ?case using assms(1) by simp
next
  case (Cons c a)
  obtain p ps where "sep = p # ps" using assms(1) by (cases sep) auto
  with Cons show ?case by auto
qed

lemma Split_Join:
  assumes "sep \<noteq> []" and "xs \<noteq> []" and "\<forall>x \<in> set xs. set x \<inter> set sep = {}"
  shows "Split (Join xs sep) sep = xs"
  using assms(2,3)
proof (induction xs)
  case Nil
  then show ?case by simp
next
  case (Cons x xs)
  show ?case
  proof (cases "xs = []")
    case True
    with Cons.prems assms(1) show ?thesis by (simp add: Split_None Cut_disjoint_None)
  next
    case False
    with Cons.prems assms(1) have "Cut (Join (x # xs) sep) sep = Some (x, Join xs sep)"
      by (simp add: Join_Cons Cut_disjoint)
    with Cons False assms(1) show ?thesis by (simp add: Split_Some)
  qed
qed

lemma SplitN2_char: "c \<notin> set a \<Longrightarrow> SplitN2 (a @ c # b) [c] = [a, b]"
  by (simp add: SplitN2_def Cut_char)

lemma SplitN2_length: "length (SplitN2 s sep) = (if Contains s sep then 2 else 1)"
  by (auto simp: SplitN2_def Contains_def split: option.splits)

section \<open>Clock times as text\<close>

lemma of_char_digit: "d < 10 \<Longrightarrow> (of_char (char_of (48 + d) :: char) :: nat) = 48 + d"
  by (simp add: of_char_of take_bit_eq_mod)

lemma char_of_nat_eq: "(n :: nat) < 256 \<Longrightarrow> char_of n = c \<longleftrightarrow> n = of_char c"
  by (simp add: char_of_eq_iff take_bit_eq_mod)

lemma digit_less: "d < 10 \<Longrightarrow> e < 10 \<Longrightarrow> (char_of (48 + d) :: char) < char_of (48 + e) \<longleftrightarrow> d < (e :: nat)"
  by (simp only: less_char_def of_char_digit) simp

lemma digit_eq: "d < 10 \<Longrightarrow> e < 10 \<Longrightarrow> (char_of (48 + d) :: char) = char_of (48 + e) \<longleftrightarrow> d = (e :: nat)"
  by (metis add_left_cancel of_char_digit)

lemma less_div_mod: "(m :: nat) < n \<longleftrightarrow> m div k < n div k \<or> m div k = n div k \<and> m mod k < n mod k"
proof (cases "m div k = n div k")
  case True
  then show ?thesis by (metis div_mult_mod_eq nat_add_left_cancel_less less_irrefl)
next
  case False
  then show ?thesis by (metis div_le_mono le_neq_implies_less linorder_not_less nat_less_le)
qed

lemma eq_div_mod: "(m :: nat) = n \<longleftrightarrow> m div k = n div k \<and> m mod k = n mod k"
  by (metis div_mult_mod_eq)

lemma two_digits_less:
  assumes "m < 100" and "n < 100"
  shows "two_digits m @ s < two_digits n @ t \<longleftrightarrow> m < n \<or> m = n \<and> s < t"
proof -
  note lt = less_div_mod [of m n 10] and eq = eq_div_mod [of m n 10]
  have "m div 10 < 10" and "n div 10 < 10" and "m mod 10 < 10" and "n mod 10 < 10"
    using assms by auto
  then show ?thesis
    unfolding lt eq two_digits_def by (auto simp: Cons_less_Cons digit_less digit_eq)
qed

text \<open>Comparing clock times as text is comparing the minutes of the day.\<close>

lemma hhmm_less:
  assumes "m < 6000" and "n < 6000"
  shows "hhmm m < hhmm n \<longleftrightarrow> m < n"
proof -
  note split = less_div_mod [of m n 60]
  have "m div 60 < 100" and "n div 60 < 100" using assms by auto
  moreover have "two_digits (m mod 60) < two_digits (n mod 60) \<longleftrightarrow> m mod 60 < n mod 60"
    using two_digits_less [of "m mod 60" "n mod 60" "[]" "[]"] by simp
  ultimately show ?thesis
    unfolding split hhmm_def by (simp add: two_digits_less Cons_less_Cons)
qed

lemma hhmm_le: "m < 6000 \<Longrightarrow> n < 6000 \<Longrightarrow> hhmm m \<le> hhmm n \<longleftrightarrow> m \<le> n"
  by (meson hhmm_less linorder_not_le)

lemma hhmm_eq: "m < 6000 \<Longrightarrow> n < 6000 \<Longrightarrow> hhmm m = hhmm n \<longleftrightarrow> m = n"
  by (metis hhmm_less less_irrefl linorder_neqE_nat)

lemma minute_of_day_less: "minute_of_day loc ts < 1440"
proof -
  have "local_secs loc ts mod 86400 div 60 < 1440" by (simp add: div_less_iff_less_mult)
  then show ?thesis by (simp add: minute_of_day_def)
qed

lemma Weekday_range: "0 \<le> Weekday loc ts \<and> Weekday loc ts < 7"
  by (simp add: Weekday_def)

lemma Itoa_digit: "0 \<le> i \<Longrightarrow> i < 10 \<Longrightarrow> Itoa i = [char_of (48 + nat i)]"
  by (simp add: Itoa_def utoa.simps)

text \<open>Reading a number back.\<close>

lemma atou_acc_snoc:
  "atou_acc acc (s @ [c]) =
     (case atou_acc acc s of
        None \<Rightarrow> None
      | Some a \<Rightarrow> if is_digit c then Some (10 * a + (of_char c - 48)) else None)"
  by (induction s arbitrary: acc) auto

lemma atou_digit: "d < 10 \<Longrightarrow> is_digit (char_of (48 + d)) \<and> (of_char (char_of (48 + d) :: char) :: nat) - 48 = d"
  using of_char_digit [of d] by (simp add: is_digit_def)

lemma atou_utoa: "atou_acc 0 (utoa n) = Some n"
proof (induction n rule: utoa.induct)
  case (1 n)
  show ?case
  proof (cases "n < 10")
    case True
    then show ?thesis using atou_digit [of n] by (simp add: utoa.simps [of n] del: of_char_of)
  next
    case False
    then show ?thesis
      using 1 atou_digit [of "n mod 10"] by (simp add: utoa.simps [of n] atou_acc_snoc del: of_char_of)
  qed
qed

lemma utoa_inject: "utoa m = utoa n \<longleftrightarrow> m = n"
  by (metis atou_utoa option.inject)

lemma utoa_no_sign: "utoa n \<noteq> CHR ''-'' # s"
proof
  assume "utoa n = CHR ''-'' # s"
  then have "atou_acc 0 (CHR ''-'' # s) = Some n" using atou_utoa [of n] by simp
  then show False by (simp add: is_digit_def)
qed

lemma Itoa_inject [simp]: "Itoa i = Itoa j \<longleftrightarrow> i = j"
  using utoa_no_sign [of "nat i" "utoa (nat (- j))"] utoa_no_sign [of "nat j" "utoa (nat (- i))"]
  by (auto simp: Itoa_def utoa_inject)

text \<open>A number has no underscore, so a text that starts and ends with numbers between underscores has one reading.\<close>

lemma utoa_digits: "c \<in> set (utoa n) \<Longrightarrow> is_digit c"
proof (induction n rule: utoa.induct)
  case (1 n)
  then show ?case
    using atou_digit [of n] atou_digit [of "n mod 10"] by (auto simp: utoa.simps [of n] split: if_split_asm)
qed

lemma Itoa_no_underscore: "CHR ''_'' \<notin> set (Itoa i)"
  using utoa_digits [of "CHR ''_''"] by (auto simp: Itoa_def is_digit_def)

lemma append_cons_split:
  assumes "us @ c # vs = us' @ c # vs'" and "c \<notin> set us" and "c \<notin> set us'"
  shows "us = us' \<and> vs = vs'"
proof -
  have "takeWhile (\<lambda>x. x \<noteq> c) (us @ c # vs) = us" and "takeWhile (\<lambda>x. x \<noteq> c) (us' @ c # vs') = us'"
    using assms(2,3) by (auto simp: takeWhile_append2 takeWhile_tail)
  with assms(1) show ?thesis by simp
qed

lemma enclosed_numbers:
  assumes "Itoa i @ ''_'' @ s @ ''_'' @ Itoa d = Itoa i' @ ''_'' @ s' @ ''_'' @ Itoa d'"
  shows "i = i' \<and> d = d'"
proof -
  have one: "Itoa i = Itoa i'" "s @ ''_'' @ Itoa d = s' @ ''_'' @ Itoa d'"
    using append_cons_split [of "Itoa i" "CHR ''_''" _ "Itoa i'"] assms Itoa_no_underscore by simp_all
  then have "rev (Itoa d) @ CHR ''_'' # rev s = rev (Itoa d') @ CHR ''_'' # rev s'"
    by (metis append_assoc append_Cons append_Nil rev.simps rev_append)
  from append_cons_split [OF this] one(1) Itoa_no_underscore show ?thesis by simp
qed

section \<open>Words of a string\<close>

lemma fields_acc_word:
  "\<forall>c \<in> set u. \<not> is_space c \<Longrightarrow> fields_acc w (u @ s) = fields_acc (w @ u) s"
  by (induction u arbitrary: w) auto

lemma Fields_Join:
  assumes "\<forall>w \<in> set ws. w \<noteq> [] \<and> (\<forall>c \<in> set w. \<not> is_space c)"
  shows "Fields (Join ws '' '') = ws"
  using assms
proof (induction ws)
  case Nil
  show ?case by (simp add: Fields_def)
next
  case (Cons w ws)
  have sp: "is_space (CHR '' '')" by (simp add: is_space_def)
  have w: "w \<noteq> []" "\<forall>c \<in> set w. \<not> is_space c" and ws: "fields_acc [] (Join ws '' '') = ws"
    using Cons by (auto simp: Fields_def)
  show ?case
  proof (cases "ws = []")
    case True
    then show ?thesis using w fields_acc_word [of w "[]" "[]"] by (simp add: Fields_def)
  next
    case False
    then show ?thesis
      using w ws sp fields_acc_word [of w "[]" "'' '' @ Join ws '' ''"]
      by (simp add: Fields_def Join_Cons)
  qed
qed

end
