(* ===== verification/Alert_Types.thy ===== *)
theory Alert_Types
  imports Prelude Complex_Main "HOL-Library.Word"
begin

text \<open>
  The data the alert engine works on (package \<^verbatim>\<open>models\<close>): anomaly points, alert events,
  alert rules, machines, and the operations on them that need no database: the conversions
  between the column form and the slice form of an event (\<open>DB2FE\<close>, \<open>FE2DB\<close>, \<open>DB2Mem\<close>), the tag
  map, the card title of an aggregated event, the history record, and what a rule writes into
  its events.

  Conventions. A record field carries the name of the Go field behind a prefix for its struct
  (\<open>e_\<close> event, \<open>r_\<close> rule, \<open>ap_\<close> anomaly point, \<open>t_\<close> machine). Fields that only the web interface
  reads (objects of users and groups, screenshots, extra information) are left out. Text of JSON
  documents is decoded by functions that the definitions take as arguments.
\<close>

section \<open>Values of type any\<close>

text \<open>
  An \<^verbatim>\<open>interface{}\<close> that a JSON document or a form fills in. JSON numbers are \<^verbatim>\<open>float64\<close>, which
  are rational numbers.
\<close>

datatype goval =
    VNil
  | VBool bool
  | VStr string
  | VInt int
  | VFloat rat
  | VInts "int list"
  | VStrs "string list"
  | VArr "goval list"
  | VObj "(string \<times> goval) list"

section \<open>Records\<close>

datatype recover_judge = Origin | NotRecoverWhenNoData | RecoverOnCondition

record recover_config =
  JudgeType :: recover_judge
  RecoverExp :: string

datatype trigger_type = TriggerTypeNormal | TriggerTypeNodata

record anomaly_point =
  ap_Key :: string
  ap_Labels :: "(string, string) gomap"
  ap_Timestamp :: int
  ap_ReadableValue :: string \<comment> \<open>the value as \<^verbatim>\<open>ReadableValue\<close> prints it\<close>
  ap_Severity :: int
  ap_Query :: string
  ap_Values :: string
  ap_RecoverConfig :: recover_config
  ap_TriggerType :: trigger_type

record target =
  t_Ident :: string
  t_Note :: string
  t_GroupId :: int
  t_GroupIds :: "int list"
  t_GroupNames :: "string list"
  t_EngineName :: string
  t_TagsMap :: "(string, string) gomap"
  t_HostIp :: string
  t_BeatTime :: int
  t_CpuNum :: int
  t_Offset :: int

record event =
  e_Id :: int
  e_Cate :: string
  e_Cluster :: string
  e_DatasourceId :: int
  e_GroupId :: int
  e_GroupName :: string
  e_Hash :: string
  e_RuleId :: int
  e_RuleName :: string
  e_RuleNote :: string
  e_RuleProd :: string
  e_RuleAlgo :: string
  e_Severity :: int
  e_PromForDuration :: int
  e_PromQl :: string
  e_RuleConfig :: string
  e_RuleConfigJson :: goval
  e_PromEvalInterval :: int
  e_Callbacks :: string
  e_CallbacksJSON :: "string list"
  e_RunbookUrl :: string
  e_NotifyRecovered :: int
  e_NotifyChannels :: string
  e_NotifyChannelsJSON :: "string list"
  e_NotifyGroups :: string
  e_NotifyGroupsJSON :: "string list"
  e_TargetIdent :: string
  e_TargetNote :: string
  e_TriggerTime :: int
  e_TriggerValue :: string
  e_TriggerValues :: string
  e_Tags :: string
  e_TagsJSON :: "string list"
  e_TagsMap :: "(string, string) gomap"
  e_OriginalTags :: string
  e_OriginalTagsJSON :: "string list"
  e_Annotations :: string
  e_AnnotationsJSON :: "(string, string) gomap"
  e_IsRecovered :: bool
  e_LastEvalTime :: int
  e_LastSentTime :: int
  e_FirstEvalTime :: int
  e_NotifyCurNumber :: int
  e_NotifyMuted :: int
  e_MuteId :: int
  e_FirstTriggerTime :: int
  e_ExtraConfig :: goval
  e_Status :: int
  e_SubRuleId :: int
  e_Target :: "target option"
  e_RecoverConfig :: recover_config
  e_RuleHash :: string
  e_NotifyRuleIds :: "int list"
  e_NotifyRuleId :: int
  e_NotifyRuleName :: string

text \<open>
  A compiled regular expression is what the code does with it: \<open>MatchString\<close>,
  \<open>ReplaceAllString src repl\<close>, and \<open>FindExpand repl src\<close>, which is
  \<^verbatim>\<open>FindStringSubmatchIndex\<close> followed by \<^verbatim>\<open>ExpandString\<close> (\<open>None\<close> where nothing matches).
\<close>

record regexp =
  MatchString :: "string \<Rightarrow> bool"
  ReplaceAllString :: "string \<Rightarrow> string \<Rightarrow> string"
  FindExpand :: "string \<Rightarrow> string \<Rightarrow> string option"

text \<open>A relabel rule of package \<^verbatim>\<open>pconf\<close>; \<open>RegexCompiled\<close> is nil until a loader fills it in.\<close>

record relabel_config =
  SourceLabels :: "string list"
  Separator :: string
  Regex :: string
  RegexCompiled :: "regexp option"
  If :: string
  IfRegex :: "regexp option"
  Modulus :: "64 word"
  TargetLabel :: string
  Replacement :: string
  Action :: string

record pipeline_config =
  pc_PipelineId :: int
  pc_Enable :: bool

record datasource_query =
  MatchType :: int
  Op :: string
  dq_Values :: "goval list"

record alert_rule =
  r_Id :: int
  r_GroupId :: int
  r_Cate :: string
  r_DatasourceIds :: string
  r_DatasourceQueries :: "datasource_query list"
  r_Name :: string
  r_Note :: string
  r_Prod :: string
  r_Algorithm :: string
  r_Disabled :: int
  r_PromForDuration :: int
  r_PromQl :: string
  r_RuleConfig :: string
  r_RuleConfigJson :: goval
  r_EventRelabelConfig :: "relabel_config list"
  r_EnableStime :: string
  r_EnableEtime :: string
  r_EnableDaysOfWeek :: string
  r_EnableInBG :: int
  r_NotifyRecovered :: int
  r_NotifyChannels :: string
  r_NotifyChannelsJSON :: "string list"
  r_NotifyGroups :: string
  r_NotifyGroupsJSON :: "string list"
  r_NotifyRepeatStep :: int
  r_NotifyMaxNumber :: int
  r_RecoverDuration :: int
  r_Callbacks :: string
  r_CallbacksJSON :: "string list"
  r_RunbookUrl :: string
  r_AppendTagsJSON :: "string list"
  r_Annotations :: string
  r_ExtraConfigJSON :: goval
  r_CronPattern :: string
  r_PromEvalInterval :: int
  r_TimeZone :: string
  r_NotifyRuleIds :: "int list"
  r_PipelineConfigs :: "pipeline_config list"

text \<open>
  The code outside the repository that the engine calls: the regular expression compiler, the JSON
  decoder into a map and the encoder, the text of a floating point number, the MD5 digest as text and as bytes, the
  validity of a label name, the zone database with the zone of the host, and the template engine of
  rule tags (\<open>Inl\<close> an error text).
\<close>

record env =
  x_compile :: "string \<Rightarrow> regexp option"
  x_json_obj :: "string \<Rightarrow> (string, goval) gomap option"
  x_fmt_float :: "rat \<Rightarrow> string"
  x_md5 :: "string \<Rightarrow> string"
  x_md5_sum :: "string \<Rightarrow> 8 word list"
  x_label_valid :: "string \<Rightarrow> bool"
  x_marshal :: "goval \<Rightarrow> string"
  x_Local :: location
  x_LoadLocation :: "string \<Rightarrow> location option"
  x_tag_tmpl :: "string \<Rightarrow> (string, string) gomap \<Rightarrow> string + string"

definition SeverityLowest :: int where
  "SeverityLowest = 4"

definition zero_event :: event where
  "zero_event = \<lparr>e_Id = 0, e_Cate = [], e_Cluster = [], e_DatasourceId = 0, e_GroupId = 0,
     e_GroupName = [], e_Hash = [], e_RuleId = 0, e_RuleName = [], e_RuleNote = [], e_RuleProd = [],
     e_RuleAlgo = [], e_Severity = 0, e_PromForDuration = 0, e_PromQl = [], e_RuleConfig = [],
     e_RuleConfigJson = VNil, e_PromEvalInterval = 0, e_Callbacks = [], e_CallbacksJSON = [],
     e_RunbookUrl = [], e_NotifyRecovered = 0, e_NotifyChannels = [], e_NotifyChannelsJSON = [],
     e_NotifyGroups = [], e_NotifyGroupsJSON = [], e_TargetIdent = [], e_TargetNote = [],
     e_TriggerTime = 0, e_TriggerValue = [], e_TriggerValues = [], e_Tags = [], e_TagsJSON = [],
     e_TagsMap = [], e_OriginalTags = [], e_OriginalTagsJSON = [], e_Annotations = [],
     e_AnnotationsJSON = [], e_IsRecovered = False, e_LastEvalTime = 0, e_LastSentTime = 0,
     e_FirstEvalTime = 0, e_NotifyCurNumber = 0, e_NotifyMuted = 0, e_MuteId = 0,
     e_FirstTriggerTime = 0, e_ExtraConfig = VNil, e_Status = 0, e_SubRuleId = 0, e_Target = None,
     e_RecoverConfig = \<lparr>JudgeType = Origin, RecoverExp = []\<rparr>, e_RuleHash = [],
     e_NotifyRuleIds = [], e_NotifyRuleId = 0, e_NotifyRuleName = []\<rparr>"

section \<open>Operations on events\<close>

text \<open>The loop shared by \<open>SetTagsMap\<close>, \<open>FillTagsMap\<close>, \<open>DB2FE\<close> and \<open>DB2Mem\<close>.\<close>

definition tag_pair :: "string \<Rightarrow> (string \<times> string) option" where
  "tag_pair tag =
     (let pair = TrimSpace tag in
      if pair = [] then None
      else case SplitN2 pair ''='' of [a, b] \<Rightarrow> Some (a, b) | _ \<Rightarrow> None)"

fun tags_to_map :: "string list \<Rightarrow> (string, string) gomap \<Rightarrow> (string, string) gomap" where
  "tags_to_map [] m = m"
| "tags_to_map (t # ts) m =
     tags_to_map ts (case tag_pair t of None \<Rightarrow> m | Some (k, v) \<Rightarrow> mput k v m)"

definition SetTagsMap :: "event \<Rightarrow> event" where
  "SetTagsMap e = e\<lparr>e_TagsMap := tags_to_map (e_TagsJSON e) []\<rparr>"

definition FillTagsMap :: "event \<Rightarrow> event" where
  "FillTagsMap e = e\<lparr>e_TagsMap := tags_to_map (e_TagsJSON e) []\<rparr>"

text \<open>
  \<^verbatim>\<open>json.Unmarshal\<close> into a map field adds its entries to the map that is there; the document
  \<^verbatim>\<open>null\<close> makes the map nil.
\<close>

definition decode_annotations ::
  "(string \<Rightarrow> (string, string) gomap option) \<Rightarrow> string \<Rightarrow> (string, string) gomap \<Rightarrow> (string, string) gomap option"
where
  "decode_annotations un_ann txt old =
     (if TrimSpace txt = ''null'' then Some []
      else map_option (\<lambda>new. fold (\<lambda>(k, v). mput k v) new old) (un_ann txt))"

text \<open>
  \<open>DB2FE\<close> returns at the first JSON document that does not decode; the fields written so far stay
  written. \<open>un_ann\<close> and \<open>un_cfg\<close> decode the two documents.
\<close>

definition DB2FE ::
  "(string \<Rightarrow> (string, string) gomap option) \<Rightarrow> (string \<Rightarrow> goval option) \<Rightarrow> event \<Rightarrow> bool \<times> event"
where
  "DB2FE un_ann un_cfg e =
     (let e1 = e\<lparr>e_NotifyChannelsJSON := Fields (e_NotifyChannels e),
                 e_NotifyGroupsJSON := Fields (e_NotifyGroups e),
                 e_CallbacksJSON := Fields (e_Callbacks e),
                 e_TagsJSON := Split (e_Tags e) '',,'',
                 e_OriginalTagsJSON := Split (e_OriginalTags e) '',,''\<rparr>
      in case decode_annotations un_ann (e_Annotations e1) (e_AnnotationsJSON e1) of
           None \<Rightarrow> (False, e1)
         | Some ann \<Rightarrow>
             (let e2 = e1\<lparr>e_AnnotationsJSON := ann\<rparr>
              in case un_cfg (e_RuleConfig e2) of
                   None \<Rightarrow> (False, e2)
                 | Some cfg \<Rightarrow>
                     (let e3 = e2\<lparr>e_RuleConfigJson := cfg\<rparr>
                      in (True, e3\<lparr>e_TagsMap := tags_to_map (e_TagsJSON e3) []\<rparr>))))"

definition FE2DB ::
  "((string, string) gomap \<Rightarrow> string) \<Rightarrow> (goval \<Rightarrow> string) \<Rightarrow> event \<Rightarrow> event"
where
  "FE2DB ma_ann ma_cfg e =
     e\<lparr>e_NotifyChannels := Join (e_NotifyChannelsJSON e) '' '',
       e_NotifyGroups := Join (e_NotifyGroupsJSON e) '' '',
       e_Callbacks := Join (e_CallbacksJSON e) '' '',
       e_Tags := Join (e_TagsJSON e) '',,'',
       e_OriginalTags := Join (e_OriginalTagsJSON e) '',,'',
       e_Annotations := ma_ann (e_AnnotationsJSON e),
       e_RuleConfig := ma_cfg (e_RuleConfigJson e)\<rparr>"

text \<open>The event as a query of the table returns it: the fields that are not columns are zero.\<close>

definition event_row :: "event \<Rightarrow> event" where
  "event_row e =
     e\<lparr>e_RuleConfigJson := VNil, e_CallbacksJSON := [], e_NotifyChannelsJSON := [], e_NotifyGroupsJSON := [], e_TriggerValues := [],
       e_TagsJSON := [], e_TagsMap := [], e_OriginalTagsJSON := [], e_AnnotationsJSON := [], e_IsRecovered := False,
       e_LastEvalTime := 0, e_LastSentTime := 0, e_FirstEvalTime := 0, e_NotifyMuted := 0, e_MuteId := 0, e_ExtraConfig := VNil,
       e_Status := 0, e_SubRuleId := 0, e_Target := None, e_RecoverConfig := \<lparr>JudgeType = Origin, RecoverExp = []\<rparr>,
       e_RuleHash := [], e_NotifyRuleId := 0, e_NotifyRuleName := []\<rparr>"

definition DB2Mem :: "event \<Rightarrow> event" where
  "DB2Mem e =
     (let e1 = e\<lparr>e_IsRecovered := False,
                 e_NotifyGroupsJSON := Fields (e_NotifyGroups e),
                 e_CallbacksJSON := Fields (e_Callbacks e),
                 e_NotifyChannelsJSON := Fields (e_NotifyChannels e),
                 e_TagsJSON := Split (e_Tags e) '',,''\<rparr>;
          e2 = e1\<lparr>e_TagsMap := tags_to_map (e_TagsJSON e1) []\<rparr>
      in if e_FirstTriggerTime e2 = 0 then e2\<lparr>e_FirstTriggerTime := e_TriggerTime e2\<rparr> else e2)"

definition GetField :: "event \<Rightarrow> string \<Rightarrow> string" where
  "GetField e field =
     (if field = ''cluster'' then e_Cluster e
      else if field = ''group_id'' then Itoa (e_GroupId e)
      else if field = ''group_name'' then e_GroupName e
      else if field = ''rule_id'' then Itoa (e_RuleId e)
      else if field = ''rule_name'' then e_RuleName e
      else if field = ''rule_note'' then e_RuleNote e
      else if field = ''severity'' then Itoa (e_Severity e)
      else if field = ''runbook_url'' then e_RunbookUrl e
      else if field = ''target_ident'' then e_TargetIdent e
      else if field = ''target_note'' then e_TargetNote e
      else if field = ''callbacks'' then e_Callbacks e
      else if field = ''annotations'' then e_Annotations e
      else [])"

text \<open>
  \<open>GetTagValue\<close> looks for \<open>tagkey=\<close> anywhere in a tag, and cuts the tag at the length of
  \<open>tagkey=\<close>.
\<close>

fun get_tag_value :: "string list \<Rightarrow> string \<Rightarrow> string" where
  "get_tag_value [] tagkey = []"
| "get_tag_value (tag # tags) tagkey =
     (case Index tag (tagkey @ ''='') of
        Some i \<Rightarrow> drop (length (tagkey @ ''='')) tag
      | None \<Rightarrow> get_tag_value tags tagkey)"

definition GetTagValue :: "event \<Rightarrow> string \<Rightarrow> string" where
  "GetTagValue e tagkey = get_tag_value (e_TagsJSON e) tagkey"

text \<open>
  \<open>JsonTagsAndValue\<close> walks over the fields by reflection: every field with a JSON name, numbers and
  flags as text, everything else as JSON. The fields that the record leaves out are not listed.
\<close>

definition bool_text :: "bool \<Rightarrow> string" where
  "bool_text b = (if b then ''true'' else ''false'')"

definition target_json :: "target option \<Rightarrow> goval" where
  "target_json t =
     (case t of
        None \<Rightarrow> VNil
      | Some t \<Rightarrow> VObj [(''ident'', VStr (t_Ident t)), (''note'', VStr (t_Note t)),
          (''group_ids'', VInts (t_GroupIds t)), (''group_names'', VStrs (t_GroupNames t)),
          (''engine_name'', VStr (t_EngineName t))])"

definition recover_json :: "recover_config \<Rightarrow> goval" where
  "recover_json c =
     VObj [(''judge_type'', VInt (case JudgeType c of Origin \<Rightarrow> 0 | NotRecoverWhenNoData \<Rightarrow> 1 | RecoverOnCondition \<Rightarrow> 2)),
           (''recover_exp'', VStr (RecoverExp c))]"

definition map_json :: "(string, string) gomap \<Rightarrow> goval" where
  "map_json m = VObj (map (\<lambda>(k, v). (k, VStr v)) m)"

definition JsonTagsAndValue :: "env \<Rightarrow> event \<Rightarrow> (string, string) gomap" where
  "JsonTagsAndValue x e =
     [(''id'', Itoa (e_Id e)), (''cate'', e_Cate e), (''cluster'', e_Cluster e),
      (''datasource_id'', Itoa (e_DatasourceId e)), (''group_id'', Itoa (e_GroupId e)),
      (''group_name'', e_GroupName e), (''hash'', e_Hash e), (''rule_id'', Itoa (e_RuleId e)),
      (''rule_name'', e_RuleName e), (''rule_note'', e_RuleNote e), (''rule_prod'', e_RuleProd e),
      (''rule_algo'', e_RuleAlgo e), (''severity'', Itoa (e_Severity e)),
      (''prom_for_duration'', Itoa (e_PromForDuration e)), (''prom_ql'', e_PromQl e),
      (''rule_config'', x_marshal x (e_RuleConfigJson e)),
      (''prom_eval_interval'', Itoa (e_PromEvalInterval e)),
      (''callbacks'', x_marshal x (VStrs (e_CallbacksJSON e))), (''runbook_url'', e_RunbookUrl e),
      (''notify_recovered'', Itoa (e_NotifyRecovered e)),
      (''notify_channels'', x_marshal x (VStrs (e_NotifyChannelsJSON e))),
      (''notify_groups'', x_marshal x (VStrs (e_NotifyGroupsJSON e))),
      (''target_ident'', e_TargetIdent e), (''target_note'', e_TargetNote e),
      (''trigger_time'', Itoa (e_TriggerTime e)), (''trigger_value'', e_TriggerValue e),
      (''trigger_values'', e_TriggerValues e), (''tags'', x_marshal x (VStrs (e_TagsJSON e))),
      (''tags_map'', x_marshal x (map_json (e_TagsMap e))),
      (''original_tags'', x_marshal x (VStrs (e_OriginalTagsJSON e))),
      (''annotations'', x_marshal x (map_json (e_AnnotationsJSON e))),
      (''is_recovered'', bool_text (e_IsRecovered e)), (''last_eval_time'', Itoa (e_LastEvalTime e)),
      (''last_sent_time'', Itoa (e_LastSentTime e)), (''first_eval_time'', Itoa (e_FirstEvalTime e)),
      (''notify_cur_number'', Itoa (e_NotifyCurNumber e)),
      (''first_trigger_time'', Itoa (e_FirstTriggerTime e)),
      (''extra_config'', x_marshal x (e_ExtraConfig e)), (''status'', Itoa (e_Status e)),
      (''sub_rule_id'', Itoa (e_SubRuleId e)), (''target'', x_marshal x (target_json (e_Target e))),
      (''recover_config'', x_marshal x (recover_json (e_RecoverConfig e))),
      (''rule_hash'', e_RuleHash e), (''notify_rule_ids'', x_marshal x (VInts (e_NotifyRuleIds e))),
      (''notify_rule_id'', Itoa (e_NotifyRuleId e)), (''notify_rule_name'', e_NotifyRuleName e)]"

record aggr_rule =
  ag_Type :: string
  ag_Value :: string

text \<open>\<open>parseAggrRules\<close> answers the request with an error (\<open>None\<close>) on the first bad part.\<close>

definition parseAggrRule :: "string \<Rightarrow> aggr_rule option" where
  "parseAggrRule part =
     (case Split part '':'' of
        [ty, v] \<Rightarrow> if ty = ''field'' \<or> ty = ''tagkey'' then Some \<lparr>ag_Type = ty, ag_Value = v\<rparr> else None
      | _ \<Rightarrow> None)"

definition parseAggrRules :: "string \<Rightarrow> aggr_rule list option" where
  "parseAggrRules rule = those (map parseAggrRule (Split rule ''::''))"

definition card_part :: "event \<Rightarrow> aggr_rule \<Rightarrow> string" where
  "card_part e r =
     (let a = (if ag_Type r = ''field'' then GetField e (ag_Value r)
               else if ag_Type r = ''tagkey'' then GetTagValue e (ag_Value r) else [])
      in if a = [] then ''Others'' else a)"

text \<open>\<open>tmpl\<close> renders a Go template over the event, a failure being text as well.\<close>

definition GenCardTitle :: "(string \<Rightarrow> event \<Rightarrow> string) \<Rightarrow> event \<Rightarrow> string \<Rightarrow> string option" where
  "GenCardTitle tmpl e rule =
     (if Contains rule ''{{'' then Some (tmpl rule e)
      else map_option (\<lambda>rs. Join (map (card_part e) rs) ''::'') (parseAggrRules rule))"

section \<open>Operations on rules and machines\<close>

definition UpdateEvent :: "alert_rule \<Rightarrow> event \<Rightarrow> event" where
  "UpdateEvent ar e =
     e\<lparr>e_GroupId := r_GroupId ar, e_Cate := r_Cate ar, e_RuleId := r_Id ar, e_RuleName := r_Name ar,
       e_RuleNote := r_Note ar, e_RuleProd := r_Prod ar, e_RuleAlgo := r_Algorithm ar,
       e_PromForDuration := r_PromForDuration ar, e_Callbacks := r_Callbacks ar,
       e_CallbacksJSON := r_CallbacksJSON ar, e_RunbookUrl := r_RunbookUrl ar,
       e_NotifyRecovered := r_NotifyRecovered ar, e_NotifyChannels := r_NotifyChannels ar,
       e_NotifyChannelsJSON := r_NotifyChannelsJSON ar, e_NotifyGroups := r_NotifyGroups ar,
       e_NotifyGroupsJSON := r_NotifyGroupsJSON ar\<rparr>"

definition GenerateNewEvent :: "alert_rule \<Rightarrow> event" where
  "GenerateNewEvent ar = UpdateEvent ar zero_event"

definition IsPrometheusRule :: "alert_rule \<Rightarrow> bool" where
  "IsPrometheusRule ar \<longleftrightarrow> r_Prod ar = ''metric'' \<and> r_Cate ar = ''prometheus''"

definition IsHostRule :: "alert_rule \<Rightarrow> bool" where
  "IsHostRule ar \<longleftrightarrow> r_Prod ar = ''host''"

definition IsInnerRule :: "alert_rule \<Rightarrow> bool" where
  "IsInnerRule ar \<longleftrightarrow>
     r_Cate ar = ''tdengine'' \<or> r_Cate ar = ''iotdb'' \<or> r_Cate ar = ''ck'' \<or>
     r_Cate ar = ''elasticsearch'' \<or> r_Prod ar = ''loki'' \<or> r_Cate ar = ''loki'' \<or>
     r_Cate ar = ''mysql'' \<or> r_Cate ar = ''pgsql'' \<or> r_Cate ar = ''doris'' \<or>
     r_Cate ar = ''opensearch'' \<or> r_Cate ar = ''victorialogs''"

definition GetRuleType :: "alert_rule \<Rightarrow> string" where
  "GetRuleType ar =
     (if r_Prod ar = ''metric'' \<or> r_Prod ar = ''logging'' then r_Cate ar else r_Prod ar)"

text \<open>\<open>AlertRule.Hash\<close>.\<close>

definition RuleHash :: "env \<Rightarrow> alert_rule \<Rightarrow> string" where
  "RuleHash x ar = x_md5 x (Itoa (r_Id ar) @ ''_'' @ r_DatasourceIds ar @ ''_'' @ r_RuleConfig ar)"

definition MatchGroupId :: "target \<Rightarrow> int list \<Rightarrow> bool" where
  "MatchGroupId t gids \<longleftrightarrow> list_ex (\<lambda>tg. list_ex (\<lambda>g. tg = g) gids) (t_GroupIds t)"

section \<open>Sample values\<close>

text \<open>
  Values on which the theorems are evaluated: an environment whose regular expressions match one
  literal text and whose clock is UTC, an empty rule and a machine.
\<close>

definition sample_regexp :: "string \<Rightarrow> regexp" where
  "sample_regexp p =
     \<lparr>MatchString = (\<lambda>s. s = p), ReplaceAllString = (\<lambda>src repl. if src = p then repl else src),
      FindExpand = (\<lambda>repl src. if src = p then Some repl else None)\<rparr>"

definition sample_env :: env where
  "sample_env =
     \<lparr>x_compile = (\<lambda>p. Some (sample_regexp p)), x_json_obj = (\<lambda>s. None), x_fmt_float = (\<lambda>q. ''1''),
      x_md5 = (\<lambda>s. s), x_md5_sum = (\<lambda>s. replicate 15 0 @ [17]), x_label_valid = (\<lambda>s. s \<noteq> []),
      x_marshal = (\<lambda>v. ''{}''), x_Local = (\<lambda>t. 0), x_LoadLocation = (\<lambda>z. None),
      x_tag_tmpl = (\<lambda>s m. Inr s)\<rparr>"

definition sample_rule :: alert_rule where
  "sample_rule = \<lparr>r_Id = 1, r_GroupId = 7, r_Cate = ''prometheus'', r_DatasourceIds = ''[1]'',
     r_DatasourceQueries = [], r_Name = ''cpu'', r_Note = [], r_Prod = ''metric'', r_Algorithm = [],
     r_Disabled = 0, r_PromForDuration = 0, r_PromQl = ''cpu > 1'', r_RuleConfig = ''{}'',
     r_RuleConfigJson = VNil, r_EventRelabelConfig = [], r_EnableStime = [], r_EnableEtime = [],
     r_EnableDaysOfWeek = [], r_EnableInBG = 0, r_NotifyRecovered = 1, r_NotifyChannels = [],
     r_NotifyChannelsJSON = [], r_NotifyGroups = [], r_NotifyGroupsJSON = [], r_NotifyRepeatStep = 1,
     r_NotifyMaxNumber = 3, r_RecoverDuration = 0, r_Callbacks = [], r_CallbacksJSON = [],
     r_RunbookUrl = [], r_AppendTagsJSON = [], r_Annotations = [], r_ExtraConfigJSON = VNil,
     r_CronPattern = ''@every 15s'', r_PromEvalInterval = 0, r_TimeZone = [], r_NotifyRuleIds = [], r_PipelineConfigs = []\<rparr>"

definition sample_event :: event where
  "sample_event = (GenerateNewEvent sample_rule)
     \<lparr>e_Hash := ''h1'', e_DatasourceId := 1, e_TriggerTime := 1000, e_LastEvalTime := 1000,
      e_Severity := 2, e_TagsMap := [(''ident'', ''web1'')], e_TagsJSON := [''ident=web1'']\<rparr>"

lemma sample_event_simps [simp]:
  "e_GroupId sample_event = 7" "e_Hash sample_event = ''h1''" "e_DatasourceId sample_event = 1"
  "e_TriggerTime sample_event = 1000" "e_LastEvalTime sample_event = 1000" "e_Severity sample_event = 2"
  "e_TagsMap sample_event = [(''ident'', ''web1'')]" "e_TagsJSON sample_event = [''ident=web1'']"
  "e_RuleId sample_event = 1" "e_IsRecovered sample_event = False" "e_NotifyMuted sample_event = 0"
  by (simp_all add: sample_event_def GenerateNewEvent_def UpdateEvent_def sample_rule_def zero_event_def)

section \<open>Properties\<close>

lemma Split_tags:
  "ts \<noteq> [] \<Longrightarrow> \<forall>t \<in> set ts. CHR '','' \<notin> set t \<Longrightarrow> Split (Join ts '',,'') '',,'' = ts"
  by (rule Split_Join) auto

text \<open>A name: not empty and without white space.\<close>

definition plain_word :: "string \<Rightarrow> bool" where
  "plain_word w \<longleftrightarrow> w \<noteq> [] \<and> (\<forall>c \<in> set w. \<not> is_space c)"

lemma Fields_words: "list_all plain_word ws \<Longrightarrow> Fields (Join ws '' '') = ws"
  by (rule Fields_Join) (auto simp: list_all_iff plain_word_def)

lemma fold_mput_all: "mwf m \<Longrightarrow> fold (\<lambda>(k, v). mput k v) m [] = m"
proof -
  have "fold (\<lambda>(k, v). mput k v) m acc = acc @ m" if "distinct (map fst (acc @ m))" for acc :: "('a \<times> 'b) list" and m
    using that
  proof (induction m arbitrary: acc)
    case (Cons kv m)
    obtain k v where kv: "kv = (k, v)" by (cases kv)
    have "mput k v acc = acc @ [(k, v)]" using Cons.prems kv by (induction acc) auto
    then show ?case using Cons kv by simp
  qed simp
  from this [of "[]" m] show "mwf m \<Longrightarrow> ?thesis" by (simp add: mwf_def)
qed

text \<open>
  C37. An event survives the trip through its database columns. The row that a query returns has the columns
  only; \<open>DB2FE\<close> rebuilds every list, the annotations, the rule configuration and the tag map from what \<open>FE2DB\<close>
  wrote into them, and changes no column. Names are words, tags have no comma, and the JSON codec gives back what it wrote. An
  empty list of tags comes back as one empty tag.
\<close>

theorem event_columns_round_trip:
  assumes "TrimSpace (ma_ann (e_AnnotationsJSON e)) = ''null'' \<Longrightarrow> e_AnnotationsJSON e = []"
    and "TrimSpace (ma_ann (e_AnnotationsJSON e)) \<noteq> ''null'' \<Longrightarrow> un_ann (ma_ann (e_AnnotationsJSON e)) = Some (e_AnnotationsJSON e)"
    and "mwf (e_AnnotationsJSON e)"
    and "un_cfg (ma_cfg (e_RuleConfigJson e)) = Some (e_RuleConfigJson e)"
    and "list_all plain_word (e_NotifyChannelsJSON e @ e_NotifyGroupsJSON e @ e_CallbacksJSON e)"
    and "\<forall>t \<in> set (e_TagsJSON e @ e_OriginalTagsJSON e). CHR '','' \<notin> set t"
  shows "\<exists>r. DB2FE un_ann un_cfg (event_row (FE2DB ma_ann ma_cfg e)) = (True, r) \<and>
    e_NotifyChannelsJSON r = e_NotifyChannelsJSON e \<and> e_NotifyGroupsJSON r = e_NotifyGroupsJSON e \<and>
    e_CallbacksJSON r = e_CallbacksJSON e \<and>
    e_TagsJSON r = (if e_TagsJSON e = [] then [[]] else e_TagsJSON e) \<and>
    e_OriginalTagsJSON r = (if e_OriginalTagsJSON e = [] then [[]] else e_OriginalTagsJSON e) \<and>
    e_AnnotationsJSON r = e_AnnotationsJSON e \<and> e_RuleConfigJson r = e_RuleConfigJson e \<and>
    e_TagsMap r = tags_to_map (e_TagsJSON e) [] \<and> event_row r = event_row (FE2DB ma_ann ma_cfg e)"
proof -
  let ?row = "event_row (FE2DB ma_ann ma_cfg e)"
  have cols: "e_NotifyChannels ?row = Join (e_NotifyChannelsJSON e) '' ''" "e_NotifyGroups ?row = Join (e_NotifyGroupsJSON e) '' ''"
    "e_Callbacks ?row = Join (e_CallbacksJSON e) '' ''" "e_Tags ?row = Join (e_TagsJSON e) '',,''"
    "e_OriginalTags ?row = Join (e_OriginalTagsJSON e) '',,''" "e_Annotations ?row = ma_ann (e_AnnotationsJSON e)"
    "e_RuleConfig ?row = ma_cfg (e_RuleConfigJson e)" "e_AnnotationsJSON ?row = []"
    by (simp_all add: event_row_def FE2DB_def)
  have ann: "decode_annotations un_ann (ma_ann (e_AnnotationsJSON e)) [] = Some (e_AnnotationsJSON e)"
    using assms(1-3) by (auto simp: decode_annotations_def fold_mput_all)
  have split: "Split (Join ts '',,'') '',,'' = (if ts = [] then [[]] else ts)" if "\<forall>t \<in> set ts. CHR '','' \<notin> set t" for ts
    using Split_tags [OF _ that] by (cases "ts = []") (simp_all add: Split_None)
  have idem: "event_row (d\<lparr>e_NotifyChannelsJSON := a1, e_NotifyGroupsJSON := a2, e_CallbacksJSON := a3, e_TagsJSON := a4,
      e_OriginalTagsJSON := a5, e_AnnotationsJSON := a6, e_RuleConfigJson := a7, e_TagsMap := a8\<rparr>) = event_row d"
    for d a1 a2 a3 a4 a5 a6 a7 a8 by (simp add: event_row_def)
  have same: "event_row (event_row d) = event_row d" for d by (simp add: event_row_def)
  have "tags_to_map [[]] [] = []" by (simp add: tag_pair_def TrimSpace_def)
  then show ?thesis
    using assms(4-6) by (simp add: DB2FE_def cols ann Let_def Fields_words split idem same)
qed

theorem event_columns_round_trip_witness:
  "\<exists>r. DB2FE (\<lambda>s. Some []) (\<lambda>s. Some VNil)
     (event_row (FE2DB (\<lambda>m. ''{}'') (\<lambda>v. ''null'')
       (zero_event\<lparr>e_TagsJSON := [''a=1'', ''b=2''], e_NotifyGroupsJSON := [''7'', ''8'']\<rparr>))) = (True, r) \<and>
     e_TagsJSON r = [''a=1'', ''b=2''] \<and> e_OriginalTagsJSON r = [[]] \<and> e_NotifyGroupsJSON r = [''7'', ''8'']"
  using event_columns_round_trip [of "\<lambda>m. ''{}''" "zero_event\<lparr>e_TagsJSON := [''a=1'', ''b=2''], e_NotifyGroupsJSON := [''7'', ''8'']\<rparr>"
      "\<lambda>s. Some []" "\<lambda>s. Some VNil" "\<lambda>v. ''null''"]
  by (auto simp: zero_event_def plain_word_def is_space_def TrimSpace_def mwf_def)

text \<open>
  \<open>GetTagValue\<close> finds its key anywhere inside a tag: a first tag whose key only ends with the wanted
  key is taken, and what comes back is that tag cut at the wrong place, not the value.
\<close>

theorem get_tag_value_takes_longer_keys:
  assumes "e_TagsJSON e = (p @ k @ ''='' @ v) # rest"
  shows "GetTagValue e k = drop (length k + 1) (p @ k @ ''='' @ v)"
  using assms Contains_iff [of "p @ k @ ''='' @ v" "k @ ''=''"]
  by (auto simp: GetTagValue_def Index_def Contains_def split: option.splits)

theorem get_tag_value_takes_longer_keys_witness:
  "GetTagValue (zero_event\<lparr>e_TagsJSON := [''xident=web1'', ''ident=db1'']\<rparr>) ''ident'' = ''=web1''"
  by (subst get_tag_value_takes_longer_keys [where p = "''x''" and v = "''web1''" and rest = "[''ident=db1'']"])
    simp_all

end
