(* ===== verification/Tag_Match.thy ===== *)
theory Tag_Match
  imports Alert_Types "HOL-Library.Monad_Syntax"
begin

text \<open>
  Tag filters: \<^verbatim>\<open>models/alert_mute.go\<close> (\<open>TagFilter\<close>, \<open>Verify\<close>, \<open>ParseTagFilter\<close>) and
  \<^verbatim>\<open>alert/common/key.go\<close> (\<open>MatchTags\<close>, \<open>MatchGroupsName\<close>). Mute rules, subscriptions,
  notification rules and event pipelines all decide with them.

  A result of type \<open>option\<close> is \<open>None\<close> where the Go code panics: a call on a regular expression that
  was never compiled, a type assertion \<^verbatim>\<open>id.(float64)\<close> on something else. The parser returns a
  sum, \<open>Inl\<close> being its error.
\<close>

record tag_filter =
  tf_Key :: string
  tf_Func :: string
  tf_Op :: string
  tf_Value :: goval
  tf_Regexp :: "regexp option"
  tf_Vset :: "string list option" \<comment> \<open>the set of keys of the map; \<open>None\<close> is the nil map\<close>

datatype filter_error =
    EmptyKey
  | InvalidOperation
  | UnsupportedRegexValue
  | BadRegexp
  | BadJson

section \<open>Printing a value\<close>

text \<open>\<^verbatim>\<open>fmt.Sprintf("%v", value)\<close>.\<close>

fun sprint_v :: "env \<Rightarrow> goval \<Rightarrow> string" where
  "sprint_v x VNil = ''<nil>''"
| "sprint_v x (VBool b) = (if b then ''true'' else ''false'')"
| "sprint_v x (VStr s) = s"
| "sprint_v x (VInt i) = Itoa i"
| "sprint_v x (VFloat q) = x_fmt_float x q"
| "sprint_v x (VInts is) = ''['' @ Join (map Itoa is) '' '' @ '']''"
| "sprint_v x (VStrs ss) = ''['' @ Join ss '' '' @ '']''"
| "sprint_v x (VArr vs) = ''['' @ Join (map (sprint_v x) vs) '' '' @ '']''"
| "sprint_v x (VObj kvs) =
     ''map['' @ Join (map (\<lambda>(k, s). k @ '':'' @ s)
        (sort_key fst (map (\<lambda>(k, v). (k, sprint_v x v)) kvs))) '' '' @ '']''"

section \<open>Verifying and parsing filters\<close>

definition TagFilter_Verify :: "tag_filter \<Rightarrow> filter_error + tag_filter" where
  "TagFilter_Verify t =
     (if tf_Key t = [] then Inl EmptyKey
      else let t1 = (if tf_Func t = [] then t\<lparr>tf_Func := tf_Op t\<rparr> else t) in
           if tf_Func t1 \<noteq> ''=='' \<and> tf_Func t1 \<noteq> ''!='' \<and> tf_Func t1 \<noteq> ''in'' \<and>
              tf_Func t1 \<noteq> ''not in'' \<and> tf_Func t1 \<noteq> ''=~'' \<and> tf_Func t1 \<noteq> ''!~''
           then Inl InvalidOperation
           else Inr t1)"

definition regex_pattern :: "goval \<Rightarrow> string option" where
  "regex_pattern v = (case v of VStr s \<Rightarrow> Some s | VInt i \<Rightarrow> Some (Itoa i) | _ \<Rightarrow> None)"

text \<open>Conversion of a \<^verbatim>\<open>float64\<close> to \<^verbatim>\<open>int\<close> truncates towards zero.\<close>

definition float_to_int :: "rat \<Rightarrow> int" where
  "float_to_int q = (if q < 0 then \<lceil>q\<rceil> else \<lfloor>q\<rfloor>)"

definition item_key :: "goval \<Rightarrow> string list" where
  "item_key v =
     (case v of VStr s \<Rightarrow> [s] | VInt i \<Rightarrow> [Itoa i] | VFloat q \<Rightarrow> [Itoa (float_to_int q)] | _ \<Rightarrow> [])"

definition vset_of :: "env \<Rightarrow> goval \<Rightarrow> string list" where
  "vset_of x v =
     (case v of
        VStr s \<Rightarrow> Fields s
      | VInts is \<Rightarrow> map Itoa is
      | VStrs ss \<Rightarrow> ss
      | VArr vs \<Rightarrow> concat (map item_key vs)
      | _ \<Rightarrow> Fields (sprint_v x v))"

text \<open>The same in \<open>GetTagFilters\<close>, which has no branch for \<^verbatim>\<open>[]string\<close>.\<close>

definition vset_of_json :: "env \<Rightarrow> goval \<Rightarrow> string list" where
  "vset_of_json x v =
     (case v of
        VStr s \<Rightarrow> Fields s
      | VInts is \<Rightarrow> map Itoa is
      | VArr vs \<Rightarrow> concat (map item_key vs)
      | _ \<Rightarrow> Fields (sprint_v x v))"

definition parse_filter ::
  "(env \<Rightarrow> goval \<Rightarrow> string list) \<Rightarrow> env \<Rightarrow> tag_filter \<Rightarrow> filter_error + tag_filter"
where
  "parse_filter vset x f =
     (if tf_Func f = ''=~'' \<or> tf_Func f = ''!~'' then
        (case regex_pattern (tf_Value f) of
           None \<Rightarrow> Inl UnsupportedRegexValue
         | Some p \<Rightarrow>
             (case x_compile x p of
                None \<Rightarrow> Inl BadRegexp
              | Some re \<Rightarrow> Inr (f\<lparr>tf_Regexp := Some re\<rparr>)))
      else if tf_Func f = ''in'' \<or> tf_Func f = ''not in'' then
        Inr (f\<lparr>tf_Vset := Some (vset x (tf_Value f))\<rparr>)
      else Inr f)"

text \<open>The loop over the filters stops at the first error.\<close>

fun parse_filters ::
  "(env \<Rightarrow> goval \<Rightarrow> string list) \<Rightarrow> env \<Rightarrow> tag_filter list \<Rightarrow> filter_error + tag_filter list"
where
  "parse_filters vset x [] = Inr []"
| "parse_filters vset x (f # fs) =
     (case parse_filter vset x f of
        Inl e \<Rightarrow> Inl e
      | Inr f' \<Rightarrow> (case parse_filters vset x fs of Inl e \<Rightarrow> Inl e | Inr fs' \<Rightarrow> Inr (f' # fs')))"

definition ParseTagFilter :: "env \<Rightarrow> tag_filter list \<Rightarrow> filter_error + tag_filter list" where
  "ParseTagFilter x bFilters = parse_filters vset_of x bFilters"

text \<open>\<open>un_filters\<close> decodes the JSON text of a filter list.\<close>

definition GetTagFilters ::
  "(string \<Rightarrow> tag_filter list option) \<Rightarrow> env \<Rightarrow> string \<Rightarrow> filter_error + tag_filter list"
where
  "GetTagFilters un_filters x jsonArr =
     (if jsonArr = [] then Inr []
      else case un_filters jsonArr of
             None \<Rightarrow> Inl BadJson
           | Some bFilters \<Rightarrow> parse_filters vset_of_json x bFilters)"

section \<open>Matching\<close>

definition in_vset :: "string list option \<Rightarrow> string \<Rightarrow> bool" where
  "in_vset vs s \<longleftrightarrow> (case vs of None \<Rightarrow> False | Some ks \<Rightarrow> s \<in> set ks)"

definition matchTag :: "env \<Rightarrow> string \<Rightarrow> tag_filter \<Rightarrow> bool option" where
  "matchTag x value f =
     (if tf_Func f = ''=='' then Some (TrimSpace (sprint_v x (tf_Value f)) = TrimSpace value)
      else if tf_Func f = ''!='' then Some (TrimSpace (sprint_v x (tf_Value f)) \<noteq> TrimSpace value)
      else if tf_Func f = ''in'' then Some (in_vset (tf_Vset f) value)
      else if tf_Func f = ''not in'' then Some (\<not> in_vset (tf_Vset f) value)
      else if tf_Func f = ''=~'' then map_option (\<lambda>re. MatchString re value) (tf_Regexp f)
      else if tf_Func f = ''!~'' then map_option (\<lambda>re. \<not> MatchString re value) (tf_Regexp f)
      else Some False)"

fun all_floats :: "goval list \<Rightarrow> rat list option" where
  "all_floats [] = Some []"
| "all_floats (VFloat q # vs) = map_option (\<lambda>qs. q # qs) (all_floats vs)"
| "all_floats (_ # vs) = None"

text \<open>The search of the group ids stops at the first hit, so a value after it is never asserted.\<close>

fun find_float :: "rat list \<Rightarrow> goval list \<Rightarrow> bool option" where
  "find_float qs [] = Some False"
| "find_float qs (VFloat q # vs) = (if q \<in> set qs then Some True else find_float qs vs)"
| "find_float qs (_ # vs) = None"

definition targetGroupMatch :: "env \<Rightarrow> string \<Rightarrow> tag_filter \<Rightarrow> bool option" where
  "targetGroupMatch x value f =
     (case x_json_obj x value of
        None \<Rightarrow> Some False
      | Some valueMap \<Rightarrow>
          (if tf_Func f = ''in'' \<or> tf_Func f = ''not in'' then
             (case tf_Value f of
                VArr ids \<Rightarrow>
                  do {
                    qs \<leftarrow> all_floats ids;
                    (case mget valueMap ''group_ids'' of
                       Some (VArr gids) \<Rightarrow>
                         do {
                           found \<leftarrow> find_float qs gids;
                           Some (if tf_Func f = ''in'' then found else \<not> found)
                         }
                     | _ \<Rightarrow> Some False)
                  }
              | _ \<Rightarrow> Some False)
           else if tf_Func f = ''=~'' \<or> tf_Func f = ''!~'' then
             (case mget valueMap ''group_names'' of
                Some (VArr names) \<Rightarrow>
                  do {
                    matched \<leftarrow> (case names of
                        [] \<Rightarrow> Some False
                      | _ \<Rightarrow> map_option (\<lambda>re. list_ex (\<lambda>n. MatchString re (sprint_v x n)) names)
                               (tf_Regexp f));
                    Some (if tf_Func f = ''=~'' then matched else \<not> matched)
                  }
              | _ \<Rightarrow> Some False)
           else Some False))"

definition match_one :: "env \<Rightarrow> (string, string) gomap \<Rightarrow> tag_filter \<Rightarrow> bool option" where
  "match_one x tags f =
     (if tf_Key f = ''target_group'' then
        (case mget tags ''target'' of None \<Rightarrow> Some False | Some v \<Rightarrow> targetGroupMatch x v f)
      else (case mget tags (tf_Key f) of None \<Rightarrow> Some False | Some v \<Rightarrow> matchTag x v f))"

fun MatchTags :: "env \<Rightarrow> (string, string) gomap \<Rightarrow> tag_filter list \<Rightarrow> bool option" where
  "MatchTags x tags [] = Some True"
| "MatchTags x tags (f # fs) =
     do { b \<leftarrow> match_one x tags f; if b then MatchTags x tags fs else Some False }"

fun MatchGroupsName :: "env \<Rightarrow> string \<Rightarrow> tag_filter list \<Rightarrow> bool option" where
  "MatchGroupsName x groupName [] = Some True"
| "MatchGroupsName x groupName (f # fs) =
     do { b \<leftarrow> matchTag x groupName f; if b then MatchGroupsName x groupName fs else Some False }"

section \<open>Lemmas\<close>

text \<open>A filter is parsed when the field its operation reads is filled in.\<close>

definition parsed :: "tag_filter \<Rightarrow> bool" where
  "parsed f \<longleftrightarrow>
     (tf_Func f = ''=~'' \<or> tf_Func f = ''!~'' \<longrightarrow> tf_Regexp f \<noteq> None) \<and>
     (tf_Func f = ''in'' \<or> tf_Func f = ''not in'' \<longrightarrow> tf_Vset f \<noteq> None)"

definition plain_key :: "tag_filter \<Rightarrow> bool" where
  "plain_key f \<longleftrightarrow> tf_Key f \<noteq> ''target_group''"

lemma parse_filter_parsed: "parse_filter vset x f = Inr f' \<Longrightarrow> parsed f'"
  by (auto simp: parse_filter_def parsed_def split: if_splits option.splits)

lemma parse_filter_key:
  "parse_filter vset x f = Inr f' \<Longrightarrow> tf_Key f' = tf_Key f \<and> tf_Func f' = tf_Func f"
  by (auto simp: parse_filter_def split: if_splits option.splits)

lemma parse_filters_parsed: "parse_filters vset x fs = Inr fs' \<Longrightarrow> list_all parsed fs'"
  by (induction fs arbitrary: fs')
    (auto split: sum.splits dest: parse_filter_parsed)

lemma parse_filters_keys: "parse_filters vset x fs = Inr fs' \<Longrightarrow> map tf_Key fs' = map tf_Key fs"
  by (induction fs arbitrary: fs')
    (auto split: sum.splits dest: parse_filter_key)

lemma plain_keys_map: "list_all plain_key fs \<longleftrightarrow> ''target_group'' \<notin> set (map tf_Key fs)"
  by (induction fs) (auto simp: plain_key_def)

lemma matchTag_total: "parsed f \<Longrightarrow> \<exists>b. matchTag x v f = Some b"
  by (auto simp: matchTag_def parsed_def)

lemma match_one_total: "parsed f \<Longrightarrow> plain_key f \<Longrightarrow> \<exists>b. match_one x tags f = Some b"
  by (auto simp: match_one_def plain_key_def matchTag_total split: option.splits)

lemma MatchTags_total:
  "list_all parsed fs \<Longrightarrow> list_all plain_key fs \<Longrightarrow> \<exists>b. MatchTags x tags fs = Some b"
proof (induction fs)
  case Nil
  show ?case unfolding MatchTags.simps by blast
next
  case (Cons f fs)
  then obtain b where "match_one x tags f = Some b"
    using match_one_total [of f x tags] by auto
  with Cons show ?case by (cases b) auto
qed

text \<open>The conjunction a list of filters stands for.\<close>

lemma MatchTags_True_iff:
  "MatchTags x tags fs = Some True \<longleftrightarrow> (\<forall>f \<in> set fs. match_one x tags f = Some True)"
  by (induction fs) (auto split: bind_splits)

lemma MatchGroupsName_True_iff:
  "MatchGroupsName x g fs = Some True \<longleftrightarrow> (\<forall>f \<in> set fs. matchTag x g f = Some True)"
  by (induction fs) (auto split: bind_splits)

text \<open>Filters that are total may be checked in any order.\<close>

lemma MatchTags_False_iff:
  assumes "\<forall>f \<in> set fs. match_one x tags f \<noteq> None"
  shows "MatchTags x tags fs = Some False \<longleftrightarrow> (\<exists>f \<in> set fs. match_one x tags f = Some False)"
  using assms by (induction fs) (auto split: bind_splits)

text \<open>The negative operations are the complements of the positive ones on a tag that is there.\<close>

definition negate_func :: "string \<Rightarrow> string" where
  "negate_func g =
     (if g = ''=='' then ''!='' else if g = ''in'' then ''not in'' else if g = ''=~'' then ''!~'' else g)"

lemma matchTag_negate:
  assumes "tf_Func f \<in> {''=='', ''in'', ''=~''}"
  shows "matchTag x v (f\<lparr>tf_Func := negate_func (tf_Func f)\<rparr>) = map_option Not (matchTag x v f)"
  using assms by (auto simp: matchTag_def negate_func_def option.map_comp comp_def)

section \<open>Properties\<close>

text \<open>
  C36. Filters that the parser accepted never panic when they are matched against the tags of an event,
  as long as none of them is on the group of the machine; and the list is their conjunction.
\<close>

theorem parsed_filters_match_totally:
  assumes "ParseTagFilter x fs = Inr fs'" and "list_all plain_key fs"
  shows "\<exists>b. MatchTags x tags fs' = Some b \<and> b = (\<forall>f \<in> set fs'. match_one x tags f = Some True)"
proof -
  have "list_all parsed fs'" and "list_all plain_key fs'"
    using assms parse_filters_parsed parse_filters_keys by (auto simp: ParseTagFilter_def plain_keys_map)
  then obtain b where "MatchTags x tags fs' = Some b" using MatchTags_total by blast
  then show ?thesis using MatchTags_True_iff [of x tags fs'] by (cases b) auto
qed

definition sample_filter :: "string \<Rightarrow> string \<Rightarrow> goval \<Rightarrow> tag_filter" where
  "sample_filter k g v =
     \<lparr>tf_Key = k, tf_Func = g, tf_Op = [], tf_Value = v, tf_Regexp = None, tf_Vset = None\<rparr>"

theorem parsed_filters_match_totally_witness:
  "\<exists>b. MatchTags sample_env [(''ident'', ''web1'')]
         [sample_filter ''ident'' ''in'' (VStr ''web1 web2'')\<lparr>tf_Vset := Some [''web1'', ''web2'']\<rparr>] = Some b \<and>
       b = (\<forall>f \<in> set [sample_filter ''ident'' ''in'' (VStr ''web1 web2'')\<lparr>tf_Vset := Some [''web1'', ''web2'']\<rparr>].
              match_one sample_env [(''ident'', ''web1'')] f = Some True)"
  by (rule parsed_filters_match_totally [where fs = "[sample_filter ''ident'' ''in'' (VStr ''web1 web2'')]"])
    (simp_all add: ParseTagFilter_def parse_filter_def sample_filter_def vset_of_def Fields_def is_space_def
      plain_key_def)

text \<open>
  A filter on the machine group whose list holds something else than numbers passes both
  \<open>Verify\<close> and the parser, and then panics on every event whose machine is known.
\<close>

theorem target_group_filter_panics:
  assumes "x_json_obj x tv = Some obj" and "mget tags ''target'' = Some tv"
    and "f = sample_filter ''target_group'' ''in'' (VArr [VStr s])"
  shows "TagFilter_Verify f = Inr f \<and> (\<exists>f'. ParseTagFilter x [f] = Inr [f'] \<and> MatchTags x tags [f'] = None)"
  using assms
  by (simp add: TagFilter_Verify_def ParseTagFilter_def parse_filter_def match_one_def targetGroupMatch_def
      sample_filter_def)

theorem target_group_filter_panics_witness:
  "TagFilter_Verify (sample_filter ''target_group'' ''in'' (VArr [VStr ''7''])) =
     Inr (sample_filter ''target_group'' ''in'' (VArr [VStr ''7''])) \<and>
   (\<exists>f'. ParseTagFilter (sample_env\<lparr>x_json_obj := (\<lambda>s. Some [])\<rparr>)
            [sample_filter ''target_group'' ''in'' (VArr [VStr ''7''])] = Inr [f'] \<and>
          MatchTags (sample_env\<lparr>x_json_obj := (\<lambda>s. Some [])\<rparr>) [(''target'', ''{}'')] [f'] = None)"
  by (rule target_group_filter_panics) simp_all

end
