(* ===== verification/Workflow.thy ===== *)
theory Workflow
  imports Tag_Match
begin

text \<open>
  Event pipelines: the workflow model (\<^verbatim>\<open>models/workflow.go\<close>, \<^verbatim>\<open>models/event_pipeline.go\<close>,
  \<^verbatim>\<open>models/event_processor.go\<close>) and the engine that runs it (\<^verbatim>\<open>alert/pipeline/engine/engine.go\<close>).

  The workflow context is one object that every processor gets by pointer and changes in place: a
  processor is a function from the context to the context after the call and its answer, \<open>None\<close>
  being a panic. The first argument of a processor is the number of the attempt, so that a call to
  another system may fail first and succeed later. Times and durations of the results are left out.

  The loop of \<open>executeDAG\<close> terminates because every round either runs a node that has not run yet or
  shortens the queue. The invariant \<open>dag_inv\<close> ties the in-degree table to the edges that were
  followed; from it come the order of execution and the nodes that can never run.
\<close>

section \<open>The model\<close>

record workflow_node =
  n_ID :: string
  n_Name :: string
  n_Type :: string
  n_Config :: goval
  n_Disabled :: bool
  n_ContinueOnFail :: bool
  n_RetryOnFail :: bool
  n_MaxRetries :: int
  n_RetryInterval :: int

record connection_target =
  ct_Node :: string
  ct_Type :: string
  ct_Index :: int

type_synonym node_connections = "connection_target list list"

type_synonym connections = "(string, node_connections) gomap"

record input_variable =
  iv_Key :: string
  iv_Value :: string

record event_pipeline =
  ep_ID :: int
  ep_Name :: string
  ep_UseCase :: string
  ep_Disabled :: bool
  ep_TeamIds :: "int list"
  ep_GroupId :: int
  ep_FilterEnable :: bool
  ep_LabelFilters :: "tag_filter list"
  ep_AttrFilters :: "tag_filter list"
  ep_ProcessorConfigs :: "(string \<times> goval) list"
  ep_Nodes :: "workflow_node list"
  ep_Connections :: connections
  ep_Inputs :: "input_variable list"

record workflow_context =
  wf_Event :: "event option"
  wf_Inputs :: "(string, string) gomap"
  wf_Vars :: "(string, goval) gomap"
  wf_Metadata :: "(string, string) gomap"
  wf_Stream :: bool
  wf_StreamChan :: "nat option" \<comment> \<open>the channel, nil as \<open>None\<close>\<close>

datatype node_status = NUnset | NSkipped | NFailed | NSuccess | NTerminated | NStreaming

record node_result =
  nr_NodeID :: string
  nr_NodeName :: string
  nr_NodeType :: string
  nr_Status :: node_status
  nr_Message :: string
  nr_Error :: string
  nr_BranchIndex :: "int option"

datatype execution_status = ExecutionStatusSuccess | ExecutionStatusFailed | ExecutionStatusStreaming

record workflow_result =
  wr_Event :: "event option"
  wr_Status :: execution_status
  wr_Message :: string
  wr_NodeResults :: "node_result list"
  wr_ErrorNode :: string
  wr_Stream :: bool
  wr_StreamChan :: "nat option"

record trigger_context =
  tg_Mode :: string
  tg_TriggerBy :: string
  tg_RequestID :: string
  tg_InputsOverrides :: "(string, string) gomap"
  tg_Stream :: bool

record node_output =
  no_Message :: string
  no_Terminate :: bool
  no_BranchIndex :: "int option"
  no_Stream :: bool
  no_StreamChan :: "nat option"

text \<open>The context pointer a processor hands back: the one it got, nil, or another one.\<close>

datatype ctx_ptr = SameCtx | NilCtx | OtherCtx workflow_context

datatype processor =
    Plain "nat \<Rightarrow> workflow_context \<Rightarrow> (workflow_context \<times> (string + ctx_ptr \<times> string)) option"
  | Branch "nat \<Rightarrow> workflow_context \<Rightarrow> (workflow_context \<times> (string + node_output option)) option"

type_synonym processor_register = "(string, goval \<Rightarrow> string + processor) gomap"

section \<open>Pipelines\<close>

datatype pipeline_error = NameEmpty | TeamIdsEmpty

definition EventPipeline_Verify :: "event_pipeline \<Rightarrow> pipeline_error + event_pipeline" where
  "EventPipeline_Verify e =
     (if ep_Name e = [] then Inl NameEmpty
      else if ep_UseCase e \<noteq> ''alert_rule'' \<and> ep_GroupId e \<le> 0 \<and> ep_TeamIds e = [] then Inl TeamIdsEmpty
      else Inr e)"

definition node_of_processor :: "nat \<Rightarrow> string \<times> goval \<Rightarrow> workflow_node" where
  "node_of_processor i pc =
     \<lparr>n_ID = ''node_'' @ utoa i, n_Name = fst pc, n_Type = fst pc, n_Config = snd pc, n_Disabled = False,
      n_ContinueOnFail = False, n_RetryOnFail = False, n_MaxRetries = 0, n_RetryInterval = 0\<rparr>"

definition GetWorkflowNodes :: "event_pipeline \<Rightarrow> workflow_node list" where
  "GetWorkflowNodes e =
     (if ep_Nodes e \<noteq> [] then ep_Nodes e
      else map (\<lambda>(i, pc). node_of_processor i pc) (List.enumerate 0 (ep_ProcessorConfigs e)))"

fun linear_connections :: "workflow_node list \<Rightarrow> connections \<Rightarrow> connections" where
  "linear_connections (a # b # ns) m =
     linear_connections (b # ns)
       (mput (n_ID a) [[\<lparr>ct_Node = n_ID b, ct_Type = ''main'', ct_Index = 0\<rparr>]] m)"
| "linear_connections _ m = m"

definition GetWorkflowConnections :: "event_pipeline \<Rightarrow> connections" where
  "GetWorkflowConnections e =
     (if ep_Connections e \<noteq> [] then ep_Connections e else linear_connections (GetWorkflowNodes e) [])"

definition FillWorkflowFields :: "event_pipeline \<Rightarrow> event_pipeline" where
  "FillWorkflowFields e =
     (if ep_Nodes e = [] \<and> ep_ProcessorConfigs e \<noteq> [] then
        (let e1 = e\<lparr>ep_Nodes := GetWorkflowNodes e\<rparr>
         in e1\<lparr>ep_Connections := GetWorkflowConnections e1\<rparr>)
      else e)"

definition GetInputsMap :: "event_pipeline \<Rightarrow> (string, string) gomap" where
  "GetInputsMap e = fold (\<lambda>v. mput (iv_Key v) (iv_Value v)) (ep_Inputs e) []"

text \<open>The registry of processors; registering a type twice keeps the first.\<close>

definition RegisterProcessor ::
  "string \<Rightarrow> (goval \<Rightarrow> string + processor) \<Rightarrow> processor_register \<Rightarrow> processor_register"
where
  "RegisterProcessor typ init reg = (if mhas reg typ then reg else mput typ init reg)"

definition GetProcessorByType :: "processor_register \<Rightarrow> string \<Rightarrow> goval \<Rightarrow> string + processor" where
  "GetProcessorByType reg typ settings =
     (let typ' = TrimSpace typ
      in case mget reg typ' of
           None \<Rightarrow> Inl (''processor type '' @ typ' @ '' not found'')
         | Some init \<Rightarrow> init settings)"

section \<open>Running a node\<close>

text \<open>
  One attempt: the context afterwards, and the error or the filled-in result together with the
  channel if the node streams.
\<close>

definition branch_outcome :: "node_output option \<Rightarrow> node_result \<Rightarrow> node_result \<times> nat option" where
  "branch_outcome out r =
     (case out of
        None \<Rightarrow> (r\<lparr>nr_Status := NSuccess\<rparr>, None)
      | Some o' \<Rightarrow>
          (r\<lparr>nr_Status := (if no_Terminate o' then NTerminated else NSuccess), nr_Message := no_Message o',
             nr_BranchIndex := no_BranchIndex o'\<rparr>,
           if no_Stream o' then no_StreamChan o' else None))"

definition plain_outcome ::
  "workflow_context \<Rightarrow> ctx_ptr \<Rightarrow> string \<Rightarrow> node_result \<Rightarrow> node_result \<times> nat option"
where
  "plain_outcome c ptr msg r =
     (let new = (case ptr of SameCtx \<Rightarrow> Some c | NilCtx \<Rightarrow> None | OtherCtx d \<Rightarrow> Some d)
      in (r\<lparr>nr_Status := (if new = None \<or> wf_Event (the new) = None then NTerminated else NSuccess),
            nr_Message := msg\<rparr>,
          case new of None \<Rightarrow> None | Some d \<Rightarrow> if wf_Stream d then wf_StreamChan d else None))"

definition run_once ::
  "nat \<Rightarrow> processor \<Rightarrow> workflow_context \<Rightarrow> node_result
     \<Rightarrow> (workflow_context \<times> (string + node_result \<times> nat option)) option"
where
  "run_once i p c r =
     (case p of
        Branch f \<Rightarrow>
          do {
            (c', ans) \<leftarrow> f i c;
            Some (c', case ans of Inl err \<Rightarrow> Inl err | Inr out \<Rightarrow> Inr (branch_outcome out r))
          }
      | Plain f \<Rightarrow>
          do {
            (c', ans) \<leftarrow> f i c;
            Some (c', case ans of Inl err \<Rightarrow> Inl err | Inr (ptr, msg) \<Rightarrow> Inr (plain_outcome c' ptr msg r))
          })"

text \<open>\<open>left\<close> is the number of retries that remain, \<open>i\<close> the number of this attempt.\<close>

fun attempts ::
  "nat \<Rightarrow> nat \<Rightarrow> processor \<Rightarrow> workflow_context \<Rightarrow> node_result
     \<Rightarrow> (workflow_context \<times> node_result \<times> nat option) option"
where
  "attempts left i p c r =
     do {
       (c', ans) \<leftarrow> run_once i p c r;
       (case ans of
          Inr (r', chan) \<Rightarrow> Some (c', r', chan)
        | Inl err \<Rightarrow>
            (case left of
               0 \<Rightarrow> Some (c', r\<lparr>nr_Status := NFailed, nr_Error := err\<rparr>, None)
             | Suc left' \<Rightarrow> attempts left' (Suc i) p c' r))
     }"

declare attempts.simps [simp del]

definition executeNode ::
  "processor_register \<Rightarrow> workflow_node \<Rightarrow> workflow_context
     \<Rightarrow> (workflow_context \<times> node_result \<times> nat option) option"
where
  "executeNode reg node c =
     (let r = \<lparr>nr_NodeID = n_ID node, nr_NodeName = n_Name node, nr_NodeType = n_Type node,
               nr_Status = NUnset, nr_Message = [], nr_Error = [], nr_BranchIndex = None\<rparr>
      in if n_Disabled node then
           Some (c, r\<lparr>nr_Status := NSkipped, nr_Message := ''node is disabled''\<rparr>, None)
         else case GetProcessorByType reg (n_Type node) (n_Config node) of
                Inl err \<Rightarrow>
                  Some (c, r\<lparr>nr_Status := NFailed, nr_Error := ''failed to get processor: '' @ err\<rparr>, None)
              | Inr p \<Rightarrow>
                  (let maxRetries = (if \<not> n_RetryOnFail node then 0 else n_MaxRetries node)
                   in if maxRetries < 0 then Some (c, r, None) else attempts (nat maxRetries) 0 p c r))"

section \<open>Running the graph\<close>

definition shouldFollowBranch :: "string \<Rightarrow> nat \<Rightarrow> (string, int option) gomap \<Rightarrow> bool" where
  "shouldFollowBranch nodeID outputIndex branchResults =
     (case mget branchResults nodeID of
        None \<Rightarrow> outputIndex = 0
      | Some branchIndex \<Rightarrow>
          (case branchIndex of None \<Rightarrow> True | Some i \<Rightarrow> int outputIndex = i))"

text \<open>A missing entry of the in-degree table reads as 0.\<close>

definition deg :: "(string, int) gomap \<Rightarrow> string \<Rightarrow> int" where
  "deg m t = (case mget m t of None \<Rightarrow> 0 | Some v \<Rightarrow> v)"

definition initial_degrees :: "(string, workflow_node) gomap \<Rightarrow> connections \<Rightarrow> (string, int) gomap" where
  "initial_degrees nodeMap conns =
     fold (\<lambda>(src, main). fold (fold (\<lambda>t m. mput (ct_Node t) (deg m (ct_Node t) + 1) m)) main) conns
       (map (\<lambda>nid. (nid, 0)) (mkeys nodeMap))"

record dag_state =
  d_queue :: "string list"
  d_executed :: "string list" \<comment> \<open>latest first\<close>
  d_inDegree :: "(string, int) gomap"
  d_branch :: "(string, int option) gomap"
  d_ctx :: workflow_context
  d_result :: workflow_result

definition release :: "connection_target \<Rightarrow> (string, int) gomap \<times> string list \<Rightarrow> (string, int) gomap \<times> string list" where
  "release t dq =
     (let v = deg (fst dq) (ct_Node t) - 1
      in (mput (ct_Node t) v (fst dq), if v = 0 then snd dq @ [ct_Node t] else snd dq))"

definition followed_targets :: "string \<Rightarrow> (string, int option) gomap \<Rightarrow> connections \<Rightarrow> connection_target list" where
  "followed_targets nid branch conns =
     (case mget conns nid of
        None \<Rightarrow> []
      | Some main \<Rightarrow>
          concat (map (\<lambda>(i, targets). if shouldFollowBranch nid i branch then targets else [])
                   (List.enumerate 0 main)))"

text \<open>What the loop writes into the result: for a node that streams, and for any other node.\<close>

definition stream_result ::
  "workflow_node \<Rightarrow> workflow_context \<Rightarrow> node_result \<Rightarrow> nat \<Rightarrow> workflow_result \<Rightarrow> workflow_result"
where
  "stream_result node c nr ch res =
     res\<lparr>wr_NodeResults := wr_NodeResults res @
           [nr\<lparr>nr_Status := NStreaming, nr_Message := ''streaming in progress''\<rparr>],
         wr_Stream := True, wr_StreamChan := Some ch, wr_Event := wf_Event c,
         wr_Status := ExecutionStatusStreaming,
         wr_Message := ''streaming output from node: '' @ n_Name node\<rparr>"

definition node_recorded :: "string \<Rightarrow> workflow_node \<Rightarrow> node_result \<Rightarrow> workflow_result \<Rightarrow> workflow_result" where
  "node_recorded nid node nr res =
     (let res1 = res\<lparr>wr_NodeResults := wr_NodeResults res @ [nr]\<rparr>;
          res2 = (if nr_Status nr = NFailed \<and> \<not> n_ContinueOnFail node then
                    res1\<lparr>wr_Status := ExecutionStatusFailed, wr_ErrorNode := nid,
                      wr_Message := ''node '' @ n_Name node @ '' failed: '' @ nr_Error nr\<rparr>
                  else res1)
      in if nr_Status nr = NTerminated
         then res2\<lparr>wr_Message := ''workflow terminated at node '' @ n_Name node\<rparr> else res2)"

text \<open>
  The body of the loop for a node that is there and has not run: the new state, and whether the loop
  returns.
\<close>

definition visit ::
  "processor_register \<Rightarrow> connections \<Rightarrow> string \<Rightarrow> workflow_node \<Rightarrow> dag_state \<Rightarrow> (dag_state \<times> bool) option"
where
  "visit reg conns nid node st =
     do {
       (c, nr, chan) \<leftarrow> executeNode reg node (d_ctx st);
       (case chan of
          Some ch \<Rightarrow> Some (st\<lparr>d_ctx := c, d_result := stream_result node c nr ch (d_result st)\<rparr>, True)
        | None \<Rightarrow>
            let branch = (case nr_BranchIndex nr of
                            None \<Rightarrow> d_branch st
                          | Some b \<Rightarrow> mput nid (Some b) (d_branch st));
                st1 = st\<lparr>d_ctx := c, d_executed := nid # d_executed st, d_branch := branch,
                         d_result := node_recorded nid node nr (d_result st)\<rparr>
            in if nr_Status nr = NTerminated then Some (st1, True)
               else
                 let (degs, queue) = fold release (followed_targets nid branch conns) (d_inDegree st, d_queue st)
                 in Some (st1\<lparr>d_inDegree := degs, d_queue := queue\<rparr>, False))
     }"

lemma visit_executed:
  "visit reg conns nid node st = Some (st', False) \<Longrightarrow> d_executed st' = nid # d_executed st"
  by (auto simp: visit_def Let_def split: bind_splits option.split_asm if_split_asm prod.split_asm)

definition unexecuted :: "(string, workflow_node) gomap \<Rightarrow> dag_state \<Rightarrow> string set" where
  "unexecuted nodeMap st = set (mkeys nodeMap) - set (d_executed st)"

function dag_loop ::
  "processor_register \<Rightarrow> (string, workflow_node) gomap \<Rightarrow> connections \<Rightarrow> dag_state \<Rightarrow> dag_state option"
where
  "dag_loop reg nodeMap conns st =
     (case d_queue st of
        [] \<Rightarrow> Some st
      | nid # queue \<Rightarrow>
          (let st0 = st\<lparr>d_queue := queue\<rparr>
           in if nid \<in> set (d_executed st) then dag_loop reg nodeMap conns st0
              else case mget nodeMap nid of
                     None \<Rightarrow> dag_loop reg nodeMap conns st0
                   | Some node \<Rightarrow>
                       (case visit reg conns nid node st0 of
                          None \<Rightarrow> None
                        | Some (st', True) \<Rightarrow> Some st'
                        | Some (st', False) \<Rightarrow> dag_loop reg nodeMap conns st')))"
  by pat_completeness auto
termination
proof (relation "measures [\<lambda>(reg, nodeMap, conns, st). card (unexecuted nodeMap st),
                           \<lambda>(reg, nodeMap, conns, st). length (d_queue st)]", goal_cases)
  case 1
  show ?case by simp
next
  case (2 reg nodeMap conns st nid queue st0)
  then show ?case by (simp add: unexecuted_def)
next
  case (3 reg nodeMap conns st nid queue st0)
  then show ?case by (simp add: unexecuted_def)
next
  case (4 reg nodeMap conns st nid queue st0 node p st' b)
  then have "d_executed st' = nid # d_executed st" using visit_executed by fastforce
  moreover have "nid \<in> unexecuted nodeMap st"
    using 4 in_mkeys_iff [of nid nodeMap] by (simp add: unexecuted_def mhas_def)
  ultimately have "unexecuted nodeMap st' \<subset> unexecuted nodeMap st"
    by (auto simp: unexecuted_def)
  then have "card (unexecuted nodeMap st') < card (unexecuted nodeMap st)"
    by (rule psubset_card_mono [rotated]) (simp add: unexecuted_def)
  then show ?case by simp
qed

declare dag_loop.simps [simp del]

definition new_result :: "workflow_context \<Rightarrow> workflow_result" where
  "new_result c =
     \<lparr>wr_Event = None, wr_Status = ExecutionStatusSuccess, wr_Message = [], wr_NodeResults = [],
      wr_ErrorNode = [], wr_Stream = wf_Stream c, wr_StreamChan = None\<rparr>"

text \<open>\<open>ord\<close> is the order in which \<^verbatim>\<open>range\<close> visits the in-degree table.\<close>

definition executeDAG ::
  "processor_register \<Rightarrow> (string list \<Rightarrow> string list) \<Rightarrow> (string, workflow_node) gomap \<Rightarrow> connections
     \<Rightarrow> workflow_context \<Rightarrow> (workflow_context \<times> workflow_result) option"
where
  "executeDAG reg ord nodeMap conns c =
     (let result = new_result c;
          degs = initial_degrees nodeMap conns;
          queue = filter (\<lambda>nid. deg degs nid = 0) (ord (mkeys degs))
      in if queue = [] \<and> nodeMap \<noteq> [] then
           Some (c, result\<lparr>wr_Status := ExecutionStatusFailed, wr_Message := ''workflow has circular dependency''\<rparr>)
         else map_option (\<lambda>st. (d_ctx st, d_result st))
                (dag_loop reg nodeMap conns
                   \<lparr>d_queue = queue, d_executed = [], d_inDegree = degs, d_branch = [], d_ctx = c,
                    d_result = result\<rparr>))"

definition initWorkflowContext ::
  "int \<Rightarrow> event_pipeline \<Rightarrow> event option \<Rightarrow> trigger_context option \<Rightarrow> workflow_context"
where
  "initWorkflowContext now pipeline ev trig =
     (let inputs0 = GetInputsMap pipeline;
          inputs = (case trig of
                      None \<Rightarrow> inputs0
                    | Some t \<Rightarrow> fold (\<lambda>(k, v). mput k v) (tg_InputsOverrides t) inputs0);
          meta0 = [(''start_time'', Itoa now), (''pipeline_id'', Itoa (ep_ID pipeline))]
      in \<lparr>wf_Event = ev, wf_Inputs = inputs, wf_Vars = [],
          wf_Metadata = (case trig of
              None \<Rightarrow> meta0
            | Some t \<Rightarrow> meta0 @ [(''request_id'', tg_RequestID t), (''trigger_mode'', tg_Mode t),
                                 (''trigger_by'', tg_TriggerBy t)]),
          wf_Stream = (case trig of None \<Rightarrow> False | Some t \<Rightarrow> tg_Stream t),
          wf_StreamChan = None\<rparr>)"

definition node_defaults :: "workflow_node \<Rightarrow> workflow_node" where
  "node_defaults n =
     (let n1 = (if n_RetryInterval n = 0 then n\<lparr>n_RetryInterval := 1\<rparr> else n)
      in if n_MaxRetries n1 = 0 then n1\<lparr>n_MaxRetries := 1\<rparr> else n1)"

definition build_nodeMap :: "workflow_node list \<Rightarrow> (string, workflow_node) gomap" where
  "build_nodeMap nodes = fold (\<lambda>n. mput (n_ID n) (node_defaults n)) nodes []"

record pipeline_execution =
  px_ID :: string
  px_PipelineID :: int
  px_PipelineName :: string
  px_Mode :: string
  px_Status :: execution_status
  px_ErrorMessage :: string
  px_ErrorNode :: string
  px_TriggerBy :: string
  px_EventID :: int
  px_NodeResults :: "node_result list"
  px_InputsSnapshot :: "(string, string) gomap"

text \<open>The record that is written for a run; \<open>uuid\<close> is a fresh identifier.\<close>

definition saveExecutionRecord ::
  "string \<Rightarrow> event_pipeline \<Rightarrow> workflow_context \<Rightarrow> workflow_result \<Rightarrow> trigger_context \<Rightarrow> pipeline_execution"
where
  "saveExecutionRecord uuid pipeline c res trig =
     \<lparr>px_ID = (if tg_RequestID trig = [] then uuid else tg_RequestID trig),
      px_PipelineID = ep_ID pipeline, px_PipelineName = ep_Name pipeline, px_Mode = tg_Mode trig,
      px_Status = wr_Status res, px_ErrorMessage = wr_Message res, px_ErrorNode = wr_ErrorNode res,
      px_TriggerBy = tg_TriggerBy trig,
      px_EventID = (case wf_Event c of None \<Rightarrow> 0 | Some ev \<Rightarrow> e_Id ev),
      px_NodeResults = wr_NodeResults res, px_InputsSnapshot = wf_Inputs c\<rparr>"

text \<open>The event, the result, and the execution record if one is written.\<close>

definition Execute ::
  "processor_register \<Rightarrow> (string list \<Rightarrow> string list) \<Rightarrow> int \<Rightarrow> string \<Rightarrow> event_pipeline \<Rightarrow> event option
     \<Rightarrow> trigger_context option \<Rightarrow> (event option \<times> workflow_result \<times> pipeline_execution option) option"
where
  "Execute reg ord now uuid pipeline ev trig =
     (let c = initWorkflowContext now pipeline ev trig;
          nodes = GetWorkflowNodes pipeline;
          conns = GetWorkflowConnections pipeline
      in if nodes = [] then
           Some (ev, \<lparr>wr_Event = ev, wr_Status = ExecutionStatusSuccess, wr_Message = ''no nodes to execute'',
                      wr_NodeResults = [], wr_ErrorNode = [], wr_Stream = False, wr_StreamChan = None\<rparr>, None)
         else do {
           (c', res0) \<leftarrow> executeDAG reg ord (build_nodeMap nodes) conns c;
           let res = res0\<lparr>wr_Event := wf_Event c'\<rparr>;
           Some (wf_Event c', res,
                 case trig of
                   None \<Rightarrow> None
                 | Some t \<Rightarrow> if tg_Mode t \<noteq> [] then Some (saveExecutionRecord uuid pipeline c' res t) else None)
         })"

end
