(* ===== verification/Workflow_Order.thy ===== *)
theory Workflow_Order
  imports Workflow
begin

text \<open>
  The order in which the engine runs the nodes of a workflow. The edges of the connection map, the
  invariant of the loop of \<open>executeDAG\<close> (the in-degree table counts the edges that were not followed
  yet, a queued node has none left), and the properties that follow: a node runs at most once and
  after everything it depends on, and a node that joins two outputs of one node never runs.
\<close>

section \<open>Edges\<close>

type_synonym edge = "string \<times> nat \<times> string"

definition out_edges :: "string \<Rightarrow> nat \<Rightarrow> node_connections \<Rightarrow> edge list" where
  "out_edges s n main =
     concat (map (\<lambda>(i, ts). map (\<lambda>t. (s, i, ct_Node t)) ts) (List.enumerate n main))"

definition edges :: "connections \<Rightarrow> edge list" where
  "edges conns = concat (map (\<lambda>(s, main). out_edges s 0 main) conns)"

definition all_targets :: "connections \<Rightarrow> connection_target list" where
  "all_targets conns = concat (map (\<lambda>(s, main). concat main) conns)"

text \<open>How many of the edges into \<open>t\<close> were not followed yet.\<close>

definition open_edges :: "connections \<Rightarrow> string list \<Rightarrow> (string, int option) gomap \<Rightarrow> string \<Rightarrow> nat" where
  "open_edges conns ex br t =
     length (filter (\<lambda>(s, i, t'). t' = t \<and> \<not> (s \<in> set ex \<and> shouldFollowBranch s i br)) (edges conns))"

lemma fold_fold: "fold (fold f) xss s = fold f (concat xss) s"
  by (induction xss arbitrary: s) auto

lemma fold_conns:
  "fold (\<lambda>(src, main). fold (fold f) main) conns m = fold f (all_targets conns) m"
  by (induction conns arbitrary: m) (auto simp: all_targets_def fold_fold)

lemma deg_mput [simp]: "deg (mput k v m) t = (if t = k then v else deg m t)"
  by (simp add: deg_def)

lemma deg_fold_inc:
  "deg (fold (\<lambda>t m. mput (ct_Node t) (deg m (ct_Node t) + 1) m) ts m) k =
     deg m k + int (length (filter (\<lambda>t. ct_Node t = k) ts))"
  by (induction ts arbitrary: m) auto

lemma out_edges_targets:
  "length (filter (\<lambda>(s, i, t'). t' = t) (out_edges src n main)) =
     length (filter (\<lambda>c. ct_Node c = t) (concat main))"
  by (induction main arbitrary: n) (auto simp: out_edges_def comp_def)

lemma edges_targets:
  "length (filter (\<lambda>(s, i, t'). t' = t) (edges conns)) =
     length (filter (\<lambda>c. ct_Node c = t) (all_targets conns))"
  by (induction conns) (auto simp: edges_def all_targets_def out_edges_targets)

lemma deg_initial: "deg (initial_degrees nodeMap conns) t = int (open_edges conns [] [] t)"
proof -
  have "deg (map (\<lambda>nid. (nid, 0)) ks) t = 0" for ks :: "string list"
    by (simp add: deg_def map_of_map_restrict restrict_map_def)
  then show ?thesis
    by (simp add: initial_degrees_def fold_conns deg_fold_inc open_edges_def edges_targets)
qed

lemma out_edges_followed:
  "length (filter (\<lambda>(s, i, t'). s = nid \<and> t' = t \<and> P i) (out_edges nid n main)) =
   length (filter (\<lambda>c. ct_Node c = t)
     (concat (map (\<lambda>(i, targets). if P i then targets else []) (List.enumerate n main))))"
  by (induction main arbitrary: n) (auto simp: out_edges_def comp_def)

lemma out_edges_source: "e \<in> set (out_edges s n main) \<Longrightarrow> fst e = s"
  by (auto simp: out_edges_def)

lemma edges_other_source:
  "nid \<notin> fst ` set conns \<Longrightarrow> filter (\<lambda>(s, i, t'). s = nid \<and> t' = t \<and> P i) (edges conns) = []"
  by (force simp: edges_def filter_empty_conv dest: out_edges_source)

lemma edges_followed:
  assumes "mwf conns"
  shows "length (filter (\<lambda>(s, i, t'). s = nid \<and> t' = t \<and> shouldFollowBranch nid i br) (edges conns)) =
         length (filter (\<lambda>c. ct_Node c = t) (followed_targets nid br conns))"
  using assms
proof (induction conns)
  case Nil
  show ?case by (simp add: edges_def followed_targets_def)
next
  case (Cons sm conns)
  obtain s main where sm: "sm = (s, main)" by (cases sm)
  have split: "edges (sm # conns) = out_edges s 0 main @ edges conns" by (simp add: edges_def sm)
  show ?case
  proof (cases "s = nid")
    case True
    then have "filter (\<lambda>(s, i, t'). s = nid \<and> t' = t \<and> shouldFollowBranch nid i br) (edges conns) = []"
      using Cons.prems by (intro edges_other_source) (auto simp: mwf_def sm)
    then show ?thesis
      unfolding split using True out_edges_followed [of nid t "\<lambda>i. shouldFollowBranch nid i br" 0 main]
      by (simp add: followed_targets_def sm)
  next
    case False
    then have "filter (\<lambda>(s, i, t'). s = nid \<and> t' = t \<and> shouldFollowBranch nid i br) (out_edges s 0 main) = []"
      by (auto simp: filter_empty_conv dest: out_edges_source)
    then show ?thesis
      unfolding split using Cons False by (simp add: followed_targets_def sm mwf_def)
  qed
qed

lemma shouldFollow_other:
  "s \<noteq> nid \<Longrightarrow> shouldFollowBranch s i (mput nid v br) = shouldFollowBranch s i br"
  by (simp add: shouldFollowBranch_def)

text \<open>Running a node closes exactly the edges it follows.\<close>

lemma open_edges_step:
  assumes "mwf conns" and "nid \<notin> set ex" and "br' = br \<or> br' = mput nid v br"
  shows "open_edges conns ex br t =
         open_edges conns (nid # ex) br' t + length (filter (\<lambda>c. ct_Node c = t) (followed_targets nid br' conns))"
proof -
  let ?P = "\<lambda>(s, i, t'). t' = t \<and> \<not> (s \<in> set ex \<and> shouldFollowBranch s i br)"
    and ?Q = "\<lambda>(s, i, t'). s = nid \<and> shouldFollowBranch s i br'"
  have "length (filter ?P xs) = length (filter (\<lambda>e. ?P e \<and> \<not> ?Q e) xs) + length (filter (\<lambda>e. ?P e \<and> ?Q e) xs)"
    for xs :: "edge list"
    by (induction xs) auto
  moreover have same: "shouldFollowBranch s i br' = shouldFollowBranch s i br" if "s \<in> set ex" for s i
    using assms(2,3) that by (metis shouldFollow_other)
  moreover have "(\<lambda>e. ?P e \<and> \<not> ?Q e) =
      (\<lambda>(s, i, t'). t' = t \<and> \<not> (s \<in> set (nid # ex) \<and> shouldFollowBranch s i br'))"
    using same by (auto simp: fun_eq_iff)
  moreover have "(\<lambda>e. ?P e \<and> ?Q e) = (\<lambda>(s, i, t'). s = nid \<and> t' = t \<and> shouldFollowBranch nid i br')"
    using assms(2) by (auto simp: fun_eq_iff)
  ultimately show ?thesis using edges_followed [OF assms(1)] by (simp add: open_edges_def)
qed

lemma release_simp [simp]:
  "release t (m, q) = (mput (ct_Node t) (deg m (ct_Node t) - 1) m,
                       if deg m (ct_Node t) - 1 = 0 then q @ [ct_Node t] else q)"
  by (simp add: release_def Let_def)

lemma fold_release:
  assumes "fold release ts (m, q) = (m', q')"
  shows "deg m' k = deg m k - int (length (filter (\<lambda>t. ct_Node t = k) ts))"
    and "k \<in> set q' \<Longrightarrow> k \<in> set q \<or> deg m' k \<le> 0"
  using assms
proof (induction ts arbitrary: m q)
  case Nil
  {
    case 1
    then show ?case by simp
  next
    case 2
    then show ?case by simp
  }
next
  case (Cons t ts)
  {
    case 1
    then show ?case using Cons.IH(1) by (auto split: if_splits)
  next
    case 2
    let ?m1 = "mput (ct_Node t) (deg m (ct_Node t) - 1) m"
      and ?q1 = "if deg m (ct_Node t) - 1 = 0 then q @ [ct_Node t] else q"
    have step: "fold release ts (?m1, ?q1) = (m', q')" using 2(2) by simp
    from Cons.IH(2) [OF 2(1) step] show ?case
    proof
      assume "k \<in> set ?q1"
      then have "k \<in> set q \<or> deg ?m1 k = 0" by (auto split: if_splits)
      then show ?case using Cons.IH(1) [OF step] by auto
    qed simp
  }
qed

section \<open>The invariant\<close>

definition ids_ok :: "(string, workflow_node) gomap \<Rightarrow> bool" where
  "ids_ok nodeMap \<longleftrightarrow> (\<forall>(k, n) \<in> set nodeMap. n_ID n = k)"

definition result_ids :: "workflow_result \<Rightarrow> string list" where
  "result_ids res = map nr_NodeID (wr_NodeResults res)"

text \<open>In a list of node ids, latest first: every edge into a node was followed from an earlier one.\<close>

fun topo :: "connections \<Rightarrow> (string, int option) gomap \<Rightarrow> string list \<Rightarrow> bool" where
  "topo conns br [] = True"
| "topo conns br (n # ns) =
     ((\<forall>(s, i, t) \<in> set (edges conns). t = n \<longrightarrow> s \<in> set ns \<and> shouldFollowBranch s i br) \<and> topo conns br ns)"

definition dag_inv :: "(string, workflow_node) gomap \<Rightarrow> connections \<Rightarrow> dag_state \<Rightarrow> bool" where
  "dag_inv nodeMap conns st \<longleftrightarrow>
     (\<forall>t. deg (d_inDegree st) t = int (open_edges conns (d_executed st) (d_branch st) t)) \<and>
     (\<forall>t \<in> set (d_queue st). deg (d_inDegree st) t = 0) \<and>
     distinct (d_executed st) \<and> set (d_executed st) \<subseteq> set (mkeys nodeMap) \<and>
     result_ids (d_result st) = rev (d_executed st) \<and> topo conns (d_branch st) (d_executed st) \<and>
     (\<forall>s. mget (d_branch st) s \<noteq> Some None)"

text \<open>What holds of the nodes that ran, at the end.\<close>

definition ran_ok ::
  "(string, workflow_node) gomap \<Rightarrow> connections \<Rightarrow> (string, int option) gomap \<Rightarrow> string list \<Rightarrow> bool"
where
  "ran_ok nodeMap conns br ids \<longleftrightarrow>
     distinct ids \<and> set ids \<subseteq> set (mkeys nodeMap) \<and> topo conns br (rev ids) \<and>
     (\<forall>s. mget br s \<noteq> Some None)"

lemma run_once_id: "run_once i p c r = Some (c', Inr (r', ch)) \<Longrightarrow> nr_NodeID r' = nr_NodeID r"
  by (auto simp: run_once_def branch_outcome_def plain_outcome_def Let_def
      split: processor.split_asm bind_splits sum.split_asm option.split_asm)

lemma attempts_id: "attempts left i p c r = Some (c', r', ch) \<Longrightarrow> nr_NodeID r' = nr_NodeID r"
proof (induction left arbitrary: i c)
  case 0
  then show ?case
    by (subst (asm) attempts.simps) (auto split: bind_splits sum.split_asm dest: run_once_id)
next
  case (Suc left)
  from Suc.prems show ?case
    by (subst (asm) attempts.simps) (auto split: bind_splits sum.split_asm dest: run_once_id Suc.IH)
qed

lemma executeNode_id: "executeNode reg node c = Some (c', r, ch) \<Longrightarrow> nr_NodeID r = n_ID node"
  by (auto simp: executeNode_def Let_def dest: attempts_id split: if_split_asm sum.split_asm)

lemma open_edges_0: "open_edges conns ex br t = 0 \<longleftrightarrow>
   (\<forall>(s, i, t') \<in> set (edges conns). t' = t \<longrightarrow> s \<in> set ex \<and> shouldFollowBranch s i br)"
  by (auto simp: open_edges_def filter_empty_conv)

lemma topo_cong:
  assumes "\<And>s i. s \<in> set ns \<Longrightarrow> shouldFollowBranch s i br' = shouldFollowBranch s i br"
  shows "topo conns br' ns \<longleftrightarrow> topo conns br ns"
  using assms
proof (induction ns)
  case Nil
  show ?case by simp
next
  case (Cons n ns)
  then have "topo conns br' ns \<longleftrightarrow> topo conns br ns" by simp
  moreover have "(t = n \<longrightarrow> s \<in> set ns \<and> shouldFollowBranch s i br') =
      (t = n \<longrightarrow> s \<in> set ns \<and> shouldFollowBranch s i br)" for s i t
    using Cons.prems by auto
  ultimately show ?case by simp
qed

lemma visit_effect:
  assumes "visit reg conns nid node st = Some (st', stop)"
  obtains nr br' where "nr_NodeID nr = n_ID node"
    and "wr_NodeResults (d_result st') = wr_NodeResults (d_result st) @ [nr]"
    and "br' = d_branch st \<or> (\<exists>b. br' = mput nid (Some b) (d_branch st))"
    and "stop \<or> (d_branch st' = br' \<and> d_executed st' = nid # d_executed st \<and>
           (d_inDegree st', d_queue st') = fold release (followed_targets nid br' conns) (d_inDegree st, d_queue st))"
proof -
  from assms obtain c nr chan where ex: "executeNode reg node (d_ctx st) = Some (c, nr, chan)"
    by (auto simp: visit_def split: bind_splits)
  have nrid: "nr_NodeID nr = n_ID node" by (rule executeNode_id [OF ex])
  show thesis
  proof (cases chan)
    case (Some ch)
    with assms ex nrid that [of "nr\<lparr>nr_Status := NStreaming, nr_Message := ''streaming in progress''\<rparr>" "d_branch st"]
    show thesis by (auto simp: visit_def stream_result_def)
  next
    case None
    let ?b = "case nr_BranchIndex nr of None \<Rightarrow> d_branch st | Some b \<Rightarrow> mput nid (Some b) (d_branch st)"
    have "?b = d_branch st \<or> (\<exists>b. ?b = mput nid (Some b) (d_branch st))" by (cases "nr_BranchIndex nr") auto
    then show thesis
      by (rule that [OF nrid, rotated])
        (use assms ex None in \<open>auto simp: visit_def node_recorded_def Let_def split: if_split_asm prod.split_asm\<close>)
  qed
qed

lemma visit_inv:
  assumes inv: "dag_inv nodeMap conns st" and wf: "mwf conns"
    and nid: "nid \<notin> set (d_executed st)" "mget nodeMap nid = Some node" "n_ID node = nid" "deg (d_inDegree st) nid = 0"
    and v: "visit reg conns nid node st = Some (st', stop)"
  shows "(stop \<longrightarrow> (\<exists>br. ran_ok nodeMap conns br (result_ids (d_result st')))) \<and>
         (\<not> stop \<longrightarrow> dag_inv nodeMap conns st')"
proof -
  from v obtain nr br' where nr: "nr_NodeID nr = n_ID node"
    and res: "wr_NodeResults (d_result st') = wr_NodeResults (d_result st) @ [nr]"
    and br: "br' = d_branch st \<or> (\<exists>b. br' = mput nid (Some b) (d_branch st))"
    and go: "stop \<or> (d_branch st' = br' \<and> d_executed st' = nid # d_executed st \<and>
           (d_inDegree st', d_queue st') = fold release (followed_targets nid br' conns) (d_inDegree st, d_queue st))"
    by (rule visit_effect)
  from br obtain v where brv: "br' = d_branch st \<or> br' = mput nid v (d_branch st)" by blast
  have some: "mget br' s \<noteq> Some None" for s
    using br inv by (auto simp: dag_inv_def split: if_split_asm)
  have ids: "result_ids (d_result st') = rev (nid # d_executed st)"
    using inv nr res nid(3) by (simp add: dag_inv_def result_ids_def)
  have key: "nid \<in> set (mkeys nodeMap)" using nid(2) by (simp add: in_mkeys_iff mhas_def)
  have open0: "open_edges conns (d_executed st) (d_branch st) nid = 0"
    using inv nid(4) by (simp add: dag_inv_def)
  have same: "shouldFollowBranch s i br' = shouldFollowBranch s i (d_branch st)" if "s \<in> set (d_executed st)" for s i
    using br that nid(1) by (metis shouldFollow_other)
  have "topo conns br' (d_executed st)"
    using inv topo_cong [of "d_executed st" br' "d_branch st", OF same] by (simp add: dag_inv_def)
  then have topo: "topo conns br' (nid # d_executed st)"
    using open0 same by (fastforce simp: open_edges_0)
  show ?thesis
  proof (intro conjI impI)
    assume stop
    show "\<exists>br. ran_ok nodeMap conns br (result_ids (d_result st'))"
      using inv ids topo key nid(1) some by (auto simp: ran_ok_def dag_inv_def intro!: exI [of _ br'])
  next
    assume "\<not> stop"
    with go have st': "d_branch st' = br'" "d_executed st' = nid # d_executed st"
      and fr: "fold release (followed_targets nid br' conns) (d_inDegree st, d_queue st) = (d_inDegree st', d_queue st')"
      by auto
    have deg: "deg (d_inDegree st') t = int (open_edges conns (nid # d_executed st) br' t)" for t
      using fold_release(1) [OF fr, of t] open_edges_step [OF wf nid(1) brv, of t] inv
      by (simp add: dag_inv_def)
    have "deg (d_inDegree st') t = 0" if "t \<in> set (d_queue st')" for t
    proof -
      have "deg (d_inDegree st) t = 0 \<or> deg (d_inDegree st') t \<le> 0"
        using fold_release(2) [OF fr that] inv by (auto simp: dag_inv_def)
      then show ?thesis using deg [of t] fold_release(1) [OF fr, of t] by auto
    qed
    then show "dag_inv nodeMap conns st'"
      using inv deg st' ids topo key nid(1) some by (auto simp: dag_inv_def)
  qed
qed

lemma dag_loop_ran_ok:
  assumes "dag_loop reg nodeMap conns st = Some st'" and "dag_inv nodeMap conns st"
    and "mwf conns" and "ids_ok nodeMap"
  shows "\<exists>br. ran_ok nodeMap conns br (result_ids (d_result st'))"
  using assms
proof (induction reg nodeMap conns st rule: dag_loop.induct)
  case (1 reg nodeMap conns st)
  note run = 1(4) and inv = 1(5) and wf = 1(6) and ids = 1(7)
  show ?case
  proof (cases "d_queue st")
    case Nil
    with run inv show ?thesis
      by (subst (asm) dag_loop.simps) (auto simp: dag_inv_def ran_ok_def intro!: exI [of _ "d_branch st'"])
  next
    case (Cons nid queue)
    let ?st0 = "st\<lparr>d_queue := queue\<rparr>"
    have inv0: "dag_inv nodeMap conns ?st0" and deg0: "deg (d_inDegree ?st0) nid = 0"
      using inv Cons by (auto simp: dag_inv_def)
    show ?thesis
    proof (cases "nid \<in> set (d_executed st) \<or> mget nodeMap nid = None")
      case True
      with run Cons have "dag_loop reg nodeMap conns ?st0 = Some st'"
        by (subst (asm) dag_loop.simps) (auto simp: Let_def split: if_split_asm)
      then show ?thesis using 1(1) [OF Cons refl] 1(2) [OF Cons refl] True inv0 wf ids
        by (cases "nid \<in> set (d_executed st)") simp_all
    next
      case False
      then obtain node where node: "mget nodeMap nid = Some node" by auto
      with ids have nid: "n_ID node = nid" by (force simp: ids_ok_def dest: map_of_SomeD)
      from run Cons False node obtain st1 stop where v: "visit reg conns nid node ?st0 = Some (st1, stop)"
        and rest: "if stop then st' = st1 else dag_loop reg nodeMap conns st1 = Some st'"
        by (subst (asm) dag_loop.simps) (auto simp: Let_def split: option.split_asm bool.split_asm)
      have step: "(stop \<longrightarrow> (\<exists>br. ran_ok nodeMap conns br (result_ids (d_result st1)))) \<and>
          (\<not> stop \<longrightarrow> dag_inv nodeMap conns st1)"
        by (rule visit_inv [OF inv0 wf _ node nid deg0 v]) (use False in simp)
      show ?thesis
      proof (cases stop)
        case True
        with step rest show ?thesis by simp
      next
        case stop: False
        with step rest show ?thesis
          using 1(3) [OF Cons refl _ node v refl] False wf ids by auto
      qed
    qed
  qed
qed

lemma dag_inv_initial:
  assumes "\<forall>t \<in> set q. deg (initial_degrees nodeMap conns) t = 0"
    and "wr_NodeResults res = []"
  shows "dag_inv nodeMap conns \<lparr>d_queue = q, d_executed = [], d_inDegree = initial_degrees nodeMap conns,
           d_branch = [], d_ctx = c, d_result = res\<rparr>"
  using assms by (simp add: dag_inv_def deg_initial result_ids_def)

lemma executeDAG_ran_ok:
  assumes "executeDAG reg ord nodeMap conns c = Some (c', res)" and "mwf conns" and "ids_ok nodeMap"
  shows "\<exists>br. ran_ok nodeMap conns br (result_ids res)"
proof (cases "result_ids res = []")
  case True
  then show ?thesis by (auto simp: ran_ok_def intro!: exI [of _ "[]"])
next
  case False
  with assms(1) obtain st q res0 where "dag_loop reg nodeMap conns \<lparr>d_queue = q, d_executed = [],
      d_inDegree = initial_degrees nodeMap conns, d_branch = [], d_ctx = c, d_result = res0\<rparr> = Some st"
    and "res = d_result st" and "wr_NodeResults res0 = []"
    and "\<forall>t \<in> set q. deg (initial_degrees nodeMap conns) t = 0"
    by (fastforce simp: executeDAG_def Let_def result_ids_def new_result_def split: if_split_asm)
  then show ?thesis using dag_loop_ran_ok dag_inv_initial assms(2,3) by blast
qed

lemma topo_take:
  assumes "topo conns br (rev ids)" and "j < length ids" and "(s, i, ids ! j) \<in> set (edges conns)"
  shows "s \<in> set (take j ids) \<and> shouldFollowBranch s i br"
  using assms
proof (induction ids rule: rev_induct)
  case Nil
  then show ?case by simp
next
  case (snoc n ids)
  then show ?case by (cases "j = length ids") (fastforce simp: nth_append)+
qed

section \<open>Properties\<close>

text \<open>
  C38. In a run of the engine every node is executed at most once, only nodes of the workflow are
  executed, and a node is executed only after every node that has a connection to it.
\<close>

theorem nodes_run_once_in_dependency_order:
  assumes "executeDAG reg ord nodeMap conns c = Some (c', res)" and "mwf conns" and "ids_ok nodeMap"
  shows "distinct (result_ids res) \<and> set (result_ids res) \<subseteq> set (mkeys nodeMap) \<and>
    (\<forall>j < length (result_ids res). \<forall>(s, i, t) \<in> set (edges conns).
       t = result_ids res ! j \<longrightarrow> s \<in> set (take j (result_ids res)))"
proof -
  obtain br where "ran_ok nodeMap conns br (result_ids res)" using executeDAG_ran_ok [OF assms] by blast
  then show ?thesis using topo_take [of conns br "result_ids res"] by (auto simp: ran_ok_def)
qed

text \<open>
  A node that two different outputs of the same node lead to is never executed, whatever branch is
  taken: only one of its incoming connections can be followed, and its in-degree never reaches zero.
\<close>

theorem join_of_two_branches_never_runs:
  assumes "executeDAG reg ord nodeMap conns c = Some (c', res)" and "mwf conns" and "ids_ok nodeMap"
    and "(s, i, t) \<in> set (edges conns)" and "(s, j, t) \<in> set (edges conns)" and "i \<noteq> j"
  shows "t \<notin> set (result_ids res)"
proof
  obtain br where ran: "ran_ok nodeMap conns br (result_ids res)" using executeDAG_ran_ok [OF assms(1-3)] by blast
  assume "t \<in> set (result_ids res)"
  then obtain k where "k < length (result_ids res)" and "t = result_ids res ! k" by (metis in_set_conv_nth)
  then have "shouldFollowBranch s i br" and "shouldFollowBranch s j br"
    using ran topo_take [of conns br "result_ids res"] assms(4,5) by (auto simp: ran_ok_def)
  then show False using ran assms(6) by (auto simp: shouldFollowBranch_def ran_ok_def split: option.split_asm)
qed

definition sample_node :: "string \<Rightarrow> string \<Rightarrow> workflow_node" where
  "sample_node nid typ =
     \<lparr>n_ID = nid, n_Name = nid, n_Type = typ, n_Config = VNil, n_Disabled = False, n_ContinueOnFail = False,
      n_RetryOnFail = False, n_MaxRetries = 1, n_RetryInterval = 1\<rparr>"

definition sample_edge :: "string \<Rightarrow> connection_target" where
  "sample_edge nid = \<lparr>ct_Node = nid, ct_Type = ''main'', ct_Index = 0\<rparr>"

definition sample_ctx :: workflow_context where
  "sample_ctx = \<lparr>wf_Event = Some sample_event, wf_Inputs = [], wf_Vars = [], wf_Metadata = [], wf_Stream = False,
     wf_StreamChan = None\<rparr>"

text \<open>A registry with a processor that passes the event on, one that fails and one that branches.\<close>

definition sample_reg :: processor_register where
  "sample_reg =
     [(''pass'', \<lambda>cfg. Inr (Plain (\<lambda>i c. Some (c, Inr (SameCtx, ''ok''))))),
      (''fail'', \<lambda>cfg. Inr (Plain (\<lambda>i c. Some (c, Inl ''down'')))),
      (''if'', \<lambda>cfg. Inr (Branch (\<lambda>i c. Some (c, Inr (Some \<lparr>no_Message = [], no_Terminate = False,
          no_BranchIndex = Some 1, no_Stream = False, no_StreamChan = None\<rparr>)))))]"

definition diamond_nodes :: "(string, workflow_node) gomap" where
  "diamond_nodes = [(''a'', sample_node ''a'' ''if''), (''b'', sample_node ''b'' ''pass'')]"

definition diamond_conns :: connections where
  "diamond_conns = [(''a'', [[sample_edge ''b''], [sample_edge ''b'']])]"

lemma diamond_facts:
  "mwf diamond_conns" "ids_ok diamond_nodes"
  "edges diamond_conns = [(''a'', 0, ''b''), (''a'', 1, ''b'')]"
  by (simp_all add: mwf_def diamond_conns_def ids_ok_def diamond_nodes_def sample_node_def edges_def out_edges_def
      sample_edge_def)

definition diamond_result :: workflow_result where
  "diamond_result = (new_result sample_ctx)\<lparr>wr_NodeResults :=
     [\<lparr>nr_NodeID = ''a'', nr_NodeName = ''a'', nr_NodeType = ''if'', nr_Status = NSuccess, nr_Message = [],
       nr_Error = [], nr_BranchIndex = Some 1\<rparr>]\<rparr>"

lemma diamond_run: "executeDAG sample_reg (\<lambda>ks. ks) diamond_nodes diamond_conns sample_ctx = Some (sample_ctx, diamond_result)"
  by (simp add: executeDAG_def initial_degrees_def diamond_nodes_def diamond_conns_def sample_edge_def mkeys_def deg_def
      dag_loop.simps visit_def executeNode_def sample_node_def GetProcessorByType_def sample_reg_def attempts.simps
      run_once_def branch_outcome_def followed_targets_def shouldFollowBranch_def release_def node_recorded_def
      diamond_result_def new_result_def TrimSpace_def is_space_def Let_def)

theorem nodes_run_once_witness:
  "executeDAG sample_reg (\<lambda>ks. ks) diamond_nodes diamond_conns sample_ctx = Some (sample_ctx, diamond_result) \<and>
   distinct (result_ids diamond_result) \<and> set (result_ids diamond_result) \<subseteq> set (mkeys diamond_nodes)"
  using diamond_run nodes_run_once_in_dependency_order [OF diamond_run diamond_facts(1,2)] by blast

theorem join_never_runs_witness: "''b'' \<notin> set (result_ids diamond_result)"
  by (rule join_of_two_branches_never_runs [OF diamond_run diamond_facts(1,2), where s = "''a''" and i = 0 and j = 1])
    (simp_all add: diamond_facts)

end
