(* ===== verification/Workflow_Chain.thy ===== *)
theory Workflow_Chain
  imports Workflow_Order
begin

text \<open>
  That the engine returns, and what it does with a pipeline in the old format (a list of processors
  without connections): the graph execution of such a pipeline is the plain loop \<open>run_chain\<close> over the
  list. A consequence is that a failed node does not stop the run.
\<close>

section \<open>The engine returns\<close>

text \<open>Processors that never panic, whatever the attempt and the context.\<close>

definition proc_total :: "processor \<Rightarrow> bool" where
  "proc_total p \<longleftrightarrow> (case p of Plain f \<Rightarrow> \<forall>i c. f i c \<noteq> None | Branch f \<Rightarrow> \<forall>i c. f i c \<noteq> None)"

definition reg_total :: "processor_register \<Rightarrow> bool" where
  "reg_total reg \<longleftrightarrow> (\<forall>(typ, init) \<in> set reg. \<forall>cfg p. init cfg = Inr p \<longrightarrow> proc_total p)"

lemma run_once_total: "proc_total p \<Longrightarrow> run_once i p c r \<noteq> None"
  by (auto simp: run_once_def proc_total_def split: processor.split_asm bind_splits)

lemma attempts_total: "proc_total p \<Longrightarrow> attempts left i p c r \<noteq> None"
proof (induction left arbitrary: i c)
  case 0
  then show ?case using run_once_total [of p i c r] by (subst attempts.simps) (auto split: sum.split)
next
  case (Suc left)
  then show ?case using run_once_total [of p i c r] by (subst attempts.simps) (auto split: sum.split)
qed

lemma executeNode_total: "reg_total reg \<Longrightarrow> executeNode reg node c \<noteq> None"
proof -
  assume reg: "reg_total reg"
  have "proc_total p" if "GetProcessorByType reg (n_Type node) (n_Config node) = Inr p" for p
    using reg that by (fastforce simp: GetProcessorByType_def reg_total_def Let_def dest: map_of_SomeD split: option.split_asm)
  then show ?thesis
    using attempts_total by (auto simp: executeNode_def Let_def split: sum.split)
qed

lemma visit_total: "reg_total reg \<Longrightarrow> visit reg conns nid node st \<noteq> None"
  using executeNode_total [of reg node "d_ctx st"]
  by (auto simp: visit_def Let_def split: option.split prod.split)

lemma dag_loop_total: "reg_total reg \<Longrightarrow> dag_loop reg nodeMap conns st \<noteq> None"
proof (induction reg nodeMap conns st rule: dag_loop.induct)
  case (1 reg nodeMap conns st)
  show ?case
  proof (cases "d_queue st")
    case Nil
    then show ?thesis by (subst dag_loop.simps) simp
  next
    case (Cons nid queue)
    show ?thesis
    proof (cases "nid \<in> set (d_executed st) \<or> mget nodeMap nid = None")
      case True
      with Cons 1(1) [OF Cons refl] 1(2) [OF Cons refl] 1(4) show ?thesis
        by (subst dag_loop.simps) (cases "nid \<in> set (d_executed st)"; simp add: Let_def)
    next
      case False
      then obtain node where node: "mget nodeMap nid = Some node" by auto
      obtain st1 stop where v: "visit reg conns nid node (st\<lparr>d_queue := queue\<rparr>) = Some (st1, stop)"
        using visit_total [OF 1(4)] by (metis not_None_eq surj_pair)
      show ?thesis
        using False Cons node v 1(3) [OF Cons refl _ node v refl] 1(4)
        by (subst dag_loop.simps) (cases stop; simp add: Let_def)
    qed
  qed
qed

lemma executeDAG_total: "reg_total reg \<Longrightarrow> executeDAG reg ord nodeMap conns c \<noteq> None"
  using dag_loop_total by (auto simp: executeDAG_def Let_def)

section \<open>Pipelines in the old format\<close>

text \<open>
  The specification of a list of processors: each node runs on the context the one before it left,
  until a node terminates the run, streams, or takes another output than the first.
\<close>

fun run_chain ::
  "processor_register \<Rightarrow> workflow_node list \<Rightarrow> workflow_context \<Rightarrow> workflow_result
     \<Rightarrow> (workflow_context \<times> workflow_result) option"
where
  "run_chain reg [] c res = Some (c, res)"
| "run_chain reg (n # ns) c res =
     do {
       (c', nr, chan) \<leftarrow> executeNode reg n c;
       (case chan of
          Some ch \<Rightarrow> Some (c', stream_result n c' nr ch res)
        | None \<Rightarrow>
            let res' = node_recorded (n_ID n) n nr res
            in if nr_Status nr = NTerminated \<or> (nr_BranchIndex nr \<noteq> None \<and> nr_BranchIndex nr \<noteq> Some 0)
               then Some (c', res') else run_chain reg ns c' res')
     }"

definition to_node :: "workflow_node \<Rightarrow> connection_target" where
  "to_node n = \<lparr>ct_Node = n_ID n, ct_Type = ''main'', ct_Index = 0\<rparr>"

fun chained :: "connections \<Rightarrow> workflow_node list \<Rightarrow> bool" where
  "chained conns [] = True"
| "chained conns [n] = (mget conns (n_ID n) = None)"
| "chained conns (a # b # ns) = (mget conns (n_ID a) = Some [[to_node b]] \<and> chained conns (b # ns))"

lemma linear_connections_append:
  "distinct (map n_ID ns) \<Longrightarrow> fst ` set m \<inter> n_ID ` set ns = {} \<Longrightarrow>
   linear_connections ns m = m @ map (\<lambda>(a, b). (n_ID a, [[to_node b]])) (zip ns (tl ns))"
proof (induction ns m rule: linear_connections.induct)
  case (1 a b ns m)
  have "mput (n_ID a) v m = m @ [(n_ID a, v)]" for v
    using 1(3) by (induction m) auto
  with 1 show ?case by (auto simp: to_node_def)
qed auto

lemma chained_linear: "distinct (map n_ID ns) \<Longrightarrow> chained (linear_connections ns []) ns"
proof -
  assume d: "distinct (map n_ID ns)"
  have "chained (pre @ map (\<lambda>(a, b). (n_ID a, [[to_node b]])) (zip ns (tl ns))) ns"
    if "fst ` set pre \<inter> n_ID ` set ns = {}" "distinct (map n_ID ns)" for pre
    using that
  proof (induction ns arbitrary: pre rule: induct_list012)
    case (3 a b ns)
    have ba: "n_ID b \<noteq> n_ID a" using 3(4) by auto
    have "chained ((pre @ [(n_ID a, [[to_node b]])]) @ map (\<lambda>(a, b). (n_ID a, [[to_node b]])) (zip (b # ns) ns)) (b # ns)"
      using 3(2) [of "pre @ [(n_ID a, [[to_node b]])]"] 3(3,4) ba by simp
    moreover have "mget pre (n_ID a) = None" using 3(3) by (auto simp: map_of_eq_None_iff)
    ultimately show ?case by (simp add: map_add_def)
  qed (auto simp: map_of_eq_None_iff)
  from this [of "[]"] d show ?thesis by (simp add: linear_connections_append)
qed

text \<open>The state of the loop when the next node of the chain is the only one in the queue.\<close>

definition chain_state :: "workflow_node \<Rightarrow> workflow_node list \<Rightarrow> dag_state \<Rightarrow> bool" where
  "chain_state n ns st \<longleftrightarrow>
     d_queue st = [n_ID n] \<and> (\<forall>m \<in> set ns. deg (d_inDegree st) (n_ID m) = 1) \<and>
     (\<forall>m \<in> set (n # ns). n_ID m \<notin> set (d_executed st) \<and> mget (d_branch st) (n_ID m) = None)"

lemma followed_chain:
  assumes "chained conns (n # ns)" and "mget br (n_ID n) = None"
  shows "followed_targets (n_ID n) br conns = (case ns of [] \<Rightarrow> [] | m # _ \<Rightarrow> [to_node m])"
    and "followed_targets (n_ID n) (mput (n_ID n) (Some i) br) conns =
         (if i = 0 then (case ns of [] \<Rightarrow> [] | m # _ \<Rightarrow> [to_node m]) else [])"
  using assms by (cases ns; auto simp: followed_targets_def shouldFollowBranch_def)+

lemma dag_loop_step:
  assumes "d_queue st = nid # q" and "nid \<notin> set (d_executed st)" and "mget nodeMap nid = Some n"
  shows "dag_loop reg nodeMap conns st =
    do { (st', stop) \<leftarrow> visit reg conns nid n (st\<lparr>d_queue := q\<rparr>);
         if stop then Some st' else dag_loop reg nodeMap conns st' }"
  using assms by (subst dag_loop.simps) (auto simp: Let_def split: option.split bind_split bool.split)

lemma dag_loop_empty: "d_queue st = [] \<Longrightarrow> dag_loop reg nodeMap conns st = Some st"
  by (subst dag_loop.simps) simp

lemma fold_release_chain:
  "fold release [to_node m] (degs, q) =
     (mput (n_ID m) (deg degs (n_ID m) - 1) degs, if deg degs (n_ID m) = 1 then q @ [n_ID m] else q)"
  by (simp add: to_node_def)

lemma dag_loop_chain:
  assumes "chain_state n ns st" and "chained conns (n # ns)" and "distinct (map n_ID (n # ns))"
    and "\<forall>m \<in> set (n # ns). mget nodeMap (n_ID m) = Some m"
  shows "map_option (\<lambda>st. (d_ctx st, d_result st)) (dag_loop reg nodeMap conns st) =
         run_chain reg (n # ns) (d_ctx st) (d_result st)"
  using assms
proof (induction ns arbitrary: n st)
  case Nil
  then have q: "d_queue st = [n_ID n]" "n_ID n \<notin> set (d_executed st)" "mget nodeMap (n_ID n) = Some n"
    and br: "mget (d_branch st) (n_ID n) = None"
    by (auto simp: chain_state_def)
  note fol = followed_chain [OF Nil(2) br]
  show ?case
    unfolding dag_loop_step [OF q]
    by (cases "executeNode reg n (d_ctx st)")
      (auto simp: visit_def Let_def fol dag_loop_empty split: option.split)
next
  case (Cons m ns)
  then have q: "d_queue st = [n_ID n]" "n_ID n \<notin> set (d_executed st)" "mget nodeMap (n_ID n) = Some n"
    and br: "mget (d_branch st) (n_ID n) = None" and dm: "deg (d_inDegree st) (n_ID m) = 1"
    by (auto simp: chain_state_def)
  note fol = followed_chain [OF Cons(3) br]
  show ?case
  proof (cases "executeNode reg n (d_ctx st)")
    case None
    then show ?thesis unfolding dag_loop_step [OF q] by (simp add: visit_def)
  next
    case (Some r)
    obtain c nr chan where r: "r = (c, nr, chan)" by (cases r)
    let ?b = "nr_BranchIndex nr"
    let ?st1 = "st\<lparr>d_ctx := c, d_executed := n_ID n # d_executed st,
        d_branch := (case ?b of None \<Rightarrow> d_branch st | Some i \<Rightarrow> mput (n_ID n) (Some i) (d_branch st)),
        d_result := node_recorded (n_ID n) n nr (d_result st),
        d_inDegree := mput (n_ID m) 0 (d_inDegree st), d_queue := [n_ID m]\<rparr>"
    have "\<forall>y \<in> set ns. n_ID y \<noteq> n_ID m \<and> n_ID y \<noteq> n_ID n"
      using Cons(4) by (auto simp: image_iff)
    then have "chain_state m ns ?st1"
      using Cons(2,4) by (auto simp: chain_state_def split: option.split)
    then have cont: "map_option (\<lambda>st. (d_ctx st, d_result st)) (dag_loop reg nodeMap conns ?st1) =
        run_chain reg (m # ns) c (node_recorded (n_ID n) n nr (d_result st))"
      using Cons.IH [of m ?st1] Cons(3,4,5) by auto
    have last: "dag_loop reg nodeMap conns st' = Some st'" if "d_queue st' = []" for st'
      using that by (rule dag_loop_empty)
    show ?thesis
    proof (cases "chan = None \<and> nr_Status nr \<noteq> NTerminated \<and> (?b = None \<or> ?b = Some 0)")
      case True
      then show ?thesis
        unfolding dag_loop_step [OF q] using Some r cont dm
        by (cases ?b) (auto simp: visit_def Let_def fol fold_release_chain simp del: run_chain.simps(2) fold.simps
            simp: run_chain.simps(2) [of reg n])
    next
      case False
      then show ?thesis
        unfolding dag_loop_step [OF q] using Some r last
        by (auto simp: visit_def Let_def fol split: option.split)
    qed
  qed
qed

lemma node_defaults_ID [simp]: "n_ID (node_defaults n) = n_ID n"
  by (simp add: node_defaults_def Let_def)

lemma linear_connections_defaults: "linear_connections (map node_defaults ns) m = linear_connections ns m"
  by (induction ns m rule: linear_connections.induct) auto

lemma mget_build_nodeMap:
  "distinct (map n_ID ns) \<Longrightarrow> n \<in> set ns \<Longrightarrow> mget (build_nodeMap ns) (n_ID n) = Some (node_defaults n)"
proof -
  assume d: "distinct (map n_ID ns)" and n: "n \<in> set ns"
  have "find (\<lambda>m. n_ID m = n_ID n) (rev ns) = Some n"
    using d n by (induction ns rule: rev_induct) (auto simp: find_None_iff)
  then show ?thesis unfolding build_nodeMap_def by (subst mget_fold_mput) simp
qed

lemma set_mput: "set (mput k v m) \<subseteq> insert (k, v) (set m)"
  by (induction m) auto

lemma ids_ok_build: "ids_ok (build_nodeMap ns)"
proof -
  have "ids_ok (mput (n_ID x) (node_defaults x) m)" if "ids_ok m" for x m
    using that set_mput [of "n_ID x" "node_defaults x" m] unfolding ids_ok_def by fastforce
  then have "ids_ok (fold (\<lambda>n. mput (n_ID n) (node_defaults n)) ns m)" if "ids_ok m" for m
    using that by (induction ns arbitrary: m) simp_all
  moreover have "ids_ok []" by (simp add: ids_ok_def)
  ultimately show ?thesis by (simp only: build_nodeMap_def)
qed

lemma mwf_initial_degrees: "mwf nodeMap \<Longrightarrow> mwf (initial_degrees nodeMap conns)"
proof -
  have "mwf (fold (\<lambda>t m. mput (ct_Node t) (deg m (ct_Node t) + 1) m) ts m)" if "mwf m" for ts m
    using that by (induction ts arbitrary: m) auto
  moreover assume "mwf nodeMap"
  then have "mwf (map (\<lambda>nid. (nid, 0 :: int)) (mkeys nodeMap))" by (simp add: mwf_def mkeys_def comp_def)
  ultimately show ?thesis by (simp only: initial_degrees_def fold_conns)
qed

lemma count_id:
  "distinct (map n_ID xs) \<Longrightarrow> length (filter (\<lambda>m. n_ID m = k) xs) = (if k \<in> n_ID ` set xs then 1 else 0)"
  by (induction xs) (auto simp: filter_empty_conv image_iff)

lemma targets_linear: "distinct (map n_ID ns) \<Longrightarrow> all_targets (linear_connections ns []) = map to_node (tl ns)"
proof -
  have "concat (map (\<lambda>(s, main). concat main) (map (\<lambda>(a, b). (n_ID a, [[to_node b]])) (zip xs ys))) = map to_node ys"
    if "length ys \<le> length xs" for xs ys :: "workflow_node list"
    using that by (induction xs ys rule: list_induct2') auto
  moreover assume "distinct (map n_ID ns)"
  ultimately show ?thesis by (simp add: linear_connections_append all_targets_def comp_def case_prod_unfold)
qed

lemma deg_linear:
  assumes "distinct (map n_ID (h # t))"
  shows "deg (initial_degrees nodeMap (linear_connections (h # t) [])) k = (if k \<in> n_ID ` set t then 1 else 0)"
proof -
  have "length (filter (\<lambda>c. ct_Node c = k) (map to_node t)) = (if k \<in> n_ID ` set t then 1 else 0)"
    using count_id [of t k] assms by (simp add: filter_map comp_def to_node_def)
  then show ?thesis using targets_linear [OF assms] by (simp add: deg_initial open_edges_def edges_targets)
qed

lemma mkeys_initial_degrees:
  "set (mkeys (initial_degrees nodeMap conns)) = set (mkeys nodeMap) \<union> ct_Node ` set (all_targets conns)"
proof -
  have "set (mkeys (fold (\<lambda>t m. mput (ct_Node t) (deg m (ct_Node t) + 1) m) ts m)) =
      set (mkeys m) \<union> ct_Node ` set ts" for ts :: "connection_target list" and m :: "(string, int) gomap"
    by (induction ts arbitrary: m) (auto simp: set_mkeys)
  then show ?thesis by (simp add: initial_degrees_def fold_conns) (simp add: mkeys_def comp_def)
qed

lemma start_linear:
  assumes "distinct (map n_ID (h # t))" and "range_order ord"
  shows "filter (\<lambda>nid. deg (initial_degrees (build_nodeMap (h # t)) (linear_connections (h # t) [])) nid = 0)
           (ord (mkeys (initial_degrees (build_nodeMap (h # t)) (linear_connections (h # t) [])))) = [n_ID h]"
proof -
  let ?nm = "build_nodeMap (h # t)"
  let ?degs = "initial_degrees ?nm (linear_connections (h # t) [])"
  have "mwf ?nm" unfolding build_nodeMap_def by (rule mwf_fold_mput) simp
  then have "distinct (mkeys ?degs)" using mwf_initial_degrees by (simp add: mwf_def mkeys_def)
  then have d: "distinct (ord (mkeys ?degs))"
    using assms(2) by (metis mset_eq_imp_distinct_iff range_order_def)
  have keys: "set (mkeys ?nm) = n_ID ` set (h # t)"
  proof -
    have "set (mkeys (fold (\<lambda>n. mput (n_ID n) (node_defaults n)) ns m)) = set (mkeys m) \<union> n_ID ` set ns" for ns m
      by (induction ns arbitrary: m) (auto simp: set_mkeys)
    then show ?thesis by (simp add: build_nodeMap_def) (simp add: mkeys_def)
  qed
  have "set (ord (mkeys ?degs)) = n_ID ` set (h # t)"
    using set_range_order [OF assms(2)] mkeys_initial_degrees keys targets_linear [OF assms(1)]
    by (auto simp: to_node_def)
  then have "set (filter (\<lambda>nid. deg ?degs nid = 0) (ord (mkeys ?degs))) = {n_ID h}"
    using assms(1) by (auto simp: deg_linear [OF assms(1)])
  then show ?thesis using d by (metis distinct_filter distinct_singleton list.set(1,2) set_eq_iff_mset_eq_distinct mset_single_iff)
qed

lemma executeDAG_chain:
  assumes "distinct (map n_ID ns)" and "ns \<noteq> []" and "range_order ord"
  shows "executeDAG reg ord (build_nodeMap ns) (linear_connections ns []) c =
         run_chain reg (map node_defaults ns) c (new_result c)"
proof -
  obtain h t where ns: "ns = h # t" using assms(2) by (cases ns) auto
  let ?degs = "initial_degrees (build_nodeMap ns) (linear_connections ns [])"
  let ?st = "\<lparr>d_queue = [n_ID h], d_executed = [], d_inDegree = ?degs, d_branch = [], d_ctx = c, d_result = new_result c\<rparr>"
  have d: "distinct (map n_ID (map node_defaults ns))" using assms(1) by (simp add: comp_def)
  have "chain_state (node_defaults h) (map node_defaults t) ?st"
    using assms(1) ns by (auto simp: chain_state_def deg_linear)
  moreover have "chained (linear_connections ns []) (node_defaults h # map node_defaults t)"
    using chained_linear [OF d, unfolded linear_connections_defaults] ns by simp
  moreover have "\<forall>m \<in> set (node_defaults h # map node_defaults t). mget (build_nodeMap ns) (n_ID m) = Some m"
    using mget_build_nodeMap [OF assms(1)] ns by auto
  ultimately have "map_option (\<lambda>st. (d_ctx st, d_result st)) (dag_loop reg (build_nodeMap ns) (linear_connections ns []) ?st) =
      run_chain reg (map node_defaults ns) c (new_result c)"
    using dag_loop_chain [of "node_defaults h" "map node_defaults t" ?st] d ns by simp
  then show ?thesis
    using start_linear [of h t ord] assms(1,3) ns by (simp add: executeDAG_def Let_def)
qed

lemma legacy_ids: "ep_Nodes p = [] \<Longrightarrow> distinct (map n_ID (GetWorkflowNodes p))"
proof -
  assume p: "ep_Nodes p = []"
  have "map n_ID (GetWorkflowNodes p) = map (\<lambda>i. ''node_'' @ utoa i) [0..<length (ep_ProcessorConfigs p)]"
    using p by (auto simp: GetWorkflowNodes_def node_of_processor_def enumerate_eq_zip comp_def case_prod_unfold
        intro!: nth_equalityI)
  then show ?thesis by (simp add: distinct_map inj_on_def utoa_inject)
qed

section \<open>Properties\<close>

text \<open>
  C39. The engine returns: with processors that do not panic, every workflow, cyclic or not, with any
  connections, comes to an end with a result.
\<close>

theorem workflow_engine_returns:
  assumes "reg_total reg"
  shows "\<exists>ev res rec. Execute reg ord now uuid pipeline event trig = Some (ev, res, rec)"
proof -
  obtain c res where "executeDAG reg ord (build_nodeMap (GetWorkflowNodes pipeline)) (GetWorkflowConnections pipeline)
      (initWorkflowContext now pipeline event trig) = Some (c, res)"
    using executeDAG_total [OF assms] by (metis not_None_eq surj_pair)
  then show ?thesis by (simp add: Execute_def Let_def)
qed

lemma sample_reg_total: "reg_total sample_reg"
  by (auto simp: reg_total_def sample_reg_def proc_total_def)

definition sample_pipeline :: "string list \<Rightarrow> event_pipeline" where
  "sample_pipeline typs =
     \<lparr>ep_ID = 1, ep_Name = ''p'', ep_UseCase = [], ep_Disabled = False, ep_TeamIds = [], ep_GroupId = 1,
      ep_FilterEnable = False, ep_LabelFilters = [], ep_AttrFilters = [],
      ep_ProcessorConfigs = map (\<lambda>t. (t, VNil)) typs, ep_Nodes = [], ep_Connections = [], ep_Inputs = []\<rparr>"

text \<open>A start node and two nodes that wait for each other.\<close>

definition cyclic_pipeline :: event_pipeline where
  "cyclic_pipeline = (sample_pipeline [])
     \<lparr>ep_Nodes := [sample_node ''s'' ''pass'', sample_node ''a'' ''pass'', sample_node ''b'' ''fail''],
      ep_Connections := [(''s'', [[sample_edge ''a'']]), (''a'', [[sample_edge ''b'']]), (''b'', [[sample_edge ''a'']])]\<rparr>"

theorem workflow_engine_returns_witness:
  "\<exists>ev res rec. Execute sample_reg rev 0 ''u'' cyclic_pipeline (Some sample_event) None = Some (ev, res, rec)"
  by (rule workflow_engine_returns [OF sample_reg_total])

text \<open>
  C40. A pipeline in the old format runs as a plain loop over its processors, in their order and on one
  context, whatever order the runtime visits the in-degree table in and whatever triggered it; a trigger with
  a mode leaves an execution record of that run.
\<close>

theorem legacy_pipeline_runs_in_sequence:
  assumes "ep_Nodes p = []" and "ep_Connections p = []" and "ep_ProcessorConfigs p \<noteq> []" and "range_order ord"
  shows "Execute reg ord now uuid p event trig =
    map_option (\<lambda>(c, res0). let res = res0\<lparr>wr_Event := wf_Event c\<rparr> in
        (wf_Event c, res,
         case trig of None \<Rightarrow> None | Some t \<Rightarrow> if tg_Mode t \<noteq> [] then Some (saveExecutionRecord uuid p c res t) else None))
      (run_chain reg (map node_defaults (GetWorkflowNodes p)) (initWorkflowContext now p event trig)
        (new_result (initWorkflowContext now p event trig)))"
proof -
  have ne: "GetWorkflowNodes p \<noteq> []"
    using assms(1,3) by (simp add: GetWorkflowNodes_def enumerate_eq_zip)
  show ?thesis
    using executeDAG_chain [OF legacy_ids [OF assms(1)] ne assms(4)] ne assms(2)
    by (auto simp: Execute_def Let_def GetWorkflowConnections_def split: bind_split)
qed

theorem legacy_pipeline_witness:
  "let trig = Some \<lparr>tg_Mode = ''event'', tg_TriggerBy = ''alert_rule'', tg_RequestID = ''r'', tg_InputsOverrides = [], tg_Stream = False\<rparr>;
       p = sample_pipeline [''pass'', ''fail'']; c0 = initWorkflowContext 0 p (Some sample_event) trig
   in Execute sample_reg rev 0 ''u'' p (Some sample_event) trig =
      map_option (\<lambda>(c, res0). let res = res0\<lparr>wr_Event := wf_Event c\<rparr> in
          (wf_Event c, res, Some (saveExecutionRecord ''u'' p c res (the trig))))
        (run_chain sample_reg (map node_defaults (GetWorkflowNodes p)) c0 (new_result c0))"
  unfolding Let_def by (subst legacy_pipeline_runs_in_sequence) (simp_all add: sample_pipeline_def Let_def)

text \<open>
  A node that fails without \<open>ContinueOnFail\<close> does not stop the run: in a pipeline of two processors
  whose first one fails, the second one is executed all the same, on the same event.
\<close>

theorem failed_node_does_not_stop_the_run:
  assumes "ep_Nodes p = []" and "ep_Connections p = []" and "ep_ProcessorConfigs p = [a, b]" and "range_order ord"
    and "reg_total reg"
    and "executeNode reg (node_defaults (node_of_processor 0 a)) (initWorkflowContext now p event None) = Some (c, nr, None)"
    and "nr_Status nr = NFailed" and "nr_BranchIndex nr = None"
  shows "\<exists>ev res. Execute reg ord now uuid p event None = Some (ev, res, None) \<and>
           result_ids res = [''node_0'', ''node_1'']"
proof -
  let ?ns = "map node_defaults (GetWorkflowNodes p)"
  let ?n = "node_defaults (node_of_processor 1 b)"
  have ns: "?ns = [node_defaults (node_of_processor 0 a), ?n]"
    using assms(1,3) by (simp add: GetWorkflowNodes_def)
  have ids: "n_ID (node_of_processor 0 a) = ''node_0''" "n_ID (node_of_processor 1 b) = ''node_1''"
    by (simp_all add: node_of_processor_def utoa.simps char_of_nat_eq)
  obtain c2 nr2 ch2 where second: "executeNode reg ?n c = Some (c2, nr2, ch2)"
    using executeNode_total [OF assms(5)] by (metis not_None_eq surj_pair)
  have "executeDAG reg ord (build_nodeMap (GetWorkflowNodes p)) (GetWorkflowConnections p)
      (initWorkflowContext now p event None) =
      run_chain reg ?ns (initWorkflowContext now p event None) (new_result (initWorkflowContext now p event None))"
    using executeDAG_chain [OF legacy_ids [OF assms(1)] _ assms(4)] assms(2) ns
    by (auto simp: GetWorkflowConnections_def)
  then show ?thesis
    using assms(6-8) ns second executeNode_id [OF assms(6)] executeNode_id [OF second] ids
    by (cases ch2)
      (auto simp: Execute_def Let_def node_recorded_def stream_result_def result_ids_def new_result_def
        split: bind_split)
qed

lemma sample_fail_node:
  "executeNode sample_reg (node_defaults (node_of_processor 0 (''fail'', VNil))) c =
     Some (c, \<lparr>nr_NodeID = ''node_'' @ utoa 0, nr_NodeName = ''fail'', nr_NodeType = ''fail'', nr_Status = NFailed,
              nr_Message = [], nr_Error = ''down'', nr_BranchIndex = None\<rparr>, None)"
  by (simp add: executeNode_def node_of_processor_def node_defaults_def GetProcessorByType_def sample_reg_def
      TrimSpace_def is_space_def attempts.simps run_once_def Let_def)

theorem failed_node_witness:
  "\<exists>ev res. Execute sample_reg rev 0 ''u'' (sample_pipeline [''fail'', ''pass'']) (Some sample_event) None =
       Some (ev, res, None) \<and> result_ids res = [''node_0'', ''node_1'']"
  by (rule failed_node_does_not_stop_the_run [OF _ _ _ _ sample_reg_total sample_fail_node])
    (simp_all add: sample_pipeline_def)

end
