(* ===== verification/Relabel.thy ===== *)
theory Relabel
  imports Alert_Types "HOL-Library.Monad_Syntax"
begin

text \<open>
  Relabelling: \<^verbatim>\<open>pushgw/writer/relabel.go\<close> on the labels of a time series, and
  \<^verbatim>\<open>alert/pipeline/processor/relabel/relabel.go\<close> on the tags of an event.

  The outer option is \<open>None\<close> where the code panics (a remainder by a zero modulus), the inner one is
  \<open>None\<close> where the code returns the nil slice, which drops the series. The lemmas show that a kept
  series has distinct names in descending order, and what each action does to the value of a label.
\<close>

unbundle bit_operations_syntax

type_synonym label = "string \<times> string"

section \<open>The label builder\<close>

text \<open>\<open>getValue\<close>: the first label with the name, the empty string without one.\<close>

fun getValue :: "label list \<Rightarrow> string \<Rightarrow> string" where
  "getValue [] name = []"
| "getValue (l # ls) name = (if fst l = name then snd l else getValue ls name)"

definition newBuilder :: "label list \<Rightarrow> (string, string) gomap" where
  "newBuilder ls = fold (\<lambda>l. mput (fst l) (snd l)) ls []"

text \<open>\<^verbatim>\<open>labels\<close>: the entries by name, descending.\<close>

definition labels_of :: "(string, string) gomap \<Rightarrow> label list" where
  "labels_of lb = rev (sort_key fst lb)"

section \<open>Relabelling one series\<close>

definition compileRegex :: "env \<Rightarrow> string \<Rightarrow> regexp option" where
  "compileRegex x expr = x_compile x expr"

text \<open>
  \<open>sum64\<close> shifts the byte at index \<open>i\<close> by \<open>(16 - i - 1) * 8\<close>; a shift by 64 or more gives 0.
\<close>

fun sum64_from :: "nat \<Rightarrow> 64 word \<Rightarrow> 8 word list \<Rightarrow> 64 word" where
  "sum64_from i s [] = s"
| "sum64_from i s (b # bs) = sum64_from (Suc i) (s OR push_bit ((16 - i - 1) * 8) (ucast b)) bs"

definition sum64 :: "8 word list \<Rightarrow> 64 word" where
  "sum64 hash = sum64_from 0 0 hash"

definition handleReplace ::
  "env \<Rightarrow> (string, string) gomap \<Rightarrow> regexp \<Rightarrow> relabel_config \<Rightarrow> string \<Rightarrow> label list"
where
  "handleReplace x lb regx cfg val =
     labels_of
       (if TargetLabel cfg = [] then lb
        else if SourceLabels cfg = [] then mput (TargetLabel cfg) (Replacement cfg) lb
        else if Replacement cfg = [] \<and> length (SourceLabels cfg) > 1 then mput (TargetLabel cfg) val lb
        else case FindExpand regx (Replacement cfg) val of
               None \<Rightarrow> lb
             | Some res \<Rightarrow>
                 if \<not> x_label_valid x (TargetLabel cfg) then mdel (TargetLabel cfg) lb
                 else if res = [] then mdel (TargetLabel cfg) lb
                 else mput (TargetLabel cfg) res lb)"

definition handleDropIfEqual ::
  "(string, string) gomap \<Rightarrow> relabel_config \<Rightarrow> label list \<Rightarrow> label list option"
where
  "handleDropIfEqual lb cfg lset =
     (case SourceLabels cfg of
        first # second # rest \<Rightarrow>
          (if list_all (\<lambda>l. getValue lset l = getValue lset first) (second # rest) then None
           else Some (labels_of lb))
      | _ \<Rightarrow> Some (labels_of lb))"

definition relabel :: "env \<Rightarrow> label list \<Rightarrow> relabel_config \<Rightarrow> label list option option" where
  "relabel x lset cfg =
     (let values = map (getValue lset) (SourceLabels cfg);
          regx = (case RegexCompiled cfg of None \<Rightarrow> compileRegex x (Regex cfg) | Some re \<Rightarrow> Some re)
      in case regx of
           None \<Rightarrow> Some (Some lset)
         | Some re \<Rightarrow>
             (let val = Join values (Separator cfg); lb = newBuilder lset in
              if Action cfg = ''drop'' then
                Some (if MatchString re val then None else Some (labels_of lb))
              else if Action cfg = ''keep'' then
                Some (if \<not> MatchString re val then None else Some (labels_of lb))
              else if Action cfg = ''replace'' then Some (Some (handleReplace x lb re cfg val))
              else if Action cfg = ''lowercase'' then
                Some (Some (labels_of (mput (TargetLabel cfg) (ToLower val) lb)))
              else if Action cfg = ''uppercase'' then
                Some (Some (labels_of (mput (TargetLabel cfg) (ToUpper val) lb)))
              else if Action cfg = ''hashmod'' then
                (if Modulus cfg = 0 then None
                 else Some (Some (labels_of
                        (mput (TargetLabel cfg) (utoa (unat (sum64 (x_md5_sum x val) mod Modulus cfg))) lb))))
              else if Action cfg = ''labelmap'' then
                Some (Some (labels_of (fold (\<lambda>l m. if MatchString re (fst l)
                   then mput (ReplaceAllString re (fst l) (Replacement cfg)) (snd l) m else m) lset lb)))
              else if Action cfg = ''labeldrop'' then
                Some (Some (labels_of (fold (\<lambda>l m. if MatchString re (fst l) then mdel (fst l) m else m) lset lb)))
              else if Action cfg = ''labelkeep'' then
                Some (Some (labels_of (fold (\<lambda>l m. if \<not> MatchString re (fst l) then mdel (fst l) m else m) lset lb)))
              else if Action cfg = ''drop_if_equal'' then Some (handleDropIfEqual lb cfg lset)
              else Some (Some (labels_of lb))))"

fun Process :: "env \<Rightarrow> label list \<Rightarrow> relabel_config list \<Rightarrow> label list option option" where
  "Process x labels [] = Some (Some labels)"
| "Process x labels (cfg # cfgs) =
     do {
       r \<leftarrow> relabel x labels cfg;
       (case r of None \<Rightarrow> Some None | Some ls \<Rightarrow> Process x ls cfgs)
     }"

record time_series =
  ts_Labels :: "label list"
  ts_Samples :: "(int \<times> goval) list" \<comment> \<open>timestamp and value\<close>

fun Relabel_items :: "env \<Rightarrow> relabel_config list \<Rightarrow> time_series list \<Rightarrow> time_series list option" where
  "Relabel_items x rc [] = Some []"
| "Relabel_items x rc (item # items) =
     do {
       r \<leftarrow> Process x (ts_Labels item) rc;
       rest \<leftarrow> Relabel_items x rc items;
       Some (case r of
               None \<Rightarrow> rest
             | Some lbls \<Rightarrow> if lbls = [] then rest else item\<lparr>ts_Labels := lbls\<rparr> # rest)
     }"

section \<open>Relabelling an event\<close>

definition REPLACE_DOT :: string where
  "REPLACE_DOT = ''___''"

text \<open>A tag without \<^verbatim>\<open>=\<close> leaves the zero label and an empty original tag in its place.\<close>

definition tag_label :: "string \<Rightarrow> label" where
  "tag_label tag =
     (case SplitN2 tag ''='' of [a, b] \<Rightarrow> (ReplaceAll a ''.'' REPLACE_DOT, b) | _ \<Rightarrow> ([], []))"

definition original_tag :: "string \<Rightarrow> string" where
  "original_tag tag = (if length (SplitN2 tag ''='') \<noteq> 2 then [] else tag)"

definition with_defaults :: "relabel_config \<Rightarrow> relabel_config" where
  "with_defaults c =
     (let c1 = (if Replacement c = [] then c\<lparr>Replacement := ''$1''\<rparr> else c);
          c2 = (if Separator c1 = [] then c1\<lparr>Separator := '';''\<rparr> else c1)
      in if Regex c2 = [] then c2\<lparr>Regex := ''(.*)''\<rparr> else c2)"

definition undot :: "label \<Rightarrow> label" where
  "undot l = (ReplaceAll (fst l) REPLACE_DOT ''.'', snd l)"

definition set_event_labels :: "label list \<Rightarrow> event \<Rightarrow> event" where
  "set_event_labels gotLabels e =
     (let ls = map undot gotLabels; tags = map (\<lambda>(n, v). n @ ''='' @ v) ls
      in e\<lparr>e_TagsJSON := tags, e_TagsMap := fold (\<lambda>(n, v). mput n v) ls [], e_Tags := Join tags '',,''\<rparr>)"

definition EventRelabel :: "env \<Rightarrow> event \<Rightarrow> relabel_config list \<Rightarrow> event option" where
  "EventRelabel x e cfgs =
     (let e1 = e\<lparr>e_OriginalTagsJSON := map original_tag (e_TagsJSON e)\<rparr>
      in do {
           r \<leftarrow> Process x (map tag_label (e_TagsJSON e)) (map with_defaults cfgs);
           Some (set_event_labels (case r of None \<Rightarrow> [] | Some ls \<Rightarrow> ls) e1)
         })"

text \<open>The processor of a pipeline: the source labels are given with dots.\<close>

definition Relabel_Process :: "env \<Rightarrow> relabel_config \<Rightarrow> event \<Rightarrow> event option" where
  "Relabel_Process x r e =
     EventRelabel x e [r\<lparr>SourceLabels := map (\<lambda>s. ReplaceAll s ''.'' REPLACE_DOT) (SourceLabels r)\<rparr>]"

section \<open>Lemmas\<close>

definition desc_labels :: "label list \<Rightarrow> bool" where
  "desc_labels ls \<longleftrightarrow> sorted_wrt (\<lambda>a b. fst a > fst b) ls"

lemma mwf_newBuilder [simp]: "mwf (newBuilder ls)"
  unfolding newBuilder_def by (rule mwf_fold_mput) simp

lemma sorted_wrt_less_distinct:
  "sorted (map fst m) \<Longrightarrow> distinct (map fst m) \<Longrightarrow> sorted_wrt (\<lambda>a b. fst a < fst b) (m :: label list)"
  by (induction m) (auto simp: order.strict_iff_order image_iff)

lemma labels_of_desc: "mwf m \<Longrightarrow> desc_labels (labels_of m)"
proof -
  assume m: "mwf m"
  have "mset (map fst (sort_key fst m)) = mset (map fst m)" by simp
  then have "distinct (map fst (sort_key fst m))"
    using m mset_eq_imp_distinct_iff unfolding mwf_def by blast
  then have "sorted_wrt (\<lambda>a b. fst a < fst b) (sort_key fst m)"
    using sorted_wrt_less_distinct sorted_sort_key by blast
  then show ?thesis by (simp add: desc_labels_def labels_of_def sorted_wrt_rev)
qed

lemma desc_labels_distinct: "desc_labels ls \<Longrightarrow> distinct (map fst ls)"
  unfolding desc_labels_def by (induction ls) force+

lemma getValue_mget: "getValue ls name = (case mget ls name of None \<Rightarrow> [] | Some v \<Rightarrow> v)"
  by (induction ls) auto

lemma mget_labels_of: "mwf m \<Longrightarrow> mget (labels_of m) k = mget m k"
proof -
  assume m: "mwf m"
  have d: "distinct (map fst (labels_of m))" by (rule desc_labels_distinct [OF labels_of_desc [OF m]])
  have "set (labels_of m) = set m" by (simp add: labels_of_def)
  then show ?thesis using map_of_inject_set [OF d] m unfolding mwf_def by metis
qed

lemma find_key_mget:
  "mget ls k = (case find (\<lambda>l. fst l = k) ls of Some l \<Rightarrow> Some (snd l) | None \<Rightarrow> None)"
  by (induction ls) auto

lemma mget_newBuilder: "distinct (map fst ls) \<Longrightarrow> mget (newBuilder ls) k = mget ls k"
proof -
  assume d: "distinct (map fst ls)"
  have "mget (newBuilder ls) k = (case find (\<lambda>l. fst l = k) (rev ls) of Some l \<Rightarrow> Some (snd l) | None \<Rightarrow> None)"
    unfolding newBuilder_def by (subst mget_fold_mput) (simp split: option.splits)
  also have "\<dots> = mget (rev ls) k"
    by (rule find_key_mget [symmetric])
  also have "\<dots> = mget ls k" using d by (metis map_of_inject_set distinct_rev rev_map set_rev)
  finally show ?thesis .
qed

text \<open>A rule acts when its expression compiles; one that does not leaves the labels alone.\<close>

definition rule_regex :: "env \<Rightarrow> relabel_config \<Rightarrow> regexp option" where
  "rule_regex x cfg = (case RegexCompiled cfg of None \<Rightarrow> compileRegex x (Regex cfg) | Some re \<Rightarrow> Some re)"

lemma relabel_inactive: "rule_regex x cfg = None \<Longrightarrow> relabel x ls cfg = Some (Some ls)"
  by (auto simp: relabel_def rule_regex_def split: option.splits)

lemma mwf_fold_if_mdel: "mwf m \<Longrightarrow> mwf (fold (\<lambda>l m. if P l then mdel (f l) m else m) ls m)"
  by (induction ls arbitrary: m) auto

lemma mwf_fold_if_mput: "mwf m \<Longrightarrow> mwf (fold (\<lambda>l m. if P l then mput (f l) (g l) m else m) ls m)"
  by (induction ls arbitrary: m) auto

lemma mget_fold_if_mdel:
  "mget (fold (\<lambda>l m. if P (fst l) then mdel (fst l) m else m) ls m) k =
     (if k \<in> fst ` set ls \<and> P k then None else mget m k)"
  by (induction ls arbitrary: m) auto

lemma relabel_active_desc:
  assumes "relabel x ls cfg = Some (Some ls')" and "rule_regex x cfg = Some re"
  shows "desc_labels ls'"
  using assms
  by (auto simp: relabel_def rule_regex_def Let_def handleReplace_def handleDropIfEqual_def
      mwf_fold_if_mdel mwf_fold_if_mput intro!: labels_of_desc
      split: if_split_asm option.split_asm list.split_asm)

lemma relabel_desc:
  assumes "relabel x ls cfg = Some (Some ls')" and "desc_labels ls"
  shows "desc_labels ls'"
  using assms relabel_inactive [of x cfg ls] relabel_active_desc [of x ls cfg ls']
  by (cases "rule_regex x cfg") auto

lemma Process_desc:
  assumes "Process x ls cfgs = Some (Some ls')"
    and "desc_labels ls \<or> list_ex (\<lambda>c. rule_regex x c \<noteq> None) cfgs"
  shows "desc_labels ls'"
  using assms
proof (induction cfgs arbitrary: ls)
  case Nil
  then show ?case by simp
next
  case (Cons c cfgs)
  then obtain ls1 where r: "relabel x ls c = Some (Some ls1)" and p: "Process x ls1 cfgs = Some (Some ls')"
    by (auto split: bind_splits option.split_asm)
  have "desc_labels ls1 \<or> list_ex (\<lambda>c. rule_regex x c \<noteq> None) cfgs"
    using Cons.prems(2) r relabel_desc relabel_active_desc by fastforce
  with p show ?case by (rule Cons.IH)
qed

text \<open>The first eight bytes of a digest are shifted out.\<close>

lemma push_bit_out: "64 \<le> n \<Longrightarrow> push_bit n (w :: 64 word) = 0"
  by (simp add: bit_eq_iff bit_push_bit_iff)

lemma sum64_tail:
  assumes "length hash = 16"
  shows "sum64 hash = sum64_from 8 0 (drop 8 hash)"
proof -
  have skip: "sum64_from i s (b # bs) = sum64_from (Suc i) s bs" if "i < 8" for i s b bs
    using that push_bit_out [of "(16 - i - 1) * 8"] by simp
  have "sum64_from i s bs = sum64_from 8 s (drop (8 - i) bs)" if "i \<le> 8" "8 - i \<le> length bs" for i s bs
    using that
  proof (induction "8 - i" arbitrary: i bs)
    case 0
    then show ?case by simp
  next
    case (Suc n)
    then obtain b bs' where bs: "bs = b # bs'" by (cases bs) auto
    have "8 - i = Suc (8 - Suc i)" using Suc.hyps(2) by simp
    then have "drop (8 - i) bs = drop (8 - Suc i) bs'" by (simp only: bs drop_Suc_Cons)
    with bs Suc show ?case using skip [of i s b bs'] Suc.hyps(1) [of "Suc i" bs'] by auto
  qed
  from this [of 0 hash 0] show ?thesis using assms by (simp add: sum64_def)
qed

section \<open>Properties\<close>

text \<open>
  Whatever the rules do, a series that is kept comes out with distinct label names in descending
  order, as soon as one rule has an expression that compiles (or the input already was so).
\<close>

theorem relabelled_series_sorted_distinct:
  assumes "Process x ls cfgs = Some (Some ls')"
    and "desc_labels ls \<or> list_ex (\<lambda>c. rule_regex x c \<noteq> None) cfgs"
  shows "desc_labels ls' \<and> distinct (map fst ls')"
  using Process_desc [OF assms] desc_labels_distinct by blast

definition sample_relabel :: "string \<Rightarrow> string \<Rightarrow> relabel_config" where
  "sample_relabel act re =
     \<lparr>SourceLabels = [''a''], Separator = '';'', Regex = re, RegexCompiled = None, If = [], IfRegex = None,
      Modulus = 4, TargetLabel = ''shard'', Replacement = [], Action = act\<rparr>"

theorem relabelled_series_witness:
  "desc_labels [(''shard'', ''X''), (''a'', ''x'')] \<and> distinct (map fst [(''shard'', ''X''), (''a'', ''x'')])"
  by (rule relabelled_series_sorted_distinct [where x = sample_env and ls = "[(''a'', ''x'')]"
        and cfgs = "[sample_relabel ''uppercase'' ''x'']"])
    (simp_all add: relabel_def sample_relabel_def compileRegex_def sample_env_def newBuilder_def labels_of_def
      ToUpper_def Let_def rule_regex_def char_of_nat_eq)

text \<open>
  \<open>labeldrop\<close> and \<open>labelkeep\<close> with the same expression split the labels of a series between them:
  a label survives the first exactly when its name does not match, the second exactly when it does,
  and its value is untouched.
\<close>

theorem labeldrop_labelkeep_partition:
  assumes "distinct (map fst ls)" and "rule_regex x cfg = Some re"
  shows "\<exists>dropped kept.
     relabel x ls (cfg\<lparr>Action := ''labeldrop''\<rparr>) = Some (Some dropped) \<and>
     relabel x ls (cfg\<lparr>Action := ''labelkeep''\<rparr>) = Some (Some kept) \<and>
     (\<forall>k. mget dropped k = (if MatchString re k then None else mget ls k)) \<and>
     (\<forall>k. mget kept k = (if MatchString re k then mget ls k else None))"
proof -
  have out: "k \<notin> fst ` set ls \<longleftrightarrow> mget ls k = None" for k by (auto simp: map_of_eq_None_iff)
  show ?thesis
    using assms
    by (auto simp: relabel_def rule_regex_def Let_def mget_labels_of mwf_fold_if_mdel mget_fold_if_mdel
        mget_fold_if_mdel [where P = "\<lambda>k. \<not> MatchString re k"]
        mget_newBuilder out [symmetric] split: option.split_asm)
qed

theorem labeldrop_labelkeep_witness:
  "\<exists>dropped kept.
     relabel sample_env [(''a'', ''1''), (''b'', ''2'')] ((sample_relabel [] ''a'')\<lparr>Action := ''labeldrop''\<rparr>) =
       Some (Some dropped) \<and>
     relabel sample_env [(''a'', ''1''), (''b'', ''2'')] ((sample_relabel [] ''a'')\<lparr>Action := ''labelkeep''\<rparr>) =
       Some (Some kept) \<and>
     (\<forall>k. mget dropped k =
        (if MatchString (sample_regexp ''a'') k then None else mget [(''a'', ''1''), (''b'', ''2'')] k)) \<and>
     (\<forall>k. mget kept k =
        (if MatchString (sample_regexp ''a'') k then mget [(''a'', ''1''), (''b'', ''2'')] k else None))"
  by (rule labeldrop_labelkeep_partition)
    (simp_all add: rule_regex_def sample_relabel_def compileRegex_def sample_env_def)

text \<open>
  \<open>hashmod\<close> with a modulus other than zero writes a number below the modulus into the target label
  and leaves every other label alone; the number depends on the last eight bytes of the digest only.
  With the modulus zero it panics.
\<close>

theorem hashmod_writes_a_shard:
  assumes "distinct (map fst ls)" and "rule_regex x cfg = Some re" and "Action cfg = ''hashmod''"
    and "length (x_md5_sum x (Join (map (getValue ls) (SourceLabels cfg)) (Separator cfg))) = 16"
  shows "(Modulus cfg = 0 \<longrightarrow> relabel x ls cfg = None) \<and>
    (Modulus cfg \<noteq> 0 \<longrightarrow> (\<exists>ls' n. relabel x ls cfg = Some (Some ls') \<and> n < unat (Modulus cfg) \<and>
       n = unat (sum64_from 8 0 (drop 8 (x_md5_sum x (Join (map (getValue ls) (SourceLabels cfg)) (Separator cfg)))))
             mod unat (Modulus cfg) \<and>
       (\<forall>k. mget ls' k = (if k = TargetLabel cfg then Some (utoa n) else mget ls k))))"
proof -
  let ?h = "x_md5_sum x (Join (map (getValue ls) (SourceLabels cfg)) (Separator cfg))"
  have "unat (sum64 ?h mod Modulus cfg) < unat (Modulus cfg)" if "Modulus cfg \<noteq> 0"
    using that by (simp add: unat_mod unat_gt_0)
  then show ?thesis
    using assms sum64_tail [OF assms(4)]
    by (auto simp: relabel_def rule_regex_def Let_def mget_labels_of mget_newBuilder unat_mod
        split: option.split_asm)
qed

theorem hashmod_witness:
  "\<exists>ls' n. relabel sample_env [(''a'', ''1'')] (sample_relabel ''hashmod'' ''x'') = Some (Some ls') \<and> n < 4 \<and>
     (\<forall>k. mget ls' k = (if k = ''shard'' then Some (utoa n) else mget [(''a'', ''1'')] k))"
proof -
  let ?cfg = "sample_relabel ''hashmod'' ''x''"
  have "Modulus ?cfg \<noteq> 0" and "unat (Modulus ?cfg) = 4" and "TargetLabel ?cfg = ''shard''"
    by (simp_all add: sample_relabel_def)
  moreover have "rule_regex sample_env ?cfg = Some (sample_regexp ''x'')" and "Action ?cfg = ''hashmod''"
    and "length (x_md5_sum sample_env s) = 16" for s
    by (simp_all add: rule_regex_def sample_relabel_def compileRegex_def sample_env_def)
  moreover have "distinct (map fst [(''a'', ''1'')])" by simp
  ultimately show ?thesis using hashmod_writes_a_shard [of "[(''a'', ''1'')]" sample_env ?cfg] by metis
qed

end
