(* ===== verification/Processors.thy ===== *)
theory Processors
  imports Workflow Relabel
begin

text \<open>
  The processors of \<^verbatim>\<open>alert/pipeline/processor\<close> that decide about an event without calling another
  system: \<^verbatim>\<open>logic.if\<close>, \<^verbatim>\<open>logic.switch\<close>, \<^verbatim>\<open>event_drop\<close> and \<^verbatim>\<open>relabel\<close>. Go's template engine is the
  argument \<open>tmpl\<close>, applied to the whole text (\<open>Inl\<close> an error of parsing or execution); the JSON
  decoder of a configuration is the argument \<open>un\<close>. Tag conditions on a nil event panic.
\<close>

section \<open>Conditions\<close>

type_synonym template = "string \<Rightarrow> workflow_context \<Rightarrow> string + string"

definition template_defs :: string where
  "template_defs =
     ''{{ $event := .Event }}'' @ ''{{ $labels := .Event.TagsMap }}'' @
     ''{{ $value := .Event.TriggerValue }}'' @ ''{{ $inputs := .Inputs }}''"

text \<open>The fields of \<open>IfConfig\<close>; a \<open>SwitchCase\<close> has them too and a name.\<close>

record condition_config =
  cc_Mode :: string
  cc_Condition :: string
  cc_LabelKeys :: "tag_filter list"
  cc_Attributes :: "tag_filter list"
  cc_Name :: string
  cc_parsedLabelKeys :: "tag_filter list"
  cc_parsedAttributes :: "tag_filter list"

definition default_func :: "tag_filter \<Rightarrow> tag_filter" where
  "default_func f = (if tf_Func f = [] then f\<lparr>tf_Func := tf_Op f\<rparr> else f)"

text \<open>The two blocks of \<open>Init\<close> that parse the filters.\<close>

definition parse_condition :: "env \<Rightarrow> condition_config \<Rightarrow> filter_error + condition_config" where
  "parse_condition x c =
     (case (if cc_LabelKeys c \<noteq> [] then ParseTagFilter x (map default_func (cc_LabelKeys c)) else Inr (cc_parsedLabelKeys c)) of
        Inl err \<Rightarrow> Inl err
      | Inr ls \<Rightarrow>
          (case (if cc_Attributes c \<noteq> [] then ParseTagFilter x (map default_func (cc_Attributes c)) else Inr (cc_parsedAttributes c)) of
             Inl err \<Rightarrow> Inl err
           | Inr as \<Rightarrow> Inr (c\<lparr>cc_parsedLabelKeys := ls, cc_parsedAttributes := as\<rparr>)))"

definition evaluateExpressionCondition ::
  "template \<Rightarrow> bool \<Rightarrow> string \<Rightarrow> workflow_context \<Rightarrow> string + bool"
where
  "evaluateExpressionCondition tmpl dflt condition c =
     (if condition = [] then Inr dflt
      else case tmpl (template_defs @ condition) c of
             Inl err \<Rightarrow> Inl err
           | Inr body \<Rightarrow>
               (let result = TrimSpace (ToLower body) in Inr (result = ''true'' \<or> result = ''1'')))"

text \<open>\<open>dflt\<close> is the answer without any filter: true for an if, false for a case of a switch.\<close>

definition evaluateTagsCondition :: "env \<Rightarrow> bool \<Rightarrow> condition_config \<Rightarrow> event option \<Rightarrow> bool option" where
  "evaluateTagsCondition x dflt c ev =
     (if cc_parsedLabelKeys c = [] \<and> cc_parsedAttributes c = [] then Some dflt
      else do {
        e \<leftarrow> ev;
        b \<leftarrow> (if cc_parsedLabelKeys c \<noteq> [] then MatchTags x (e_TagsMap e) (cc_parsedLabelKeys c) else Some True);
        if \<not> b then Some False
        else if cc_parsedAttributes c \<noteq> [] then MatchTags x (JsonTagsAndValue x e) (cc_parsedAttributes c)
        else Some True
      })"

definition evaluateCondition ::
  "env \<Rightarrow> template \<Rightarrow> bool \<Rightarrow> condition_config \<Rightarrow> workflow_context \<Rightarrow> (string + bool) option"
where
  "evaluateCondition x tmpl dflt cfg c =
     (let mode = (if cc_Mode cfg = [] then ''expression'' else cc_Mode cfg)
      in if mode = ''tags'' then map_option Inr (evaluateTagsCondition x dflt cfg (wf_Event c))
         else Some (evaluateExpressionCondition tmpl dflt (cc_Condition cfg) c))"

section \<open>If\<close>

definition branch_output :: "int \<Rightarrow> string \<Rightarrow> node_output" where
  "branch_output i msg =
     \<lparr>no_Message = msg, no_Terminate = False, no_BranchIndex = Some i, no_Stream = False, no_StreamChan = None\<rparr>"

definition If_ProcessWithBranch ::
  "env \<Rightarrow> template \<Rightarrow> condition_config \<Rightarrow> nat \<Rightarrow> workflow_context
     \<Rightarrow> (workflow_context \<times> (string + node_output option)) option"
where
  "If_ProcessWithBranch x tmpl cfg i c =
     do {
       r \<leftarrow> evaluateCondition x tmpl True cfg c;
       Some (c, case r of
                  Inl err \<Rightarrow> Inl (''if processor: failed to evaluate condition: '' @ err)
                | Inr b \<Rightarrow>
                    Inr (Some (if b then branch_output 0 ''condition matched (true branch)''
                               else branch_output 1 ''condition not matched (false branch)'')))
     }"

definition If_Init ::
  "env \<Rightarrow> template \<Rightarrow> (goval \<Rightarrow> condition_config option) \<Rightarrow> goval \<Rightarrow> string + processor"
where
  "If_Init x tmpl un settings =
     (case un settings of
        None \<Rightarrow> Inl ''bad settings''
      | Some cfg \<Rightarrow>
          (case parse_condition x cfg of
             Inl err \<Rightarrow> Inl ''failed to parse label_keys or attributes''
           | Inr cfg' \<Rightarrow> Inr (Branch (If_ProcessWithBranch x tmpl cfg'))))"

section \<open>Switch\<close>

fun evaluateCases ::
  "env \<Rightarrow> template \<Rightarrow> workflow_context \<Rightarrow> nat \<Rightarrow> condition_config list \<Rightarrow> (string + int \<times> string) option"
where
  "evaluateCases x tmpl c i [] = Some (Inr (-1, []))"
| "evaluateCases x tmpl c i (k # ks) =
     do {
       r \<leftarrow> evaluateCondition x tmpl False k c;
       (case r of
          Inl err \<Rightarrow> Some (Inl (''case['' @ utoa i @ ''] evaluation error: '' @ err))
        | Inr matched \<Rightarrow> if matched then Some (Inr (int i, cc_Name k)) else evaluateCases x tmpl c (Suc i) ks)
     }"

definition Switch_ProcessWithBranch ::
  "env \<Rightarrow> template \<Rightarrow> condition_config list \<Rightarrow> nat \<Rightarrow> workflow_context
     \<Rightarrow> (workflow_context \<times> (string + node_output option)) option"
where
  "Switch_ProcessWithBranch x tmpl cases i c =
     do {
       r \<leftarrow> evaluateCases x tmpl c 0 cases;
       Some (c, case r of
                  Inl err \<Rightarrow> Inl (''switch processor: failed to evaluate cases: '' @ err)
                | Inr (index, caseName) \<Rightarrow>
                    Inr (Some (if index \<ge> 0
                               then branch_output index
                                      (if caseName \<noteq> [] then ''matched case['' @ Itoa index @ '']: '' @ caseName
                                       else ''matched case['' @ Itoa index @ '']'')
                               else branch_output (int (length cases)) ''no case matched, using default branch'')))
     }"

fun parse_conditions :: "env \<Rightarrow> condition_config list \<Rightarrow> filter_error + condition_config list" where
  "parse_conditions x [] = Inr []"
| "parse_conditions x (k # ks) =
     (case parse_condition x k of
        Inl err \<Rightarrow> Inl err
      | Inr k' \<Rightarrow> (case parse_conditions x ks of Inl err \<Rightarrow> Inl err | Inr ks' \<Rightarrow> Inr (k' # ks')))"

definition Switch_Init ::
  "env \<Rightarrow> template \<Rightarrow> (goval \<Rightarrow> condition_config list option) \<Rightarrow> goval \<Rightarrow> string + processor"
where
  "Switch_Init x tmpl un settings =
     (case un settings of
        None \<Rightarrow> Inl ''bad settings''
      | Some cases \<Rightarrow>
          (case parse_conditions x cases of
             Inl err \<Rightarrow> Inl ''failed to parse label_keys or attributes''
           | Inr cases' \<Rightarrow> Inr (Branch (Switch_ProcessWithBranch x tmpl cases'))))"

section \<open>Drop and relabel\<close>

definition EventDrop_Process ::
  "template \<Rightarrow> string \<Rightarrow> nat \<Rightarrow> workflow_context \<Rightarrow> (workflow_context \<times> (string + ctx_ptr \<times> string)) option"
where
  "EventDrop_Process tmpl content i c =
     (case tmpl (template_defs @ content) c of
        Inl err \<Rightarrow> Some (c, Inl (''processor failed to execute template: '' @ err))
      | Inr body \<Rightarrow>
          (if TrimSpace body = ''true'' then
             (case wf_Event c of
                None \<Rightarrow> None
              | Some e \<Rightarrow> Some (c\<lparr>wf_Event := None\<rparr>, Inr (SameCtx, ''drop event success'')))
           else Some (c, Inr (SameCtx, ''drop event failed''))))"

definition Relabel_Processor ::
  "env \<Rightarrow> relabel_config \<Rightarrow> nat \<Rightarrow> workflow_context \<Rightarrow> (workflow_context \<times> (string + ctx_ptr \<times> string)) option"
where
  "Relabel_Processor x r i c =
     do {
       e \<leftarrow> wf_Event c;
       e' \<leftarrow> Relabel_Process x r e;
       Some (c\<lparr>wf_Event := Some e'\<rparr>, Inr (SameCtx, []))
     }"

text \<open>The registry that the init functions of the packages fill.\<close>

definition core_register ::
  "env \<Rightarrow> template \<Rightarrow> (goval \<Rightarrow> condition_config option) \<Rightarrow> (goval \<Rightarrow> condition_config list option)
     \<Rightarrow> (goval \<Rightarrow> string option) \<Rightarrow> (goval \<Rightarrow> relabel_config option) \<Rightarrow> processor_register"
where
  "core_register x tmpl un_if un_switch un_drop un_relabel =
     RegisterProcessor ''logic.if'' (If_Init x tmpl un_if)
       (RegisterProcessor ''logic.switch'' (Switch_Init x tmpl un_switch)
         (RegisterProcessor ''event_drop''
            (\<lambda>s. case un_drop s of None \<Rightarrow> Inl ''bad settings'' | Some d \<Rightarrow> Inr (Plain (EventDrop_Process tmpl d)))
           (RegisterProcessor ''relabel''
              (\<lambda>s. case un_relabel s of None \<Rightarrow> Inl ''bad settings'' | Some r \<Rightarrow> Inr (Plain (Relabel_Processor x r)))
             [])))"

section \<open>Lemmas\<close>

text \<open>What every case of a switch says, where each can be evaluated.\<close>

definition case_holds :: "env \<Rightarrow> template \<Rightarrow> workflow_context \<Rightarrow> condition_config \<Rightarrow> bool" where
  "case_holds x tmpl c k \<longleftrightarrow> evaluateCondition x tmpl False k c = Some (Inr True)"

definition case_ok :: "env \<Rightarrow> template \<Rightarrow> workflow_context \<Rightarrow> condition_config \<Rightarrow> bool" where
  "case_ok x tmpl c k \<longleftrightarrow> (\<exists>b. evaluateCondition x tmpl False k c = Some (Inr b))"

lemma case_ok_cases:
  "case_ok x tmpl c k \<Longrightarrow> evaluateCondition x tmpl False k c = Some (Inr (case_holds x tmpl c k))"
  by (auto simp: case_ok_def case_holds_def)

lemma evaluateCases_first:
  assumes "list_all (case_ok x tmpl c) ks"
  shows "\<exists>nm. evaluateCases x tmpl c i ks =
    Some (Inr (if list_ex (case_holds x tmpl c) ks
               then int (i + length (takeWhile (\<lambda>k. \<not> case_holds x tmpl c k) ks)) else -1, nm))"
  using assms
proof (induction ks arbitrary: i)
  case Nil
  show ?case by simp
next
  case (Cons k ks)
  have k: "evaluateCondition x tmpl False k c = Some (Inr (case_holds x tmpl c k))"
    using Cons.prems by (simp add: case_ok_cases)
  obtain nm where "evaluateCases x tmpl c (Suc i) ks =
    Some (Inr (if list_ex (case_holds x tmpl c) ks
               then int (Suc i + length (takeWhile (\<lambda>k. \<not> case_holds x tmpl c k) ks)) else -1, nm))"
    using Cons.IH [of "Suc i"] Cons.prems by auto
  then show ?case using k by (cases "case_holds x tmpl c k") (simp_all add: algebra_simps)
qed

section \<open>Properties\<close>

text \<open>
  A switch takes the output of its first case that holds, and the output after the last case when
  none holds, as long as every case can be evaluated.
\<close>

theorem switch_takes_the_first_case:
  assumes "list_all (case_ok x tmpl c) ks"
  shows "\<exists>out. Switch_ProcessWithBranch x tmpl ks i c = Some (c, Inr (Some out)) \<and>
    no_BranchIndex out = Some (int (length (takeWhile (\<lambda>k. \<not> case_holds x tmpl c k) ks)))"
proof -
  have "length (takeWhile (\<lambda>k. \<not> case_holds x tmpl c k) ks) = length ks" if "\<not> list_ex (case_holds x tmpl c) ks"
    using that by (induction ks) auto
  then show ?thesis
    using evaluateCases_first [OF assms, of 0]
    by (auto simp: Switch_ProcessWithBranch_def branch_output_def)
qed

definition sample_case :: "string \<Rightarrow> condition_config" where
  "sample_case cond = \<lparr>cc_Mode = [], cc_Condition = cond, cc_LabelKeys = [], cc_Attributes = [], cc_Name = [],
     cc_parsedLabelKeys = [], cc_parsedAttributes = []\<rparr>"

definition sample_wf :: workflow_context where
  "sample_wf = \<lparr>wf_Event = Some sample_event, wf_Inputs = [], wf_Vars = [], wf_Metadata = [], wf_Stream = False,
     wf_StreamChan = None\<rparr>"

theorem switch_takes_the_first_case_witness:
  "\<exists>out. Switch_ProcessWithBranch sample_env (\<lambda>t c. Inr (drop (length template_defs) t))
      [sample_case ''no'', sample_case ''true''] 0 sample_wf = Some (sample_wf, Inr (Some out)) \<and>
    no_BranchIndex out = Some (int (length (takeWhile
      (\<lambda>k. \<not> case_holds sample_env (\<lambda>t c. Inr (drop (length template_defs) t)) sample_wf k)
      [sample_case ''no'', sample_case ''true''])))"
  by (rule switch_takes_the_first_case)
    (simp add: case_ok_def evaluateCondition_def evaluateExpressionCondition_def sample_case_def Let_def)

text \<open>
  The drop processor removes the event exactly when its template prints true; in every other case,
  errors included, the context is unchanged.
\<close>

theorem event_drop_only_on_true:
  assumes "wf_Event c = Some e"
  shows "\<exists>ans. EventDrop_Process tmpl content i c =
    Some (if (\<exists>body. tmpl (template_defs @ content) c = Inr body \<and> TrimSpace body = ''true'')
          then c\<lparr>wf_Event := None\<rparr> else c, ans)"
  using assms by (auto simp: EventDrop_Process_def split: sum.split)

theorem event_drop_witness:
  "\<exists>ans. EventDrop_Process (\<lambda>t c. Inr '' true '') [] 0 sample_wf =
    Some (if (\<exists>body. (\<lambda>t c. Inr '' true '' :: string + string) (template_defs @ []) sample_wf = Inr body \<and> TrimSpace body = ''true'')
          then sample_wf\<lparr>wf_Event := None\<rparr> else sample_wf, ans)"
  by (rule event_drop_only_on_true) (simp add: sample_wf_def)

end
