(* ===== verification/Mute_Rule.thy ===== *)
theory Mute_Rule
  imports Tag_Match
begin

text \<open>
  Mute rules (\<^verbatim>\<open>models/alert_mute.go\<close>): the record, its verification, and the two ways a rule
  can be in force at an instant, a range of timestamps or a weekly schedule. The lemmas relate the
  textual comparison of clock times to the order of minutes.
\<close>

record periodic_mute =
  pm_EnableStime :: string
  pm_EnableEtime :: string
  pm_EnableDaysOfWeek :: string

record alert_mute =
  m_Id :: int
  m_GroupId :: int
  m_Note :: string
  m_DatasourceIdsJson :: "int list"
  m_Tags :: string
  m_Btime :: int
  m_Etime :: int
  m_Disabled :: int
  m_Activated :: int
  m_ITags :: "tag_filter list"
  m_MuteTimeType :: int
  m_PeriodicMutesJson :: "periodic_mute list"
  m_SeveritiesJson :: "int list"
  m_MuteType :: int

definition TimeRange :: int where "TimeRange = 0"

definition Periodic :: int where "Periodic = 1"

definition MuteTypeAll :: int where "MuteTypeAll = 0"

definition MuteTypeNotifyOnly :: int where "MuteTypeNotifyOnly = 1"

datatype mute_verify_error = InvalidGroup | EndBeforeBegin | BadTags filter_error

definition IsWithinTimeRange :: "alert_mute \<Rightarrow> int \<Rightarrow> bool" where
  "IsWithinTimeRange m checkTime =
     (if checkTime < m_Btime m \<or> checkTime > m_Etime m then False else True)"

text \<open>One entry of the weekly schedule; the clock is the zone of the host.\<close>

definition periodic_hit :: "string \<Rightarrow> string \<Rightarrow> periodic_mute \<Rightarrow> bool" where
  "periodic_hit triggerTime triggerWeek p =
     (if Contains (pm_EnableDaysOfWeek p) triggerWeek then
        (if pm_EnableStime p = pm_EnableEtime p \<or>
            (pm_EnableStime p = ''00:00'' \<and> pm_EnableEtime p = ''23:59'') then True
         else if pm_EnableStime p < pm_EnableEtime p then
           triggerTime \<ge> pm_EnableStime p \<and> triggerTime < pm_EnableEtime p
         else triggerTime \<ge> pm_EnableStime p \<or> triggerTime < pm_EnableEtime p)
      else False)"

fun periodic_any :: "string \<Rightarrow> string \<Rightarrow> periodic_mute list \<Rightarrow> bool" where
  "periodic_any triggerTime triggerWeek [] = False"
| "periodic_any triggerTime triggerWeek (p # ps) =
     (if periodic_hit triggerTime triggerWeek p then True
      else periodic_any triggerTime triggerWeek ps)"

definition IsWithinPeriodicMute :: "env \<Rightarrow> alert_mute \<Rightarrow> int \<Rightarrow> bool" where
  "IsWithinPeriodicMute x m checkTime =
     periodic_any (Format_15_04 (x_Local x) checkTime) (Itoa (Weekday (x_Local x) checkTime))
       (m_PeriodicMutesJson m)"

text \<open>
  \<open>Parse\<close> and \<open>Verify\<close>; \<open>un_filters\<close> decodes the JSON text of the tags.
\<close>

definition IsAllDatasource :: "int list \<Rightarrow> bool" where
  "IsAllDatasource datasourceIds \<longleftrightarrow> list_ex (\<lambda>i. i = 0) datasourceIds"

definition AlertMute_Parse ::
  "(string \<Rightarrow> tag_filter list option) \<Rightarrow> env \<Rightarrow> alert_mute \<Rightarrow> filter_error + alert_mute"
where
  "AlertMute_Parse un_filters x m =
     (case GetTagFilters un_filters x (m_Tags m) of
        Inl err \<Rightarrow> Inl err
      | Inr fs \<Rightarrow> Inr (m\<lparr>m_ITags := fs\<rparr>))"

definition AlertMute_Verify ::
  "(string \<Rightarrow> tag_filter list option) \<Rightarrow> env \<Rightarrow> alert_mute \<Rightarrow> mute_verify_error + alert_mute"
where
  "AlertMute_Verify un_filters x m =
     (if m_GroupId m < 0 then Inl InvalidGroup
      else let m1 = (if IsAllDatasource (m_DatasourceIdsJson m) then m\<lparr>m_DatasourceIdsJson := [0]\<rparr> else m) in
           if m_Etime m1 \<le> m_Btime m1 then Inl EndBeforeBegin
           else case AlertMute_Parse un_filters x m1 of
                  Inl err \<Rightarrow> Inl (BadTags err)
                | Inr m2 \<Rightarrow> Inr m2)"

text \<open>The part of \<open>DB2FE\<close> that sets the flag the rule list shows.\<close>

definition set_Activated :: "env \<Rightarrow> int \<Rightarrow> alert_mute \<Rightarrow> alert_mute" where
  "set_Activated x now m =
     (let isWithinTime =
            (if m_MuteTimeType m = TimeRange then IsWithinTimeRange m now
             else if m_MuteTimeType m = Periodic then IsWithinPeriodicMute x m now
             else False)
      in m\<lparr>m_Activated := (if isWithinTime then 1 else 0)\<rparr>)"

end
