(* ===== verification/Memsto.thy ===== *)
theory Memsto
  imports Mute_Rule
begin

text \<open>
  The in-memory caches of package \<^verbatim>\<open>memsto\<close>. Each keeps a copy of one database table: every nine
  seconds it asks for the row count and the latest change, and reloads the rows only when the pair
  differs from the one of the last load. The answers of the database are arguments of the sync
  functions (\<open>Inl\<close> a query that failed); the outcome is what the function returns and reports to
  the dumper.

  The locale \<open>polled_cache\<close> states what all of them promise and proves that a run of polls is the
  specification \<open>poll_spec\<close>; it is interpreted on each cache of the package modelled here.
\<close>

section \<open>The common structure\<close>

record 'd stat_cache =
  sc_statTotal :: int
  sc_statLastUpdated :: int
  sc_data :: 'd

datatype sync_outcome =
    StatisticsFailed
  | NotChanged
  | RecordsFailed
  | Success nat

type_synonym ('stat, 'rows) poll = "(unit + 'stat) \<times> (unit + 'rows)"

definition New_cache :: "'d \<Rightarrow> 'd stat_cache" where
  "New_cache d0 = \<lparr>sc_statTotal = -1, sc_statLastUpdated = -1, sc_data = d0\<rparr>"

definition Reset :: "'d \<Rightarrow> 'd stat_cache \<Rightarrow> 'd stat_cache" where
  "Reset d0 c = c\<lparr>sc_statTotal := -1, sc_statLastUpdated := -1, sc_data := d0\<rparr>"

definition StatChanged :: "'d stat_cache \<Rightarrow> int \<Rightarrow> int \<Rightarrow> bool" where
  "StatChanged c cnt lastUpdated =
     (if sc_statTotal c = cnt \<and> sc_statLastUpdated c = lastUpdated then False else True)"

definition Set_cache :: "'d \<Rightarrow> int \<Rightarrow> int \<Rightarrow> 'd stat_cache \<Rightarrow> 'd stat_cache" where
  "Set_cache d cnt lastUpdated c =
     (let c1 = c\<lparr>sc_data := d\<rparr>
      in c1\<lparr>sc_statTotal := cnt, sc_statLastUpdated := lastUpdated\<rparr>)"

text \<open>
  The body the sync functions share; \<open>build\<close> makes the content from the rows and \<open>num_of\<close> is the
  number reported for a successful load.
\<close>

definition sync_body ::
  "('rows \<Rightarrow> 'd) \<Rightarrow> ('rows \<Rightarrow> nat) \<Rightarrow> (int \<times> int, 'rows) poll \<Rightarrow> 'd stat_cache
     \<Rightarrow> sync_outcome \<times> 'd stat_cache"
where
  "sync_body build num_of q c =
     (case fst q of
        Inl _ \<Rightarrow> (StatisticsFailed, c)
      | Inr (cnt, lastUpdated) \<Rightarrow>
          (if \<not> StatChanged c cnt lastUpdated then (NotChanged, c)
           else case snd q of
                  Inl _ \<Rightarrow> (RecordsFailed, c)
                | Inr lst \<Rightarrow> (Success (num_of lst), Set_cache (build lst) cnt lastUpdated c)))"

section \<open>Rows by id\<close>

text \<open>\<^verbatim>\<open>m[lst[i].Id] = lst[i]\<close> over the rows: a later row with the same id replaces an earlier one.\<close>

definition by_id :: "('r \<Rightarrow> 'k) \<Rightarrow> 'r list \<Rightarrow> ('k, 'r) gomap" where
  "by_id key lst = fold (\<lambda>r. mput (key r) r) lst []"

definition syncAlertRules ::
  "(int \<times> int, alert_rule list) poll \<Rightarrow> (int, alert_rule) gomap stat_cache
     \<Rightarrow> sync_outcome \<times> (int, alert_rule) gomap stat_cache"
where
  "syncAlertRules q c = sync_body (by_id r_Id) (\<lambda>lst. length (by_id r_Id lst)) q c"

definition AlertRuleCache_Get :: "(int, alert_rule) gomap stat_cache \<Rightarrow> int \<Rightarrow> alert_rule option" where
  "AlertRuleCache_Get c ruleId = mget (sc_data c) ruleId"

text \<open>\<^verbatim>\<open>range\<close> over the map; \<open>ord\<close> is the order the runtime picks.\<close>

definition GetRuleIds :: "(int list \<Rightarrow> int list) \<Rightarrow> (int, alert_rule) gomap stat_cache \<Rightarrow> int list" where
  "GetRuleIds ord c = ord (mkeys (sc_data c))"

record busi_group =
  bg_Id :: int
  bg_Name :: string
  bg_LabelEnable :: int
  bg_LabelValue :: string

text \<open>\<^verbatim>\<open>BusiGroupGetMap\<close> already answers with a map.\<close>

definition syncBusiGroups ::
  "(int \<times> int, (int, busi_group) gomap) poll \<Rightarrow> (int, busi_group) gomap stat_cache
     \<Rightarrow> sync_outcome \<times> (int, busi_group) gomap stat_cache"
where
  "syncBusiGroups q c = sync_body (\<lambda>m. m) length q c"

definition GetByBusiGroupId :: "(int, busi_group) gomap stat_cache \<Rightarrow> int \<Rightarrow> busi_group option" where
  "GetByBusiGroupId c bid = mget (sc_data c) bid"

fun bg_names :: "(int, busi_group) gomap \<Rightarrow> int list \<Rightarrow> string list" where
  "bg_names m [] = []"
| "bg_names m (bid # ids) =
     (case mget m bid of Some ug \<Rightarrow> bg_Name ug # bg_names m ids | None \<Rightarrow> bg_names m ids)"

definition GetNamesByBusiGroupIds :: "(int, busi_group) gomap stat_cache \<Rightarrow> int list \<Rightarrow> string list" where
  "GetNamesByBusiGroupIds c ids = bg_names (sc_data c) ids"

definition GetNameByBusiGroupId :: "(int, busi_group) gomap stat_cache \<Rightarrow> int \<Rightarrow> string" where
  "GetNameByBusiGroupId c bid = (case mget (sc_data c) bid of None \<Rightarrow> [] | Some bg \<Rightarrow> bg_Name bg)"

record recording_rule =
  rr_Id :: int
  rr_Disabled :: int
  rr_Name :: string
  rr_PromQl :: string
  rr_CronPattern :: string
  rr_PromEvalInterval :: int
  rr_AppendTags :: string
  rr_DatasourceQueries :: "datasource_query list"

definition syncRecordingRules ::
  "(int \<times> int, recording_rule list) poll \<Rightarrow> (int, recording_rule) gomap stat_cache
     \<Rightarrow> sync_outcome \<times> (int, recording_rule) gomap stat_cache"
where
  "syncRecordingRules q c = sync_body (by_id rr_Id) (\<lambda>lst. length (by_id rr_Id lst)) q c"

definition TargetCache_Get :: "(string, target) gomap stat_cache \<Rightarrow> string \<Rightarrow> target option" where
  "TargetCache_Get c ident = mget (sc_data c) ident"

section \<open>The mute cache\<close>

text \<open>A rule whose tags do not parse is left out; the others are grouped by business group.\<close>

definition parse_mutes ::
  "(string \<Rightarrow> tag_filter list option) \<Rightarrow> env \<Rightarrow> alert_mute list \<Rightarrow> alert_mute list"
where
  "parse_mutes un_filters x lst =
     concat (map (\<lambda>m. case AlertMute_Parse un_filters x m of Inl _ \<Rightarrow> [] | Inr m' \<Rightarrow> [m']) lst)"

definition build_mutes ::
  "(string \<Rightarrow> tag_filter list option) \<Rightarrow> env \<Rightarrow> alert_mute list \<Rightarrow> (int, alert_mute list) gomap"
where
  "build_mutes un_filters x lst =
     fold (\<lambda>m. mappend (m_GroupId m) m) (parse_mutes un_filters x lst) []"

definition syncAlertMutes ::
  "(string \<Rightarrow> tag_filter list option) \<Rightarrow> env \<Rightarrow> (int \<times> int, alert_mute list) poll
     \<Rightarrow> (int, alert_mute list) gomap stat_cache
     \<Rightarrow> sync_outcome \<times> (int, alert_mute list) gomap stat_cache"
where
  "syncAlertMutes un_filters x q c = sync_body (build_mutes un_filters x) length q c"

definition AlertMuteCache_Gets :: "(int, alert_mute list) gomap stat_cache \<Rightarrow> int \<Rightarrow> alert_mute list option" where
  "AlertMuteCache_Gets c bgid = mget (sc_data c) bgid"

section \<open>Data sources\<close>

record datasource =
  ds_Id :: int
  ds_Name :: string
  ds_PluginType :: string
  ds_Status :: string

record ds_content =
  dc_ds :: "(int, datasource) gomap"
  dc_CateToIDs :: "(string, (int, datasource) gomap) gomap"
  dc_CateToNames :: "(string, (string, int) gomap) gomap"

definition sub_put :: "'a \<Rightarrow> 'b \<Rightarrow> 'c \<Rightarrow> ('a, ('b, 'c) gomap) gomap \<Rightarrow> ('a, ('b, 'c) gomap) gomap" where
  "sub_put a b v m = mput a (mput b v (case mget m a of None \<Rightarrow> [] | Some s \<Rightarrow> s)) m"

definition build_datasources ::
  "(int list \<Rightarrow> int list) \<Rightarrow> (int, datasource) gomap \<Rightarrow> ds_content"
where
  "build_datasources ord ds =
     (let vs = map (\<lambda>k. the (mget ds k)) (ord (mkeys ds))
      in \<lparr>dc_ds = ds,
          dc_CateToIDs = fold (\<lambda>d. sub_put (ds_PluginType d) (ds_Id d) d) vs [],
          dc_CateToNames = fold (\<lambda>d. sub_put (ds_PluginType d) (ds_Name d) (ds_Id d)) vs []\<rparr>)"

definition syncDatasources ::
  "(int list \<Rightarrow> int list) \<Rightarrow> (int \<times> int, (int, datasource) gomap) poll \<Rightarrow> ds_content stat_cache
     \<Rightarrow> sync_outcome \<times> ds_content stat_cache"
where
  "syncDatasources ord q c = sync_body (build_datasources ord) length q c"

definition DatasourceCache_GetById :: "ds_content stat_cache \<Rightarrow> int \<Rightarrow> datasource option" where
  "DatasourceCache_GetById c bid = mget (dc_ds (sc_data c)) bid"

section \<open>User groups\<close>

record user_group =
  ug_Id :: int
  ug_Name :: string
  ug_UserIds :: "int list"

text \<open>
  The members are read after the groups; a failed second query leaves the cache as it was. The rows
  of the poll are the groups and the answer for the members, pairs of group and user.
\<close>

definition add_member :: "int \<times> int \<Rightarrow> (int, user_group) gomap \<Rightarrow> (int, user_group) gomap" where
  "add_member gu m =
     (case mget m (fst gu) of
        None \<Rightarrow> m
      | Some ug \<Rightarrow> mput (fst gu) (ug\<lparr>ug_UserIds := ug_UserIds ug @ [snd gu]\<rparr>) m)"

definition syncUserGroups ::
  "(int \<times> int, user_group list \<times> (unit + (int \<times> int) list)) poll
     \<Rightarrow> (int, user_group) gomap stat_cache \<Rightarrow> sync_outcome \<times> (int, user_group) gomap stat_cache"
where
  "syncUserGroups q c =
     (case fst q of
        Inl _ \<Rightarrow> (StatisticsFailed, c)
      | Inr (cnt, lastUpdated) \<Rightarrow>
          (if \<not> StatChanged c cnt lastUpdated then (NotChanged, c)
           else case snd q of
                  Inl _ \<Rightarrow> (RecordsFailed, c)
                | Inr (lst, members) \<Rightarrow>
                    (let m = by_id ug_Id lst
                     in case members of
                          Inl _ \<Rightarrow> (RecordsFailed, c)
                        | Inr ms \<Rightarrow>
                            (Success (length m), Set_cache (fold add_member ms m) cnt lastUpdated c))))"

fun get_by_ids :: "(int, 'r) gomap \<Rightarrow> int list \<Rightarrow> int list \<Rightarrow> 'r list" where
  "get_by_ids m seen [] = []"
| "get_by_ids m seen (bid # ids) =
     (case mget m bid of
        None \<Rightarrow> get_by_ids m seen ids
      | Some r \<Rightarrow> if bid \<in> set seen then get_by_ids m seen ids else r # get_by_ids m (bid # seen) ids)"

definition GetByUserGroupIds :: "(int, user_group) gomap stat_cache \<Rightarrow> int list \<Rightarrow> user_group list" where
  "GetByUserGroupIds c ids = get_by_ids (sc_data c) [] ids"

section \<open>Users and their tokens\<close>

record user =
  u_Id :: int
  u_Username :: string
  u_Phone :: string
  u_Email :: string
  u_RolesLst :: "string list"

record user_cache =
  uc_statTotal :: int
  uc_statLastUpdated :: int
  uc_configsTotal :: int
  uc_configsLastUpdated :: int
  uc_users :: "(int, user) gomap"

definition UserCache_StatChanged :: "user_cache \<Rightarrow> int \<Rightarrow> int \<Rightarrow> int \<Rightarrow> int \<Rightarrow> bool" where
  "UserCache_StatChanged c cnt lastUpdated configsTotal configsLastUpdated =
     (if uc_statTotal c = cnt \<and> uc_statLastUpdated c = lastUpdated \<and>
         uc_configsTotal c = configsTotal \<and> uc_configsLastUpdated c = configsLastUpdated
      then False else True)"

definition syncUsers ::
  "((int \<times> int) \<times> (unit + int \<times> int), user list) poll \<Rightarrow> user_cache \<Rightarrow> sync_outcome \<times> user_cache"
where
  "syncUsers q c =
     (case fst q of
        Inl _ \<Rightarrow> (StatisticsFailed, c)
      | Inr ((cnt, lastUpdated), configs) \<Rightarrow>
          (case configs of
             Inl _ \<Rightarrow> (StatisticsFailed, c)
           | Inr (configsTotal, configsLastUpdated) \<Rightarrow>
               (if \<not> UserCache_StatChanged c cnt lastUpdated configsTotal configsLastUpdated
                then (NotChanged, c)
                else case snd q of
                       Inl _ \<Rightarrow> (RecordsFailed, c)
                     | Inr lst \<Rightarrow>
                         (let m = by_id u_Id lst in
                          (Success (length m),
                           c\<lparr>uc_users := m, uc_statTotal := cnt, uc_statLastUpdated := lastUpdated,
                             uc_configsTotal := configsTotal,
                             uc_configsLastUpdated := configsLastUpdated\<rparr>)))))"

text \<open>Users with equal names are possible in the map; the order in which it is visited decides.\<close>

definition GetByUsername :: "(int list \<Rightarrow> int list) \<Rightarrow> user_cache \<Rightarrow> string \<Rightarrow> user option" where
  "GetByUsername ord c name =
     find (\<lambda>v. u_Username v = name) (map (\<lambda>k. the (mget (uc_users c) k)) (ord (mkeys (uc_users c))))"

definition GetByUserIds :: "user_cache \<Rightarrow> int list \<Rightarrow> user list" where
  "GetByUserIds c ids = get_by_ids (uc_users c) [] ids"

record user_token =
  tk_Username :: string
  tk_Token :: string

record token_cache =
  tc_statTotal :: int
  tc_tokens :: "(string, user) gomap"
  tc_tokensLastUsed :: "(string, int) gomap"

definition build_tokens :: "user_token list \<Rightarrow> user list \<Rightarrow> (string, user) gomap" where
  "build_tokens lst users =
     fold (\<lambda>t m. case mget (by_id u_Username users) (tk_Username t) of
                   None \<Rightarrow> m
                 | Some u \<Rightarrow> mput (tk_Token t) u m) lst []"

text \<open>The statistic of the token table is its row count alone.\<close>

definition syncUserTokens ::
  "(int, user_token list \<times> (unit + user list)) poll \<Rightarrow> token_cache \<Rightarrow> sync_outcome \<times> token_cache"
where
  "syncUserTokens q c =
     (case fst q of
        Inl _ \<Rightarrow> (StatisticsFailed, c)
      | Inr cnt \<Rightarrow>
          (if tc_statTotal c = cnt then (NotChanged, c)
           else case snd q of
                  Inl _ \<Rightarrow> (RecordsFailed, c)
                | Inr (lst, us) \<Rightarrow>
                    (case us of
                       Inl _ \<Rightarrow> (RecordsFailed, c)
                     | Inr users \<Rightarrow>
                         (let m = build_tokens lst users in
                          (Success (length m), c\<lparr>tc_tokens := m, tc_statTotal := cnt\<rparr>)))))"

text \<open>\<open>Inject\<close> makes a fresh token known at once; a nil user is \<open>None\<close>.\<close>

definition Inject :: "string \<Rightarrow> user option \<Rightarrow> token_cache \<Rightarrow> token_cache" where
  "Inject token usr c =
     (case usr of
        None \<Rightarrow> c
      | Some u \<Rightarrow> if token = [] then c else c\<lparr>tc_tokens := mput token u (tc_tokens c)\<rparr>)"

definition GetByToken :: "int \<Rightarrow> string \<Rightarrow> token_cache \<Rightarrow> user option \<times> token_cache" where
  "GetByToken now token c =
     (mget (tc_tokens c) token, c\<lparr>tc_tokensLastUsed := mput token now (tc_tokensLastUsed c)\<rparr>)"

text \<open>
  One pass over the usage times: entries idle for more than half an hour are dropped, the others are
  what is written to the database.
\<close>

definition updateUserTokenLastUsedTime ::
  "int \<Rightarrow> token_cache \<Rightarrow> (string, int) gomap \<times> token_cache"
where
  "updateUserTokenLastUsedTime now c =
     (let used = tc_tokensLastUsed c
      in (filter (\<lambda>(k, t). t \<noteq> 0 \<and> \<not> now - t > 1800) used,
          c\<lparr>tc_tokensLastUsed := filter (\<lambda>(k, t). \<not> (t \<noteq> 0 \<and> now - t > 1800)) used\<rparr>))"

section \<open>Counters of dropped hosts\<close>

record item =
  Count :: int
  Ts :: int

definition Ident_Set :: "string \<Rightarrow> int \<Rightarrow> int \<Rightarrow> (string, item) gomap \<Rightarrow> (string, item) gomap" where
  "Ident_Set ident n ts m = mput ident \<lparr>Count = n, Ts = ts\<rparr> m"

definition Increment :: "int \<Rightarrow> string \<Rightarrow> int \<Rightarrow> (string, item) gomap \<Rightarrow> (string, item) gomap" where
  "Increment now ident num m =
     (case mget m ident of
        Some it \<Rightarrow> mput ident (it\<lparr>Count := Count it + num, Ts := now\<rparr>) m
      | None \<Rightarrow> mput ident \<lparr>Count = num, Ts = now\<rparr> m)"

definition Ident_Get :: "(string, item) gomap \<Rightarrow> string \<Rightarrow> int" where
  "Ident_Get m ident = (case mget m ident of None \<Rightarrow> 0 | Some it \<Rightarrow> Count it)"

definition GetsAndFlush :: "(string, item) gomap \<Rightarrow> (string, item) gomap \<times> (string, item) gomap" where
  "GetsAndFlush m = (m, [])"

definition deleteExpired :: "int \<Rightarrow> (string, item) gomap \<Rightarrow> (string, item) gomap" where
  "deleteExpired now m = filter (\<lambda>(k, it). \<not> Ts it < now - 120) m"

section \<open>The contract of a polled cache\<close>

text \<open>
  What a cache does with the answers of the database: the content becomes what the rows say exactly
  when the statistic differs from the last one loaded and both queries succeed; in every other case
  nothing changes. \<open>load\<close> is \<open>None\<close> where the rows cannot be used.
\<close>

definition poll_spec ::
  "('rows \<Rightarrow> 'd option) \<Rightarrow> ('stat, 'rows) poll \<Rightarrow> 'stat \<times> 'd \<Rightarrow> 'stat \<times> 'd"
where
  "poll_spec load q s =
     (case q of
        (Inr st, Inr rows) \<Rightarrow>
          (if st = fst s then s else case load rows of None \<Rightarrow> s | Some d \<Rightarrow> (st, d))
      | _ \<Rightarrow> s)"

lemma poll_spec_cases:
  "poll_spec load q s = s \<or>
   (\<exists>st rows d. q = (Inr st, Inr rows) \<and> load rows = Some d \<and> poll_spec load q s = (st, d))"
  by (cases q) (auto simp: poll_spec_def split: sum.splits option.splits)

text \<open>Whatever fails on the way, the content is the start content or that of rows a poll fetched.\<close>

lemma fold_poll_spec_source:
  "fold (poll_spec load) qs s = s \<or>
   (\<exists>rows. (Inr (fst (fold (poll_spec load) qs s)), Inr rows) \<in> set qs \<and>
           load rows = Some (snd (fold (poll_spec load) qs s)))"
proof (induction qs rule: rev_induct)
  case Nil
  show ?case by simp
next
  case (snoc q qs)
  show ?case
    using poll_spec_cases [of load q "fold (poll_spec load) qs s"] snoc by auto
qed

text \<open>
  Polls of a table that changes meanwhile: version \<open>n\<close> of the table has the rows \<open>rw n\<close> and the statistic \<open>st n\<close>. A poll
  reads the statistic of version \<open>i\<close> and the rows of a version \<open>j\<close> that is not older; either query may fail. A table is
  traceable if it never changes behind an unchanged statistic.
\<close>

definition poll_answer :: "(nat \<Rightarrow> 'stat) \<Rightarrow> (nat \<Rightarrow> 'rows) \<Rightarrow> nat \<times> nat \<times> bool \<times> bool \<Rightarrow> ('stat, 'rows) poll" where
  "poll_answer st rw = (\<lambda>(i, j, ok1, ok2). (if ok1 then Inr (st i) else Inl (), if ok2 then Inr (rw j) else Inl ()))"

fun in_order :: "nat \<Rightarrow> (nat \<times> nat \<times> bool \<times> bool) list \<Rightarrow> bool" where
  "in_order n [] \<longleftrightarrow> True"
| "in_order n ((i, j, ok) # ps) \<longleftrightarrow> n \<le> i \<and> i \<le> j \<and> in_order j ps"

definition traceable :: "(nat \<Rightarrow> 'stat) \<Rightarrow> (nat \<Rightarrow> 'rows) \<Rightarrow> bool" where
  "traceable st rw \<longleftrightarrow> (\<forall>i j k. i \<le> j \<longrightarrow> j \<le> k \<longrightarrow> st i = st k \<longrightarrow> rw j = rw k)"

text \<open>What a cache knows at time \<open>n\<close>: nothing yet, or the statistic of a version and the rows of that or a later one.\<close>

definition knows :: "(nat \<Rightarrow> 'stat) \<Rightarrow> (nat \<Rightarrow> 'rows) \<Rightarrow> ('rows \<Rightarrow> 'd option) \<Rightarrow> nat \<Rightarrow> 'stat \<times> 'd \<Rightarrow> bool" where
  "knows st rw load n s \<longleftrightarrow> (\<forall>i. fst s \<noteq> st i) \<or> (\<exists>i v. i \<le> v \<and> v \<le> n \<and> fst s = st i \<and> load (rw v) = Some (snd s))"

lemma knows_poll:
  assumes "knows st rw load n s" and "n \<le> i" and "i \<le> j"
  shows "knows st rw load j (poll_spec load (poll_answer st rw (i, j, ok1, ok2)) s)"
proof (cases "ok1 \<and> ok2 \<and> st i \<noteq> fst s \<and> load (rw j) \<noteq> None")
  case True
  then obtain d where "poll_spec load (poll_answer st rw (i, j, ok1, ok2)) s = (st i, d)" "load (rw j) = Some d"
    by (auto simp: poll_spec_def poll_answer_def)
  with assms(3) show ?thesis by (auto simp: knows_def)
next
  case False
  then have "poll_spec load (poll_answer st rw (i, j, ok1, ok2)) s = s"
    by (auto simp: poll_spec_def poll_answer_def)
  then show ?thesis using assms by (fastforce simp: knows_def)
qed

lemma knows_polls:
  "in_order n ps \<Longrightarrow> knows st rw load n s \<Longrightarrow>
   \<exists>m. (\<forall>p. in_order n (ps @ [p]) \<longrightarrow> m \<le> fst p) \<and> knows st rw load m (fold (poll_spec load) (map (poll_answer st rw) ps) s)"
proof (induction ps arbitrary: n s)
  case Nil
  then show ?case by (intro exI [of _ n]) auto
next
  case (Cons p ps)
  obtain i j ok1 ok2 where p: "p = (i, j, ok1, ok2)" by (cases p)
  from Cons.prems p have "in_order j ps" "n \<le> i" "i \<le> j" by simp_all
  from Cons.IH [OF this(1) knows_poll [OF Cons.prems(2) this(2,3), of ok1 ok2]] p show ?case
    by simp blast
qed

locale polled_cache =
  fixes sync :: "('stat, 'rows) poll \<Rightarrow> 'c \<Rightarrow> sync_outcome \<times> 'c"
    and view :: "'c \<Rightarrow> 'stat \<times> 'd"
    and load :: "'rows \<Rightarrow> 'd option"
  assumes refines: "view (snd (sync q c)) = poll_spec load q (view c)"
begin

lemma run_refines: "view (fold (\<lambda>q. snd \<circ> sync q) qs c) = fold (poll_spec load) qs (view c)"
  by (induction qs arbitrary: c) (simp_all add: refines)

lemma failed_keeps: "fst q = Inl () \<or> snd q = Inl () \<Longrightarrow> view (snd (sync q c)) = view c"
  by (cases q) (auto simp: refines poll_spec_def split: sum.splits)

lemma repeat_idle: "view (snd (sync q (snd (sync q c)))) = view (snd (sync q c))"
  by (cases q) (auto simp: refines poll_spec_def split: sum.splits option.splits)

lemma same_stat_stale: "fst (view c) = st \<Longrightarrow> view (snd (sync (Inr st, r) c)) = view c"
  by (cases r) (auto simp: refines poll_spec_def)

lemma run_source:
  "view (fold (\<lambda>q. snd \<circ> sync q) qs c) = view c \<or>
   (\<exists>rows. (Inr (fst (view (fold (\<lambda>q. snd \<circ> sync q) qs c))), Inr rows) \<in> set qs \<and>
           load rows = Some (snd (view (fold (\<lambda>q. snd \<circ> sync q) qs c))))"
  unfolding run_refines by (rule fold_poll_spec_source)

text \<open>A poll whose queries both succeed leaves the rows of a version between its two queries.\<close>

lemma run_fresh:
  assumes "traceable st rw" and "\<forall>n. load (rw n) \<noteq> None" and "in_order 0 (ps @ [(i, j, True, True)])" and "\<forall>n. fst (view c) \<noteq> st n"
  shows "\<exists>v. i \<le> v \<and> v \<le> j \<and>
    load (rw v) = Some (snd (view (fold (\<lambda>q. snd \<circ> sync q) (map (poll_answer st rw) (ps @ [(i, j, True, True)])) c)))"
proof -
  let ?s = "fold (poll_spec load) (map (poll_answer st rw) ps) (view c)"
  have split: "in_order n (xs @ ys) \<Longrightarrow> in_order n xs" for n xs ys
    by (induction n xs rule: in_order.induct) auto
  have last: "in_order n (xs @ [(i, j, True, True)]) \<Longrightarrow> i \<le> j" for n xs
    by (induction n xs rule: in_order.induct) auto
  have "knows st rw load 0 (view c)" using assms(4) by (simp add: knows_def)
  from knows_polls [OF split [OF assms(3)] this] assms(3) obtain m where m: "m \<le> i" and k: "knows st rw load m ?s" by fastforce
  have ij: "i \<le> j" by (rule last [OF assms(3)])
  have run: "view (fold (\<lambda>q. snd \<circ> sync q) (map (poll_answer st rw) (ps @ [(i, j, True, True)])) c) =
      poll_spec load (Inr (st i), Inr (rw j)) ?s"
    unfolding run_refines by (simp add: poll_answer_def)
  show ?thesis
  proof (cases "st i = fst ?s")
    case False
    moreover obtain d where "load (rw j) = Some d" using assms(2) by blast
    ultimately show ?thesis using ij unfolding run by (intro exI [of _ j]) (auto simp: poll_spec_def)
  next
    case True
    with k obtain i' v where v: "i' \<le> v" "v \<le> m" "fst ?s = st i'" "load (rw v) = Some (snd ?s)"
      unfolding knows_def by metis
    have "rw v = rw i" using assms(1) v(1,2,3) m True unfolding traceable_def by (metis order_trans)
    with v(4) True ij show ?thesis unfolding run by (intro exI [of _ i]) (simp add: poll_spec_def)
  qed
qed

end

definition cache_view :: "'d stat_cache \<Rightarrow> (int \<times> int) \<times> 'd" where
  "cache_view c = ((sc_statTotal c, sc_statLastUpdated c), sc_data c)"

lemma sync_body_refines:
  "cache_view (snd (sync_body build num_of q c)) = poll_spec (\<lambda>rows. Some (build rows)) q (cache_view c)"
  by (cases q)
    (auto simp: sync_body_def poll_spec_def cache_view_def StatChanged_def Set_cache_def Let_def
      split: sum.splits)

interpretation rule_cache: polled_cache syncAlertRules cache_view "\<lambda>rows. Some (by_id r_Id rows)"
  by unfold_locales (simp add: syncAlertRules_def sync_body_refines)

interpretation busi_group_cache: polled_cache syncBusiGroups cache_view Some
  by unfold_locales (simp add: syncBusiGroups_def sync_body_refines)

interpretation recording_cache: polled_cache syncRecordingRules cache_view "\<lambda>rows. Some (by_id rr_Id rows)"
  by unfold_locales (simp add: syncRecordingRules_def sync_body_refines)

interpretation mute_cache: polled_cache "syncAlertMutes un_filters x" cache_view
  "\<lambda>rows. Some (build_mutes un_filters x rows)"
  for un_filters x
  by unfold_locales (simp add: syncAlertMutes_def sync_body_refines)

interpretation datasource_cache: polled_cache "syncDatasources ord" cache_view
  "\<lambda>rows. Some (build_datasources ord rows)"
  for ord
  by unfold_locales (simp add: syncDatasources_def sync_body_refines)

definition load_user_groups ::
  "user_group list \<times> (unit + (int \<times> int) list) \<Rightarrow> (int, user_group) gomap option"
where
  "load_user_groups r =
     (case snd r of Inl _ \<Rightarrow> None | Inr ms \<Rightarrow> Some (fold add_member ms (by_id ug_Id (fst r))))"

interpretation user_group_cache: polled_cache syncUserGroups cache_view load_user_groups
  by unfold_locales
    (auto simp: syncUserGroups_def poll_spec_def cache_view_def StatChanged_def Set_cache_def Let_def
      load_user_groups_def split: sum.splits prod.splits)

definition token_view :: "token_cache \<Rightarrow> int \<times> (string, user) gomap" where
  "token_view c = (tc_statTotal c, tc_tokens c)"

definition load_tokens :: "user_token list \<times> (unit + user list) \<Rightarrow> (string, user) gomap option" where
  "load_tokens r = (case snd r of Inl _ \<Rightarrow> None | Inr users \<Rightarrow> Some (build_tokens (fst r) users))"

interpretation token_table: polled_cache syncUserTokens token_view load_tokens
  by unfold_locales
    (auto simp: syncUserTokens_def poll_spec_def token_view_def load_tokens_def Let_def
      split: sum.splits prod.splits)

section \<open>What the caches hold\<close>

lemma mget_by_id: "mget (by_id key lst) k = find (\<lambda>r. key r = k) (rev lst)"
  unfolding by_id_def by (subst mget_fold_mput) (auto split: option.splits)

lemma AlertMute_Parse_ITags:
  "AlertMute_Parse un_filters x m = Inr m' \<Longrightarrow> list_all parsed (m_ITags m')"
  by (auto simp: AlertMute_Parse_def GetTagFilters_def dest: parse_filters_parsed
      split: sum.split_asm option.split_asm if_split_asm)

lemma parse_mutes_ITags:
  "m \<in> set (parse_mutes un_filters x lst) \<Longrightarrow> list_all parsed (m_ITags m)"
  by (auto simp: parse_mutes_def dest: AlertMute_Parse_ITags [OF sym] split: sum.split_asm)

lemma mget_build_mutes:
  "mget (build_mutes un_filters x lst) bgid =
     (let ms = filter (\<lambda>m. m_GroupId m = bgid) (parse_mutes un_filters x lst)
      in if ms = [] then None else Some ms)"
  unfolding build_mutes_def mget_fold_mappend
  by (auto simp: Let_def filter_empty_conv)

lemma Ident_Get_Increment:
  "Ident_Get (Increment now ident num m) i =
     (if i = ident then Ident_Get m ident + num else Ident_Get m i)"
  by (auto simp: Ident_Get_def Increment_def split: option.splits)

section \<open>Properties\<close>

text \<open>
  C35. The rule cache is as fresh as its last complete poll, although a poll reads the rows only when the statistic
  changed and the table may change between the two queries and at any time: after any polls, failed ones included,
  and then one whose queries succeed, the cache holds the rows of a version of the table that was current
  between these two queries. The table is supposed never to change behind an unchanged statistic.
\<close>

theorem rule_cache_is_fresh_after_a_poll:
  assumes "traceable st rw" and "\<forall>n. fst (st n) \<ge> 0" and "in_order 0 (ps @ [(i, j, True, True)])"
    and "c = fold (\<lambda>q. snd \<circ> syncAlertRules q) (map (poll_answer st rw) (ps @ [(i, j, True, True)])) (New_cache [])"
  shows "\<exists>v. i \<le> v \<and> v \<le> j \<and> (\<forall>rid. AlertRuleCache_Get c rid = find (\<lambda>r. r_Id r = rid) (rev (rw v)))"
proof -
  have new: "\<forall>n. fst (cache_view (New_cache [])) \<noteq> st n"
  proof
    fix n
    have "fst (st n) \<noteq> -1" using assms(2) [THEN spec, of n] by simp
    then show "fst (cache_view (New_cache [])) \<noteq> st n" by (metis cache_view_def New_cache_def fst_conv stat_cache.select_convs(1))
  qed
  have "\<exists>v. i \<le> v \<and> v \<le> j \<and> Some (by_id r_Id (rw v)) = Some (snd (cache_view c))"
    unfolding assms(4) by (rule rule_cache.run_fresh [OF assms(1) _ assms(3) new]) simp
  then obtain v where "i \<le> v" "v \<le> j" "sc_data c = by_id r_Id (rw v)" by (auto simp: cache_view_def)
  then show ?thesis by (auto simp: AlertRuleCache_Get_def mget_by_id)
qed

text \<open>A rule that is added while the cache polls, with one poll that fails.\<close>

theorem rule_cache_fresh_witness:
  "let st = (\<lambda>n. if n < 2 then (0, 0) else (1, 7)); rw = (\<lambda>n::nat. if n < 2 then [] else [sample_rule]);
       ps = [(0, 0, True, True), (1, 2, True, True), (2, 2, True, False)]
   in AlertRuleCache_Get (fold (\<lambda>q. snd \<circ> syncAlertRules q) (map (poll_answer st rw) (ps @ [(3, 3, True, True)])) (New_cache [])) 1 =
      Some sample_rule"
proof -
  let ?st = "\<lambda>n::nat. if n < 2 then (0, 0) else (1, 7) :: int \<times> int" and ?rw = "\<lambda>n::nat. if n < 2 then [] else [sample_rule]"
  let ?ps = "[(0, 0, True, True), (1, 2, True, True), (2, 2, True, False)] :: (nat \<times> nat \<times> bool \<times> bool) list"
  have "traceable ?st ?rw" by (auto simp: traceable_def)
  moreover have "\<forall>n. 0 \<le> fst (?st n)" "in_order 0 (?ps @ [(3, 3, True, True)])" by simp_all
  ultimately obtain v where "3 \<le> v"
    and all: "\<forall>rid. AlertRuleCache_Get (fold (\<lambda>q. snd \<circ> syncAlertRules q) (map (poll_answer ?st ?rw) (?ps @ [(3, 3, True, True)])) (New_cache [])) rid =
      find (\<lambda>r. r_Id r = rid) (rev (?rw v))"
    using rule_cache_is_fresh_after_a_poll [of ?st ?rw ?ps 3 3] by blast
  then have "find (\<lambda>r. r_Id r = 1) (rev (?rw v)) = Some sample_rule" by (simp add: sample_rule_def)
  with all show ?thesis unfolding Let_def by metis
qed

text \<open>
  After any polls from the empty cache, a rule the cache answers with is the last row with that id of
  a reply of the database, and that reply carried the statistic the cache remembers.
\<close>

theorem cached_rule_comes_from_the_database:
  assumes "c = fold (\<lambda>q. snd \<circ> syncAlertRules q) qs (New_cache [])"
    and "AlertRuleCache_Get c i = Some rule"
  shows "\<exists>rows. (Inr (sc_statTotal c, sc_statLastUpdated c), Inr rows) \<in> set qs \<and>
           find (\<lambda>r. r_Id r = i) (rev rows) = Some rule"
proof -
  have "sc_data c \<noteq> []" using assms(2) by (auto simp: AlertRuleCache_Get_def)
  then obtain rows where "(Inr (sc_statTotal c, sc_statLastUpdated c), Inr rows) \<in> set qs"
    and "by_id r_Id rows = sc_data c"
    using rule_cache.run_source [of qs "New_cache []"] assms(1)
    by (auto simp: cache_view_def New_cache_def)
  then show ?thesis using assms(2) mget_by_id [of r_Id rows i] by (auto simp: AlertRuleCache_Get_def)
qed

theorem cached_rule_witness:
  "let qs = [(Inr (1, 5), Inr [sample_rule])]; c = fold (\<lambda>q. snd \<circ> syncAlertRules q) qs (New_cache [])
   in \<exists>rows. (Inr (sc_statTotal c, sc_statLastUpdated c), Inr rows) \<in> set qs \<and>
        find (\<lambda>r. r_Id r = 1) (rev rows) = Some sample_rule"
  unfolding Let_def
  by (rule cached_rule_comes_from_the_database)
    (auto simp: AlertRuleCache_Get_def syncAlertRules_def sync_body_def StatChanged_def Set_cache_def New_cache_def
      by_id_def sample_rule_def)

text \<open>
  The token cache compares row counts only: when one token is deleted and another created between
  two polls, the poll changes nothing, so the revoked token still logs its user in.
\<close>

theorem revoked_token_survives_same_count:
  assumes "mget (tc_tokens c) token = Some u" and "tc_statTotal c = cnt"
  shows "fst (GetByToken now token (snd (syncUserTokens (Inr cnt, rows) c))) = Some u"
  using assms by (simp add: GetByToken_def syncUserTokens_def)

theorem revoked_token_witness:
  "fst (GetByToken 100 ''t1''
     (snd (syncUserTokens (Inr 1, Inr ([\<lparr>tk_Username = ''bob'', tk_Token = ''t2''\<rparr>], Inr []))
        \<lparr>tc_statTotal = 1, tc_tokens = [(''t1'', \<lparr>u_Id = 1, u_Username = ''bob'', u_Phone = [], u_Email = [], u_RolesLst = []\<rparr>)],
         tc_tokensLastUsed = []\<rparr>))) =
   Some \<lparr>u_Id = 1, u_Username = ''bob'', u_Phone = [], u_Email = [], u_RolesLst = []\<rparr>"
  by (rule revoked_token_survives_same_count) simp_all

text \<open>
  The counter of a dropped machine is the sum of what was added for it, whatever is added for other
  machines in between.
\<close>

theorem ident_counter_is_the_sum:
  "Ident_Get (fold (\<lambda>(now, ident, num). Increment now ident num) ops m) i =
     Ident_Get m i + sum_list (map (\<lambda>(now, ident, num). if ident = i then num else 0) ops)"
  by (induction ops arbitrary: m) (auto simp: Ident_Get_Increment)

end
