(* ===== verification/Event_Pipeline.thy ===== *)
theory Event_Pipeline
  imports Workflow_Chain Processors Memsto
begin

text \<open>
  Running the pipelines that a rule names on one event: \<open>PipelineApplicable\<close> and \<open>HandleEventPipeline\<close>
  of \<^verbatim>\<open>alert/dispatch/dispatch.go\<close>.

  \<open>alert_ctx\<close> collects what the event path needs from outside: the environment, the registry of
  processors, the order in which maps are visited, the JSON functions on annotations and rule
  configurations, the text of a label set, and the flag of the central site.
\<close>

record alert_ctx =
  ac_env :: env
  ac_reg :: processor_register
  ac_ord :: "string list \<Rightarrow> string list"
  ac_uuid :: string
  ac_un_ann :: "string \<Rightarrow> (string, string) gomap option"
  ac_ma_ann :: "(string, string) gomap \<Rightarrow> string"
  ac_ma_cfg :: "goval \<Rightarrow> string"
  ac_nodata_cfg :: "string \<Rightarrow> string" \<comment> \<open>the rule configuration with the trigger type set to nodata\<close>
  ac_labels_string :: "(string, string) gomap \<Rightarrow> string"
  ac_EventMuteHook :: "event \<Rightarrow> bool"
  ac_IsCenter :: bool

text \<open>
  Label filters get their operation from \<open>Op\<close> where \<open>Func\<close> is empty; attribute filters do not.
\<close>

definition filters_match :: "env \<Rightarrow> (string, string) gomap \<Rightarrow> tag_filter list \<Rightarrow> (filter_error + bool) option" where
  "filters_match x tags fs =
     (if fs = [] then Some (Inr True)
      else case ParseTagFilter x fs of
             Inl err \<Rightarrow> Some (Inl err)
           | Inr fs' \<Rightarrow> map_option Inr (MatchTags x tags fs'))"

definition PipelineApplicable :: "env \<Rightarrow> event_pipeline \<Rightarrow> event \<Rightarrow> bool option" where
  "PipelineApplicable x p e =
     (if \<not> ep_FilterEnable p then Some True
      else do {
        t \<leftarrow> filters_match x (e_TagsMap e) (map default_func (ep_LabelFilters p));
        (case t of
           Inl _ \<Rightarrow> Some False
         | Inr tagMatch \<Rightarrow>
             do {
               a \<leftarrow> filters_match x (JsonTagsAndValue x e) (ep_AttrFilters p);
               (case a of Inl _ \<Rightarrow> Some False | Inr attributesMatch \<Rightarrow> Some (tagMatch \<and> attributesMatch))
             })
      })"

definition pipeline_trigger :: "int \<Rightarrow> string \<Rightarrow> trigger_context" where
  "pipeline_trigger rid frm =
     \<lparr>tg_Mode = ''event'', tg_TriggerBy = frm @ ''_'' @ Itoa rid, tg_RequestID = [], tg_InputsOverrides = [],
      tg_Stream = False\<rparr>"

text \<open>What a run leaves behind: the execution records and the notification record of a drop.\<close>

record pipeline_trace =
  pt_records :: "pipeline_execution list"
  pt_drop :: "int option" \<comment> \<open>the pipeline a drop by a notification rule is recorded for\<close>

definition add_record :: "pipeline_execution option \<Rightarrow> pipeline_trace \<Rightarrow> pipeline_trace" where
  "add_record r t = t\<lparr>pt_records := pt_records t @ (case r of None \<Rightarrow> [] | Some px \<Rightarrow> [px])\<rparr>"

fun run_pipelines ::
  "alert_ctx \<Rightarrow> int \<Rightarrow> (int, event_pipeline) gomap \<Rightarrow> int \<Rightarrow> string \<Rightarrow> pipeline_config list \<Rightarrow> event
     \<Rightarrow> pipeline_trace \<Rightarrow> (event option \<times> pipeline_trace) option"
where
  "run_pipelines ac now pipelines rid frm [] e t = Some (Some e, t)"
| "run_pipelines ac now pipelines rid frm (pc # pcs) e t =
     (if \<not> pc_Enable pc then run_pipelines ac now pipelines rid frm pcs e t
      else case mget pipelines (pc_PipelineId pc) of
             None \<Rightarrow> run_pipelines ac now pipelines rid frm pcs e t
           | Some p \<Rightarrow>
               (if ep_Disabled p then run_pipelines ac now pipelines rid frm pcs e t
                else do {
                  ok \<leftarrow> PipelineApplicable (ac_env ac) p e;
                  if \<not> ok then run_pipelines ac now pipelines rid frm pcs e t
                  else do {
                    (ev, res, rec) \<leftarrow> Execute (ac_reg ac) (ac_ord ac) now (ac_uuid ac) p (Some e)
                                        (Some (pipeline_trigger rid frm));
                    (case ev of
                       None \<Rightarrow>
                         Some (None, (add_record rec t)\<lparr>pt_drop :=
                           (if frm = ''notify_rule'' then Some (pc_PipelineId pc) else None)\<rparr>)
                     | Some e' \<Rightarrow> run_pipelines ac now pipelines rid frm pcs e' (add_record rec t))
                  }
                }))"

definition HandleEventPipeline ::
  "alert_ctx \<Rightarrow> int \<Rightarrow> (int, event_pipeline) gomap \<Rightarrow> int \<Rightarrow> string \<Rightarrow> pipeline_config list \<Rightarrow> event
     \<Rightarrow> (event option \<times> pipeline_trace) option"
where
  "HandleEventPipeline ac now pipelines rid frm pcs e =
     do {
       (ev, t) \<leftarrow> run_pipelines ac now pipelines rid frm pcs e \<lparr>pt_records = [], pt_drop = None\<rparr>;
       Some (map_option (\<lambda>e'. FillTagsMap (FE2DB (ac_ma_ann ac) (ac_ma_cfg ac) e')) ev, t)
     }"

section \<open>Lemmas\<close>

lemma HandleEventPipeline_none:
  "HandleEventPipeline ac now pipelines rid frm [] e =
     Some (Some (FillTagsMap (FE2DB (ac_ma_ann ac) (ac_ma_cfg ac) e)), \<lparr>pt_records = [], pt_drop = None\<rparr>)"
  by (simp add: HandleEventPipeline_def)

text \<open>Whatever the pipelines did, the column form of the event that comes out is derived from its slices.\<close>

lemma HandleEventPipeline_columns:
  assumes "HandleEventPipeline ac now pipelines rid frm pcs e = Some (Some e', t)"
  shows "e_Tags e' = Join (e_TagsJSON e') '',,''" and "e_TagsMap e' = tags_to_map (e_TagsJSON e') []"
    and "e_RuleConfig e' = ac_ma_cfg ac (e_RuleConfigJson e')"
  using assms by (auto simp: HandleEventPipeline_def FillTagsMap_def FE2DB_def split: bind_splits)

lemma match_one_no_func: "tf_Func f = [] \<Longrightarrow> match_one x tags f = Some False"
  by (auto simp: match_one_def matchTag_def targetGroupMatch_def split: option.split)

text \<open>A context with no processors, for the evaluation of examples.\<close>

definition sample_ac :: alert_ctx where
  "sample_ac = \<lparr>ac_env = sample_env, ac_reg = [], ac_ord = (\<lambda>ks. ks), ac_uuid = ''u'', ac_un_ann = (\<lambda>s. Some []),
     ac_ma_ann = (\<lambda>m. []), ac_ma_cfg = (\<lambda>v. []), ac_nodata_cfg = (\<lambda>s. s), ac_labels_string = (\<lambda>m. []),
     ac_EventMuteHook = (\<lambda>e. False), ac_IsCenter = True\<rparr>"

section \<open>Properties\<close>

text \<open>
  An attribute filter that carries its operation in \<open>Op\<close> only, as label filters may, makes the
  pipeline apply to no event at all: the operation is not copied to \<open>Func\<close> for attributes.
\<close>

theorem attribute_filter_with_op_never_applies:
  assumes "ep_FilterEnable p" and "ep_LabelFilters p = []" and "ep_AttrFilters p = [f]" and "tf_Func f = []"
  shows "PipelineApplicable x p e = Some False"
  using assms match_one_no_func [of f x "JsonTagsAndValue x e"]
  by (simp add: PipelineApplicable_def filters_match_def ParseTagFilter_def parse_filter_def)

theorem attribute_filter_witness:
  "PipelineApplicable sample_env
     ((sample_pipeline [])\<lparr>ep_FilterEnable := True,
        ep_AttrFilters := [(sample_filter ''cate'' [] (VStr ''prometheus''))\<lparr>tf_Op := ''==''\<rparr>]\<rparr>) sample_event = Some False"
  by (rule attribute_filter_with_op_never_applies
        [where f = "(sample_filter ''cate'' [] (VStr ''prometheus''))\<lparr>tf_Op := ''==''\<rparr>"])
    (simp_all add: sample_pipeline_def sample_filter_def)

end
