(* ===== verification/Mute.thy ===== *)
theory Mute
  imports Memsto
begin

text \<open>
  The mute strategies of \<^verbatim>\<open>alert/mute/mute.go\<close>: the five reasons an event of a rule is dropped or
  kept without a notification. \<open>None\<close> is a panic, which can come only from a filter on the group of
  the machine or from a mute rule whose filters were never parsed.

  The lemmas read the schedule of a rule as windows of minutes, give the strongest matching mute
  rule as the answer of \<open>EventMuteStrategy\<close>, and show that no panic arises on the rules that the
  mute cache holds.
\<close>

section \<open>The strategies\<close>

definition rule_location :: "env \<Rightarrow> alert_rule \<Rightarrow> location" where
  "rule_location x rule =
     (if r_TimeZone rule = [] then x_Local x
      else case x_LoadLocation x (r_TimeZone rule) of None \<Rightarrow> x_Local x | Some l \<Rightarrow> l)"

text \<open>One group of the schedule: \<open>True\<close> where the loop body returns, \<open>False\<close> where it continues.\<close>

definition span_effective :: "string \<Rightarrow> string \<Rightarrow> string \<Rightarrow> string \<Rightarrow> string \<Rightarrow> bool" where
  "span_effective triggerTime triggerWeek stime etime days =
     (if \<not> Contains (Replace1 days ''7'' ''0'') triggerWeek then False
      else if stime < etime then
        (if etime = ''23:59'' then \<not> triggerTime < stime
         else \<not> (triggerTime < stime \<or> triggerTime \<ge> etime))
      else if stime > etime then \<not> (triggerTime < stime \<and> triggerTime \<ge> etime)
      else True)"

text \<open>The loop; the lists of start and end times may be shorter than the list of days.\<close>

fun span_loop :: "string \<Rightarrow> string \<Rightarrow> string list \<Rightarrow> string list \<Rightarrow> string list \<Rightarrow> bool" where
  "span_loop tt tw (s # ss) (e # es) (d # ds) =
     (if span_effective tt tw s e d then False else span_loop tt tw ss es ds)"
| "span_loop tt tw ss es ds = True"

definition TimeSpanMuteStrategy :: "env \<Rightarrow> alert_rule \<Rightarrow> event \<Rightarrow> bool" where
  "TimeSpanMuteStrategy x rule event =
     (let loc = rule_location x rule;
          triggerTime = Format_15_04 loc (e_TriggerTime event);
          triggerWeek = Itoa (Weekday loc (e_TriggerTime event))
      in if r_EnableDaysOfWeek rule = [] then False
         else span_loop triggerTime triggerWeek (Fields (r_EnableStime rule))
                (Fields (r_EnableEtime rule)) (Split (r_EnableDaysOfWeek rule) '';''))"

definition IdentNotExistsMuteStrategy ::
  "alert_rule \<Rightarrow> event \<Rightarrow> (string, target) gomap stat_cache \<Rightarrow> bool"
where
  "IdentNotExistsMuteStrategy rule event tc =
     (case mget (e_TagsMap event) ''ident'' of
        None \<Rightarrow> False
      | Some ident \<Rightarrow> TargetCache_Get tc ident = None \<and> Contains (r_PromQl rule) ''target_up'')"

definition BgNotMatchMuteStrategy ::
  "alert_rule \<Rightarrow> event \<Rightarrow> (string, target) gomap stat_cache \<Rightarrow> bool"
where
  "BgNotMatchMuteStrategy rule event tc =
     (if r_EnableInBG rule = 0 then False
      else case mget (e_TagsMap event) ''ident'' of
             None \<Rightarrow> False
           | Some ident \<Rightarrow>
               (case TargetCache_Get tc ident of
                  None \<Rightarrow> False
                | Some t \<Rightarrow> \<not> MatchGroupId t [r_GroupId rule]))"

datatype mute_mismatch =
    MuteDisabled
  | DatasourceNotMatch
  | NotWithinTimeRange
  | NotWithinPeriodic
  | TimeTypeInvalid
  | SeverityNotMatch
  | TagsNotMatch

text \<open>\<open>clock\<close> is the optional instant that replaces the trigger time.\<close>

definition MatchMute :: "env \<Rightarrow> event \<Rightarrow> alert_mute \<Rightarrow> int option \<Rightarrow> (mute_mismatch + unit) option" where
  "MatchMute x event m clock =
     (if m_Disabled m = 1 then Some (Inl MuteDisabled)
      else if m_DatasourceIdsJson m \<noteq> [] \<and> hd (m_DatasourceIdsJson m) \<noteq> 0 \<and> e_DatasourceId event \<noteq> 0 \<and>
              \<not> List.member (m_DatasourceIdsJson m) (e_DatasourceId event)
      then Some (Inl DatasourceNotMatch)
      else let ts = (case clock of None \<Rightarrow> e_TriggerTime event | Some c \<Rightarrow> c) in
           if m_MuteTimeType m = TimeRange \<and> \<not> IsWithinTimeRange m ts then Some (Inl NotWithinTimeRange)
           else if m_MuteTimeType m \<noteq> TimeRange \<and> m_MuteTimeType m = Periodic \<and> \<not> IsWithinPeriodicMute x m ts
           then Some (Inl NotWithinPeriodic)
           else if m_MuteTimeType m \<noteq> TimeRange \<and> m_MuteTimeType m \<noteq> Periodic
           then Some (Inl TimeTypeInvalid)
           else if m_SeveritiesJson m \<noteq> [] \<and>
                   \<not> list_ex (\<lambda>s. e_Severity event = s \<or> s = 0) (m_SeveritiesJson m)
           then Some (Inl SeverityNotMatch)
           else if m_ITags m = [] then Some (Inr ())
           else do {
             b \<leftarrow> MatchTags x (e_TagsMap event) (m_ITags m);
             Some (if \<not> b then Inl TagsNotMatch else Inr ())
           })"

text \<open>The loop over the rules of a group; \<open>hit\<close> is the first rule that mutes only notifications.\<close>

fun mute_loop ::
  "env \<Rightarrow> event \<Rightarrow> int option \<Rightarrow> int option \<Rightarrow> alert_mute list \<Rightarrow> (bool \<times> int \<times> int) option"
where
  "mute_loop x event clock hit [] =
     Some (case hit of
             Some mid \<Rightarrow> (True, mid, MuteTypeNotifyOnly)
           | None \<Rightarrow> (False, 0, MuteTypeAll))"
| "mute_loop x event clock hit (m # ms) =
     do {
       r \<leftarrow> MatchMute x event m clock;
       (case r of
          Inl _ \<Rightarrow> mute_loop x event clock hit ms
        | Inr _ \<Rightarrow>
            if m_MuteType m \<noteq> MuteTypeNotifyOnly then Some (True, m_Id m, MuteTypeAll)
            else mute_loop x event clock (if hit = None then Some (m_Id m) else hit) ms)
     }"

definition EventMuteStrategy ::
  "env \<Rightarrow> event \<Rightarrow> (int, alert_mute list) gomap stat_cache \<Rightarrow> int option \<Rightarrow> (bool \<times> int \<times> int) option"
where
  "EventMuteStrategy x event mc clock =
     (case AlertMuteCache_Gets mc (e_GroupId event) of
        None \<Rightarrow> Some (False, 0, MuteTypeAll)
      | Some mutes \<Rightarrow>
          if mutes = [] then Some (False, 0, MuteTypeAll) else mute_loop x event clock None mutes)"

datatype mute_detail =
    NotMuted
  | RuleDisabled
  | RuleNotEffective
  | IdentNotExists
  | BgNotMatch
  | MatchMuteRule

definition IsMuted ::
  "env \<Rightarrow> alert_rule \<Rightarrow> event \<Rightarrow> (string, target) gomap stat_cache
     \<Rightarrow> (int, alert_mute list) gomap stat_cache \<Rightarrow> (bool \<times> mute_detail \<times> int \<times> int) option"
where
  "IsMuted x rule event tc mc =
     (if r_Disabled rule = 1 then Some (True, RuleDisabled, 0, MuteTypeAll)
      else if TimeSpanMuteStrategy x rule event then Some (True, RuleNotEffective, 0, MuteTypeAll)
      else if IdentNotExistsMuteStrategy rule event tc then Some (True, IdentNotExists, 0, MuteTypeAll)
      else if BgNotMatchMuteStrategy rule event tc then Some (True, BgNotMatch, 0, MuteTypeAll)
      else do {
        (hit, muteId, muteType) \<leftarrow> EventMuteStrategy x event mc None;
        Some (if hit then (True, MatchMuteRule, muteId, muteType) else (False, NotMuted, 0, MuteTypeAll))
      })"

section \<open>Schedules as windows of minutes\<close>

text \<open>
  A group of a schedule as an operator writes it: the digits of the days, the first minute and the
  minute after the last one. \<open>with_spans\<close> puts the groups into a rule the way the web form does.
\<close>

type_synonym span = "string \<times> nat \<times> nat"

definition with_spans :: "span list \<Rightarrow> alert_rule \<Rightarrow> alert_rule" where
  "with_spans spans rule =
     rule\<lparr>r_EnableDaysOfWeek := Join (map (\<lambda>(d, s, e). d) spans) '';'',
          r_EnableStime := Join (map (\<lambda>(d, s, e). hhmm s) spans) '' '',
          r_EnableEtime := Join (map (\<lambda>(d, s, e). hhmm e) spans) '' ''\<rparr>"

definition span_ok :: "span \<Rightarrow> bool" where
  "span_ok sp = (case sp of (d, s, e) \<Rightarrow> d \<noteq> [] \<and> CHR '';'' \<notin> set d \<and> s < 1440 \<and> e \<le> 1440)"

text \<open>
  The minutes of a window: from the first up to, not including, the end; up to the end of the day
  where the end is 23:59; across midnight where the end is before the start; all day where they
  are equal. Sunday is day 0, and 7 means the same.
\<close>

definition in_window :: "nat \<Rightarrow> nat \<Rightarrow> nat \<Rightarrow> bool" where
  "in_window s e m =
     (if s < e then s \<le> m \<and> (e = 1439 \<or> m < e)
      else if e < s then s \<le> m \<or> m < e
      else True)"

definition on_day :: "string \<Rightarrow> int \<Rightarrow> bool" where
  "on_day d w \<longleftrightarrow> char_of (48 + nat w) \<in> set d \<or> (w = 0 \<and> CHR ''7'' \<in> set d)"

lemma set_Replace1_char:
  "set (Replace1 d [a] [b]) - {a} = (set d - {a}) \<union> (if a \<in> set d then {b} - {a} else {})"
proof (cases "a \<in> set d")
  case False
  then show ?thesis by (simp add: Replace1_def Cut_char_None)
next
  case True
  then obtain ys zs where "d = ys @ a # zs" and "a \<notin> set ys" by (meson split_list_first)
  then show ?thesis by (auto simp: Replace1_def Cut_char)
qed

lemma day_digit_cases:
  assumes "0 \<le> (w :: int)" and "w < 7"
  shows "w = 0 \<or> w = 1 \<or> w = 2 \<or> w = 3 \<or> w = 4 \<or> w = 5 \<or> w = 6"
  using assms by linarith

lemma on_day_iff:
  assumes "0 \<le> w" and "w < 7"
  shows "Contains (Replace1 d ''7'' ''0'') (Itoa w) \<longleftrightarrow> on_day d w"
proof -
  let ?c = "char_of (48 + nat w) :: char"
  have ne: "?c \<noteq> CHR ''7''" and zero: "?c = CHR ''0'' \<longleftrightarrow> w = 0"
    using day_digit_cases [OF assms] by (auto simp: char_of_nat_eq)
  have "Contains (Replace1 d ''7'' ''0'') (Itoa w) \<longleftrightarrow> ?c \<in> set (Replace1 d ''7'' ''0'') - {CHR ''7''}"
    using assms ne by (simp add: Itoa_digit Contains_singleton)
  also have "\<dots> \<longleftrightarrow> on_day d w"
    unfolding set_Replace1_char using ne zero by (auto simp: on_day_def)
  finally show ?thesis .
qed

lemma hhmm_2359: "e < 6000 \<Longrightarrow> hhmm e = ''23:59'' \<longleftrightarrow> e = 1439"
proof -
  assume "e < 6000"
  moreover have "hhmm 1439 = ''23:59''" by (simp add: hhmm_def two_digits_def char_of_nat_eq)
  ultimately show ?thesis using hhmm_eq [of e 1439] by simp
qed

lemma span_effective_iff:
  assumes "span_ok (d, s, e)" and "m < 1440" and "0 \<le> w" and "w < 7"
  shows "span_effective (hhmm m) (Itoa w) (hhmm s) (hhmm e) d \<longleftrightarrow> on_day d w \<and> in_window s e m"
proof -
  have b: "s < 6000" "e < 6000" "m < 6000" using assms by (auto simp: span_ok_def)
  show ?thesis
    unfolding span_effective_def on_day_iff [OF assms(3,4)] hhmm_2359 [OF b(2)]
      hhmm_less [OF b(1,2)] hhmm_less [OF b(3,1)] hhmm_less [OF b(2,1)] hhmm_le [OF b(2,3)]
    by (auto simp: in_window_def)
qed

lemma span_loop_iff:
  assumes "list_all span_ok spans" and "m < 1440" and "0 \<le> w" and "w < 7"
  shows "span_loop (hhmm m) (Itoa w) (map (\<lambda>(d, s, e). hhmm s) spans)
           (map (\<lambda>(d, s, e). hhmm e) spans) (map (\<lambda>(d, s, e). d) spans) \<longleftrightarrow>
         \<not> list_ex (\<lambda>(d, s, e). on_day d w \<and> in_window s e m) spans"
  using assms(1)
proof (induction spans)
  case Nil
  show ?case by simp
next
  case (Cons sp spans)
  obtain d s e where "sp = (d, s, e)" by (metis prod_cases3)
  then show ?case using Cons span_effective_iff [of d s e m w] assms by auto
qed

lemma hhmm_no_space: "c \<in> set (hhmm m) \<Longrightarrow> m < 6000 \<Longrightarrow> \<not> is_space c"
proof -
  assume c: "c \<in> set (hhmm m)" and m: "m < 6000"
  have "m div 60 div 10 < 10" using m by auto
  moreover have "is_space (char_of (48 + d)) \<longleftrightarrow> False" if "d < 10" for d :: nat
    using that of_char_digit [OF that] by (auto simp: is_space_def char_of_nat_eq)
  ultimately show ?thesis using c by (auto simp: hhmm_def two_digits_def is_space_def)
qed

lemma Fields_hhmm:
  assumes "\<forall>m \<in> set ms. m < 6000"
  shows "Fields (Join (map hhmm ms) '' '') = map hhmm ms"
  by (rule Fields_Join) (use assms in \<open>auto simp: hhmm_no_space hhmm_def two_digits_def\<close>)

lemma Join_eq_Nil: "Join ws sep = [] \<Longrightarrow> ws \<noteq> [] \<Longrightarrow> [] \<in> set ws"
  by (induction ws sep rule: Join.induct) auto

lemma TimeSpan_windows:
  assumes "spans \<noteq> []" and ok: "list_all span_ok spans"
  shows "TimeSpanMuteStrategy x (with_spans spans rule) event \<longleftrightarrow>
    (let loc = rule_location x rule; w = Weekday loc (e_TriggerTime event);
         m = minute_of_day loc (e_TriggerTime event)
     in \<not> list_ex (\<lambda>(d, s, e). on_day d w \<and> in_window s e m) spans)"
proof -
  let ?d = "map (\<lambda>(d, s, e). d) spans" and ?s = "map (\<lambda>(d, s, e). s) spans"
    and ?e = "map (\<lambda>(d, s, e). e) spans"
  have loc: "rule_location x (with_spans spans rule) = rule_location x rule"
    by (simp add: rule_location_def with_spans_def)
  have in_spans: "span_ok sp" if "sp \<in> set spans" for sp
    using ok that by (simp add: list_all_iff)
  have days: "Split (Join ?d '';'') '';'' = ?d"
    by (rule Split_Join) (use assms(1) in_spans in \<open>auto simp: span_ok_def\<close>)
  have ne: "Join ?d '';'' \<noteq> []"
    using Join_eq_Nil [of ?d "'';''"] assms(1) in_spans by (fastforce simp: span_ok_def)
  have "Fields (Join (map hhmm ?s) '' '') = map hhmm ?s"
    by (rule Fields_hhmm) (use in_spans in \<open>fastforce simp: span_ok_def\<close>)
  then have st: "Fields (Join (map (\<lambda>(d, s, e). hhmm s) spans) '' '') = map (\<lambda>(d, s, e). hhmm s) spans"
    by (simp add: comp_def case_prod_unfold)
  have "Fields (Join (map hhmm ?e) '' '') = map hhmm ?e"
    by (rule Fields_hhmm) (use in_spans in \<open>fastforce simp: span_ok_def\<close>)
  then have et: "Fields (Join (map (\<lambda>(d, s, e). hhmm e) spans) '' '') = map (\<lambda>(d, s, e). hhmm e) spans"
    by (simp add: comp_def case_prod_unfold)
  show ?thesis
    unfolding TimeSpanMuteStrategy_def loc Let_def Format_15_04_def
    using ne days st et span_loop_iff [OF ok minute_of_day_less] Weekday_range
    by (simp add: with_spans_def)
qed

section \<open>The strongest matching rule\<close>

definition hits :: "env \<Rightarrow> event \<Rightarrow> int option \<Rightarrow> alert_mute list \<Rightarrow> alert_mute list" where
  "hits x event clock ms = filter (\<lambda>m. MatchMute x event m clock = Some (Inr ())) ms"

definition strongest :: "alert_mute list \<Rightarrow> bool \<times> int \<times> int" where
  "strongest ms =
     (case filter (\<lambda>m. m_MuteType m \<noteq> MuteTypeNotifyOnly) ms of
        m # _ \<Rightarrow> (True, m_Id m, MuteTypeAll)
      | [] \<Rightarrow> (case ms of m # _ \<Rightarrow> (True, m_Id m, MuteTypeNotifyOnly) | [] \<Rightarrow> (False, 0, MuteTypeAll)))"

lemma hits_simps [simp]:
  "hits x event clock [] = []"
  "MatchMute x event m clock = Some (Inr u) \<Longrightarrow> hits x event clock (m # ms) = m # hits x event clock ms"
  "MatchMute x event m clock = Some (Inl err) \<Longrightarrow> hits x event clock (m # ms) = hits x event clock ms"
  by (simp_all add: hits_def)

lemma mute_loop_hits:
  assumes "\<forall>m \<in> set ms. MatchMute x event m clock \<noteq> None"
  shows "mute_loop x event clock hit ms =
    Some (case hit of
        None \<Rightarrow> strongest (hits x event clock ms)
      | Some mid \<Rightarrow>
          (case filter (\<lambda>m. m_MuteType m \<noteq> MuteTypeNotifyOnly) (hits x event clock ms) of
             m # _ \<Rightarrow> (True, m_Id m, MuteTypeAll)
           | [] \<Rightarrow> (True, mid, MuteTypeNotifyOnly)))"
  using assms
proof (induction ms arbitrary: hit)
  case Nil
  show ?case by (simp add: strongest_def split: option.split)
next
  case (Cons m ms)
  then obtain r where r: "MatchMute x event m clock = Some r" by auto
  show ?case
  proof (cases r)
    case (Inl err)
    with Cons r show ?thesis by (cases hit) simp_all
  next
    case (Inr u)
    with Cons r show ?thesis by (auto simp: strongest_def split: option.split list.split)
  qed
qed

lemma EventMuteStrategy_strongest:
  assumes "AlertMuteCache_Gets mc (e_GroupId event) = Some ms"
    and "\<forall>m \<in> set ms. MatchMute x event m clock \<noteq> None"
  shows "EventMuteStrategy x event mc clock = Some (strongest (hits x event clock ms))"
  using assms mute_loop_hits [OF assms(2), of None]
  by (auto simp: EventMuteStrategy_def hits_def strongest_def)

text \<open>Whether and how an event is muted depends on which rules match, not on their order.\<close>

definition verdict :: "alert_mute list \<Rightarrow> bool \<times> int" where
  "verdict ms =
     (ms \<noteq> [],
      if ms \<noteq> [] \<and> list_all (\<lambda>m. m_MuteType m = MuteTypeNotifyOnly) ms then MuteTypeNotifyOnly
      else MuteTypeAll)"

lemma strongest_verdict: "(fst (strongest ms), snd (snd (strongest ms))) = verdict ms"
  by (cases "filter (\<lambda>m. m_MuteType m \<noteq> MuteTypeNotifyOnly) ms")
    (auto simp: strongest_def verdict_def list_all_iff filter_empty_conv MuteTypeAll_def
      MuteTypeNotifyOnly_def Cons_eq_filter_iff split: list.splits)

lemma verdict_mset: "mset ms = mset ms' \<Longrightarrow> verdict ms = verdict ms'"
  by (drule mset_eq_setD) (auto simp: verdict_def list_all_iff)

lemma hits_mset: "mset ms = mset ms' \<Longrightarrow> mset (hits x event clock ms) = mset (hits x event clock ms')"
  by (simp add: hits_def)

section \<open>No panic on cached rules\<close>

lemma MatchMute_total:
  assumes "list_all parsed (m_ITags m)" and "list_all plain_key (m_ITags m)"
  shows "MatchMute x event m clock \<noteq> None"
  using MatchTags_total [OF assms, of x "e_TagsMap event"]
  by (auto simp: MatchMute_def Let_def)

lemma mute_cache_rows:
  assumes "mget (sc_data (fold (\<lambda>q. snd \<circ> syncAlertMutes un_filters x q) qs (New_cache []))) bgid = Some ms"
    and "m \<in> set ms"
  shows "list_all parsed (m_ITags m)"
proof -
  let ?c = "fold (\<lambda>q. snd \<circ> syncAlertMutes un_filters x q) qs (New_cache [])"
  have "sc_data ?c = [] \<or> (\<exists>rows. build_mutes un_filters x rows = sc_data ?c)"
    using mute_cache.run_source [of un_filters x qs "New_cache []"]
    by (auto simp: cache_view_def New_cache_def)
  with assms show ?thesis
    by (force simp: mget_build_mutes Let_def dest: parse_mutes_ITags split: if_splits
        dest: arg_cong [where f = "\<lambda>m. mget m bgid"])
qed

section \<open>Properties\<close>

text \<open>
  C33. The schedule of a rule is read as windows of minutes: for any list of groups
  with aligned days, start and end times in hours and minutes, the event is muted exactly when its trigger instant, in the zone of the rule, lies in no
  window of a group whose days include its weekday (left closed, right open; closed at 23:59; across
  midnight where the end comes first; all day where both times are equal; 7 is Sunday as 0 is).
\<close>

theorem time_span_mutes_outside_windows:
  assumes "spans \<noteq> []" and "list_all span_ok spans"
  shows "TimeSpanMuteStrategy x (with_spans spans rule) event \<longleftrightarrow>
    (let loc = rule_location x rule; w = Weekday loc (e_TriggerTime event);
         m = minute_of_day loc (e_TriggerTime event)
     in \<not> list_ex (\<lambda>(d, s, e). on_day d w \<and> in_window s e m) spans)"
  using assms by (rule TimeSpan_windows)

theorem time_span_witness:
  "TimeSpanMuteStrategy sample_env (with_spans [(''1 2 3'', 540, 1080), (''7'', 1260, 360)] sample_rule)
     (sample_event\<lparr>e_TriggerTime := 36000\<rparr>)"
  by (subst time_span_mutes_outside_windows)
    (simp_all add: span_ok_def Let_def on_day_def in_window_def Weekday_def local_secs_def rule_location_def
      sample_env_def sample_rule_def char_of_nat_eq)

text \<open>
  Among the mute rules of the business group of an event, the strongest one that matches decides:
  the first one that mutes events if there is one, otherwise the first one that mutes notifications.
\<close>

theorem event_mute_strongest_wins:
  assumes "AlertMuteCache_Gets mc (e_GroupId event) = Some ms"
    and "\<forall>m \<in> set ms. MatchMute x event m clock \<noteq> None"
  shows "EventMuteStrategy x event mc clock = Some (strongest (hits x event clock ms))"
  using assms by (rule EventMuteStrategy_strongest)

definition sample_mute :: "int \<Rightarrow> int \<Rightarrow> alert_mute" where
  "sample_mute mid ty = \<lparr>m_Id = mid, m_GroupId = 7, m_Note = [], m_DatasourceIdsJson = [0], m_Tags = [],
     m_Btime = 0, m_Etime = 2000, m_Disabled = 0, m_Activated = 0, m_ITags = [], m_MuteTimeType = 0,
     m_PeriodicMutesJson = [], m_SeveritiesJson = [], m_MuteType = ty\<rparr>"

lemma sample_mute_matches: "MatchMute sample_env sample_event (sample_mute mid ty) None = Some (Inr ())"
  by (simp add: MatchMute_def sample_mute_def TimeRange_def IsWithinTimeRange_def)

theorem event_mute_strongest_witness:
  "EventMuteStrategy sample_env sample_event
     (Set_cache [(7, [sample_mute 1 MuteTypeNotifyOnly, sample_mute 2 MuteTypeAll])] 2 9 (New_cache [])) None
   = Some (True, 2, MuteTypeAll)"
  by (subst event_mute_strongest_wins [where ms = "[sample_mute 1 MuteTypeNotifyOnly, sample_mute 2 MuteTypeAll]"])
    (simp_all add: AlertMuteCache_Gets_def Set_cache_def sample_mute_matches strongest_def,
     simp add: sample_mute_def MuteTypeAll_def MuteTypeNotifyOnly_def)

text \<open>
  Whether an event is muted, and how strongly, does not depend on the order in which the cache
  holds the mute rules of a group.
\<close>

theorem event_mute_order_independent:
  assumes "AlertMuteCache_Gets mc (e_GroupId event) = Some ms"
    and "AlertMuteCache_Gets mc' (e_GroupId event) = Some ms'"
    and "mset ms = mset ms'"
    and "\<forall>m \<in> set ms. MatchMute x event m clock \<noteq> None"
  shows "map_option (\<lambda>(hit, muteId, muteType). (hit, muteType)) (EventMuteStrategy x event mc clock) =
         map_option (\<lambda>(hit, muteId, muteType). (hit, muteType)) (EventMuteStrategy x event mc' clock)"
proof -
  have "\<forall>m \<in> set ms'. MatchMute x event m clock \<noteq> None"
    using assms(3,4) mset_eq_setD by blast
  moreover have "verdict (hits x event clock ms) = verdict (hits x event clock ms')"
    by (rule verdict_mset [OF hits_mset [OF assms(3)]])
  ultimately show ?thesis
    using assms(1,2,4) by (simp add: EventMuteStrategy_strongest strongest_verdict case_prod_unfold)
qed

theorem event_mute_order_witness:
  "map_option (\<lambda>(hit, muteId, muteType). (hit, muteType)) (EventMuteStrategy sample_env sample_event
     (Set_cache [(7, [sample_mute 1 MuteTypeNotifyOnly, sample_mute 2 MuteTypeAll])] 2 9 (New_cache [])) None) =
   map_option (\<lambda>(hit, muteId, muteType). (hit, muteType)) (EventMuteStrategy sample_env sample_event
     (Set_cache [(7, [sample_mute 2 MuteTypeAll, sample_mute 1 MuteTypeNotifyOnly])] 2 9 (New_cache [])) None)"
  by (rule event_mute_order_independent
      [where ms = "[sample_mute 1 MuteTypeNotifyOnly, sample_mute 2 MuteTypeAll]"
         and ms' = "[sample_mute 2 MuteTypeAll, sample_mute 1 MuteTypeNotifyOnly]"])
    (simp_all add: AlertMuteCache_Gets_def Set_cache_def sample_mute_matches)

text \<open>
  C34. Whatever the database answered, \<open>IsMuted\<close> never panics on the rules that the mute cache loaded, as
  long as none of them filters on the group of the machine.
\<close>

theorem is_muted_no_panic_on_cached_rules:
  assumes "mc = fold (\<lambda>q. snd \<circ> syncAlertMutes un_filters x q) qs (New_cache [])"
    and "\<forall>ms m. mget (sc_data mc) (e_GroupId event) = Some ms \<longrightarrow> m \<in> set ms \<longrightarrow> list_all plain_key (m_ITags m)"
  shows "\<exists>r. IsMuted x rule event tc mc = Some r"
proof -
  have "EventMuteStrategy x event mc None \<noteq> None"
  proof (cases "AlertMuteCache_Gets mc (e_GroupId event)")
    case None
    then show ?thesis by (simp add: EventMuteStrategy_def)
  next
    case (Some ms)
    have "MatchMute x event m None \<noteq> None" if "m \<in> set ms" for m
      using MatchMute_total mute_cache_rows [of un_filters x qs "e_GroupId event" ms m] Some assms that
      by (simp add: AlertMuteCache_Gets_def)
    then show ?thesis using EventMuteStrategy_strongest [OF Some] by simp
  qed
  then show ?thesis by (auto simp: IsMuted_def split: bind_splits)
qed

theorem is_muted_no_panic_witness:
  "\<exists>r. IsMuted sample_env sample_rule sample_event (New_cache [])
     (fold (\<lambda>q. snd \<circ> syncAlertMutes (\<lambda>s. None) sample_env q) [(Inr (1, 9), Inr [sample_mute 1 0])]
       (New_cache [])) = Some r"
  by (rule is_muted_no_panic_on_cached_rules [where un_filters = "\<lambda>s. None"
        and qs = "[(Inr (1, 9), Inr [sample_mute 1 0])]"])
    (auto simp: syncAlertMutes_def sync_body_def New_cache_def StatChanged_def Set_cache_def build_mutes_def
      parse_mutes_def AlertMute_Parse_def GetTagFilters_def sample_mute_def mappend_def)

end
