(* ===== verification/Event_Process.thy ===== *)
theory Event_Process
  imports Event_Pipeline Mute
begin

text \<open>
  The event processor of a rule, \<^verbatim>\<open>alert/process/process.go\<close> and \<^verbatim>\<open>alert/process/alert_cur_event.go\<close>:
  it builds the events of an evaluation, holds them back for the duration of the rule, decides
  which are notified, and recovers the ones that no longer appear.

  Three maps and the event queue share the event objects by pointer, and the code changes objects
  through one of them while another still holds them. The model therefore has a store: an event is
  an index into \<open>p_heap\<close>, the maps hold indices, and \<open>p_pushed\<close> is the sequence of indices given
  to \<^verbatim>\<open>EventQueue.PushFront\<close>, oldest first (the queue itself is a library and may refuse an
  element when it is full, which the code only logs). The hooks of the processor are the empty
  functions that \<^verbatim>\<open>NewProcessor\<close> installs. The machine that \<open>BuildEvent\<close> attaches to an event is a
  copy that carries the group names; the code writes the names into the cached machine as well.
\<close>

section \<open>State\<close>

type_synonym addr = nat

type_synonym event_map = "(string, addr) gomap"

record event_processor =
  p_datasourceId :: int
  p_EngineName :: string
  p_rule :: alert_rule
  p_fires :: event_map
  p_pendings :: event_map
  p_pendingsUseByRecover :: event_map
  p_inhibit :: bool
  p_tagsMap :: "(string, string) gomap"
  p_tagsArr :: "string list"
  p_groupName :: string
  p_PromEvalInterval :: int
  p_heap :: "event list"
  p_pushed :: "addr list"

record caches =
  cs_rules :: "(int, alert_rule) gomap stat_cache"
  cs_targets :: "(string, target) gomap stat_cache"
  cs_busi :: "(int, busi_group) gomap stat_cache"
  cs_mutes :: "(int, alert_mute list) gomap stat_cache"
  cs_ds :: "ds_content stat_cache"
  cs_pipelines :: "(int, event_pipeline) gomap"

abbreviation obj :: "event_processor \<Rightarrow> addr \<Rightarrow> event" where
  "obj p a \<equiv> p_heap p ! a"

definition upd :: "addr \<Rightarrow> (event \<Rightarrow> event) \<Rightarrow> event_processor \<Rightarrow> event_processor" where
  "upd a f p = p\<lparr>p_heap := (p_heap p)[a := f (obj p a)]\<rparr>"

section \<open>The maps of events\<close>

text \<open>
  \<open>AlertCurEventMap\<close>. \<open>UpdateLastEvalTime\<close> writes through the pointer of the entry, so it needs the
  store.
\<close>

definition EventMap_Set :: "string \<Rightarrow> addr \<Rightarrow> event_map \<Rightarrow> event_map" where
  "EventMap_Set key a m = mput key a m"

definition EventMap_Get :: "event_map \<Rightarrow> string \<Rightarrow> addr option" where
  "EventMap_Get m key = mget m key"

definition EventMap_UpdateLastEvalTime :: "event_map \<Rightarrow> string \<Rightarrow> int \<Rightarrow> event_processor \<Rightarrow> event_processor" where
  "EventMap_UpdateLastEvalTime m key t p =
     (case mget m key of None \<Rightarrow> p | Some a \<Rightarrow> upd a (\<lambda>e. e\<lparr>e_LastEvalTime := t\<rparr>) p)"

definition EventMap_Delete :: "string \<Rightarrow> event_map \<Rightarrow> event_map" where
  "EventMap_Delete key m = mdel key m"

definition EventMap_Keys :: "(string list \<Rightarrow> string list) \<Rightarrow> event_map \<Rightarrow> string list" where
  "EventMap_Keys ord m = ord (mkeys m)"

section \<open>Building an event\<close>

definition RuleKey :: "int \<Rightarrow> int \<Rightarrow> string" where
  "RuleKey datasourceId rid = ''alert-'' @ Itoa datasourceId @ ''-'' @ Itoa rid"

definition Processor_Key :: "event_processor \<Rightarrow> string" where
  "Processor_Key p = RuleKey (p_datasourceId p) (r_Id (p_rule p))"

definition Processor_Hash :: "env \<Rightarrow> event_processor \<Rightarrow> string" where
  "Processor_Hash x p =
     x_md5 x (Itoa (r_Id (p_rule p)) @ ''_'' @ r_CronPattern (p_rule p) @ ''_'' @ r_RuleConfig (p_rule p) @ ''_'' @
       Itoa (p_datasourceId p))"

definition event_hash :: "alert_ctx \<Rightarrow> int \<Rightarrow> int \<Rightarrow> anomaly_point \<Rightarrow> string" where
  "event_hash ac ruleId datasourceId v =
     x_md5 (ac_env ac) (Itoa ruleId @ ''_'' @ ac_labels_string ac (ap_Labels v) @ ''_'' @ Itoa datasourceId @ ''_'' @
       Itoa (ap_Severity v) @ ''_'' @ ap_Query v)"

definition TagHash :: "alert_ctx \<Rightarrow> anomaly_point \<Rightarrow> string" where
  "TagHash ac v = x_md5 (ac_env ac) (ac_labels_string ac (ap_Labels v))"

definition labelMapToArr :: "(string, string) gomap \<Rightarrow> string list" where
  "labelMapToArr m = sort (map (\<lambda>(label, v). label @ ''='' @ v) m)"

text \<open>
  A tag of the rule without \<^verbatim>\<open>=\<close> makes the code index out of range. The template of a tag sees the
  tags that were set before it, because the map is shared.
\<close>

definition rule_tag :: "env \<Rightarrow> string \<Rightarrow> (string, string) gomap \<Rightarrow> (string, string) gomap option" where
  "rule_tag x tag m =
     (case SplitN2 tag ''='' of
        [k, v] \<Rightarrow>
          Some (mput k (case x_tag_tmpl x (''{{$labels := .TagsMap}}{{$value := .TriggerValue}}'' @ v) m of
                          Inl err \<Rightarrow> ''parse tag value failed, err:'' @ err
                        | Inr s \<Rightarrow> s) m)
      | _ \<Rightarrow> None)"

fun rule_tags :: "env \<Rightarrow> string list \<Rightarrow> (string, string) gomap \<Rightarrow> (string, string) gomap option" where
  "rule_tags x [] m = Some m"
| "rule_tags x (t # ts) m = do { m' \<leftarrow> rule_tag x t m; rule_tags x ts m' }"

definition fillTags :: "env \<Rightarrow> anomaly_point \<Rightarrow> event_processor \<Rightarrow> event_processor option" where
  "fillTags x ap p =
     do {
       m \<leftarrow> rule_tags x (r_AppendTagsJSON (p_rule p) @ [''rulename='' @ r_Name (p_rule p)])
              (fold (\<lambda>(k, v). mput k v) (ap_Labels ap) []);
       Some (p\<lparr>p_tagsMap := m, p_tagsArr := labelMapToArr m\<rparr>)
     }"

definition mayHandleIdent :: "(string, target) gomap stat_cache \<Rightarrow> event \<Rightarrow> event" where
  "mayHandleIdent tc e =
     (case mget (e_TagsMap e) ''ident'' of
        Some ident \<Rightarrow>
          (case TargetCache_Get tc ident of
             Some t \<Rightarrow> e\<lparr>e_TargetIdent := t_Ident t, e_TargetNote := t_Note t\<rparr>
           | None \<Rightarrow> e\<lparr>e_TargetIdent := ident, e_TargetNote := []\<rparr>)
      | None \<Rightarrow> e\<lparr>e_TargetIdent := [], e_TargetNote := []\<rparr>)"

definition fill_target :: "caches \<Rightarrow> event \<Rightarrow> event" where
  "fill_target cs e =
     (if e_TargetIdent e \<noteq> [] then
        (case TargetCache_Get (cs_targets cs) (e_TargetIdent e) of
           Some t \<Rightarrow> e\<lparr>e_Target := Some (t\<lparr>t_GroupNames := GetNamesByBusiGroupIds (cs_busi cs) (t_GroupIds t)\<rparr>)\<rparr>
         | None \<Rightarrow> e)
      else e)"

definition Relabel_event :: "env \<Rightarrow> alert_rule \<Rightarrow> event \<Rightarrow> event option" where
  "Relabel_event x rule e =
     (let e1 = e\<lparr>e_OriginalTags := e_Tags e, e_OriginalTagsJSON := e_TagsJSON e\<rparr>
      in if r_EventRelabelConfig rule = [] then Some e1
         else EventRelabel x e1 (r_EventRelabelConfig rule))"

definition BuildEvent ::
  "alert_ctx \<Rightarrow> caches \<Rightarrow> anomaly_point \<Rightarrow> string \<Rightarrow> int \<Rightarrow> string \<Rightarrow> event_processor
     \<Rightarrow> (event \<times> event_processor) option"
where
  "BuildEvent ac cs ap frm now ruleHash p0 =
     do {
       p \<leftarrow> fillTags (ac_env ac) ap p0;
       let rule = p_rule p;
       let dsName = (case DatasourceCache_GetById (cs_ds cs) (p_datasourceId p) of None \<Rightarrow> [] | Some d \<Rightarrow> ds_Name d);
       let e0 = GenerateNewEvent rule;
       let e1 = (case GetByBusiGroupId (cs_busi cs) (r_GroupId rule) of
                   None \<Rightarrow> e0 | Some bg \<Rightarrow> e0\<lparr>e_GroupName := bg_Name bg\<rparr>);
       let e2 = e1\<lparr>e_TriggerTime := ap_Timestamp ap, e_TagsMap := p_tagsMap p, e_DatasourceId := p_datasourceId p,
                   e_Cluster := dsName, e_Hash := event_hash ac (r_Id rule) (p_datasourceId p) ap,
                   e_TriggerValue := ap_ReadableValue ap, e_TriggerValues := ap_Values ap,
                   e_TagsJSON := p_tagsArr p, e_Tags := Join (p_tagsArr p) '',,'', e_IsRecovered := False,
                   e_Callbacks := r_Callbacks rule, e_CallbacksJSON := r_CallbacksJSON rule,
                   e_Annotations := r_Annotations rule, e_RuleConfig := r_RuleConfig rule,
                   e_RuleConfigJson := r_RuleConfigJson rule, e_Severity := ap_Severity ap,
                   e_ExtraConfig := r_ExtraConfigJSON rule, e_PromQl := ap_Query ap,
                   e_RecoverConfig := ap_RecoverConfig ap, e_RuleHash := ruleHash\<rparr>;
       let e3 = (if ap_TriggerType ap = TriggerTypeNodata
                 then e2\<lparr>e_TriggerValue := ''nodata'', e_RuleConfig := ac_nodata_cfg ac (r_RuleConfig rule)\<rparr> else e2);
       let e4 = e3\<lparr>e_AnnotationsJSON := (case ac_un_ann ac (r_Annotations rule) of None \<Rightarrow> [] | Some m \<Rightarrow> m)\<rparr>;
       let e5 = (if e_TriggerValues e4 \<noteq> [] \<and> length (filter (\<lambda>ch. ch = CHR ''$'') (e_TriggerValues e4)) > 1
                 then e4\<lparr>e_TriggerValue := e_TriggerValues e4\<rparr> else e4);
       let e6 = e5\<lparr>e_LastEvalTime := (if frm = ''inner'' then now else e_TriggerTime e5)\<rparr>;
       e7 \<leftarrow> Relabel_event (ac_env ac) rule e6;
       Some (fill_target cs (mayHandleIdent (cs_targets cs) e7), p)
     }"

section \<open>Firing\<close>

definition pushEventToQueue :: "addr \<Rightarrow> event_processor \<Rightarrow> event_processor" where
  "pushEventToQueue a p =
     (let p1 = (if \<not> e_IsRecovered (obj p a) then
                  (let q = (if e_NotifyMuted (obj p a) \<noteq> 1
                            then upd a (\<lambda>e. e\<lparr>e_LastSentTime := e_LastEvalTime e\<rparr>) p else p)
                   in q\<lparr>p_fires := EventMap_Set (e_Hash (obj q a)) a (p_fires q)\<rparr>)
                else p)
      in p1\<lparr>p_pushed := p_pushed p1 @ [a]\<rparr>)"

definition fireEvent :: "addr \<Rightarrow> event_processor \<Rightarrow> event_processor" where
  "fireEvent a p =
     (let rule = p_rule p; e = obj p a; h = e_Hash e in
      if e_NotifyMuted e = 1 then
        (case EventMap_Get (p_fires p) h of
           Some f \<Rightarrow>
             (let p1 = EventMap_UpdateLastEvalTime (p_fires p) h (e_LastEvalTime e) p
              in upd a (\<lambda>e. e\<lparr>e_FirstTriggerTime := e_FirstTriggerTime (obj p1 f)\<rparr>) p1)
         | None \<Rightarrow>
             pushEventToQueue a
               (upd a (\<lambda>e. e\<lparr>e_NotifyCurNumber := 0, e_FirstTriggerTime := e_TriggerTime e\<rparr>) p))
      else case EventMap_Get (p_fires p) h of
             Some f \<Rightarrow>
               (let p1 = EventMap_UpdateLastEvalTime (p_fires p) h (e_LastEvalTime e) p;
                    p2 = upd a (\<lambda>e. e\<lparr>e_FirstTriggerTime := e_FirstTriggerTime (obj p1 f)\<rparr>) p1;
                    fired = obj p2 f
                in if e_NotifyCurNumber fired = 0 then
                     pushEventToQueue a (upd a (\<lambda>e. e\<lparr>e_NotifyCurNumber := 1\<rparr>) p2)
                   else if r_NotifyRepeatStep rule = 0 then p2
                   else if e_LastEvalTime (obj p2 a) \<ge> e_LastSentTime fired + r_NotifyRepeatStep rule * 60 then
                     (if r_NotifyMaxNumber rule = 0 then
                        pushEventToQueue a (upd a (\<lambda>e. e\<lparr>e_NotifyCurNumber := e_NotifyCurNumber fired + 1\<rparr>) p2)
                      else if e_NotifyCurNumber fired \<ge> r_NotifyMaxNumber rule then p2
                      else pushEventToQueue a (upd a (\<lambda>e. e\<lparr>e_NotifyCurNumber := e_NotifyCurNumber fired + 1\<rparr>) p2))
                   else p2)
           | None \<Rightarrow>
               pushEventToQueue a
                 (upd a (\<lambda>e. e\<lparr>e_NotifyCurNumber := 1, e_FirstTriggerTime := e_TriggerTime e\<rparr>) p))"

fun inhibitEvent :: "addr list \<Rightarrow> int \<Rightarrow> event_processor \<Rightarrow> event_processor" where
  "inhibitEvent [] highSeverity p = p"
| "inhibitEvent (a # as) highSeverity p =
     (if p_inhibit p \<and> e_Severity (obj p a) > highSeverity then inhibitEvent as highSeverity p
      else inhibitEvent as highSeverity (fireEvent a p))"

text \<open>
  The body of the loop of \<open>handleEvent\<close>: \<open>mark_seen\<close> is its first part, \<open>pend_event\<close> the whole,
  with whether the event is to fire.
\<close>

definition mark_seen :: "addr \<Rightarrow> event_processor \<Rightarrow> event_processor" where
  "mark_seen a p =
     (let h = e_Hash (obj p a);
          p1 = (case EventMap_Get (p_pendingsUseByRecover p) h of
                  Some _ \<Rightarrow> EventMap_UpdateLastEvalTime (p_pendingsUseByRecover p) h (e_LastEvalTime (obj p a)) p
                | None \<Rightarrow> p\<lparr>p_pendingsUseByRecover := EventMap_Set h a (p_pendingsUseByRecover p)\<rparr>)
      in upd a (\<lambda>e. e\<lparr>e_PromEvalInterval := p_PromEvalInterval p1\<rparr>) p1)"

definition pend_event :: "addr \<Rightarrow> event_processor \<Rightarrow> bool \<times> event_processor" where
  "pend_event a p =
     (let h = e_Hash (obj p a); p2 = mark_seen a p
      in if r_PromForDuration (p_rule p2) = 0 then (True, p2)
         else let (p3, preEvalTime) =
                (case EventMap_Get (p_pendings p2) h of
                   Some b \<Rightarrow>
                     (let q = EventMap_UpdateLastEvalTime (p_pendings p2) h (e_LastEvalTime (obj p2 a)) p2
                      in (q, e_FirstEvalTime (obj q b)))
                 | None \<Rightarrow>
                     (let q = upd a (\<lambda>e. e\<lparr>e_FirstEvalTime := e_LastEvalTime e\<rparr>) p2;
                          q1 = q\<lparr>p_pendings := EventMap_Set h a (p_pendings q)\<rparr>
                      in (q1, e_FirstEvalTime (obj q1 a))))
              in (e_LastEvalTime (obj p3 a) - preEvalTime + e_PromEvalInterval (obj p3 a) \<ge> r_PromForDuration (p_rule p3),
                  p3))"

fun pend_events :: "addr list \<Rightarrow> addr list \<Rightarrow> int \<Rightarrow> event_processor \<Rightarrow> addr list \<times> int \<times> event_processor" where
  "pend_events [] fireEvents severity p = (fireEvents, severity, p)"
| "pend_events (a # as) fireEvents severity p =
     (let (fires, p') = pend_event a p
      in if fires then
           pend_events as (fireEvents @ [a])
             (if severity > e_Severity (obj p' a) then e_Severity (obj p' a) else severity) p'
         else pend_events as fireEvents severity p')"

definition handleEvent :: "addr list \<Rightarrow> event_processor \<Rightarrow> event_processor" where
  "handleEvent events p =
     (let (fireEvents, severity, p') = pend_events events [] SeverityLowest p
      in inhibitEvent fireEvents severity p')"

section \<open>Recovering\<close>

definition delete_everywhere :: "string \<Rightarrow> event_processor \<Rightarrow> event_processor" where
  "delete_everywhere h p =
     p\<lparr>p_fires := EventMap_Delete h (p_fires p), p_pendings := EventMap_Delete h (p_pendings p),
       p_pendingsUseByRecover := EventMap_Delete h (p_pendingsUseByRecover p)\<rparr>"

definition DeleteProcessEvent :: "string \<Rightarrow> event_processor \<Rightarrow> event_processor" where
  "DeleteProcessEvent h p = delete_everywhere h p"

text \<open>The checks of \<open>RecoverSingle\<close> before it changes anything.\<close>

definition may_recover :: "bool \<Rightarrow> string \<Rightarrow> int \<Rightarrow> event_processor \<Rightarrow> bool" where
  "may_recover byRecover h now p =
     (case EventMap_Get (p_fires p) h of
        None \<Rightarrow> False
      | Some a \<Rightarrow>
          (if r_RecoverDuration (p_rule p) > 0 \<and>
              (case EventMap_Get (p_pendingsUseByRecover p) h of
                 None \<Rightarrow> True
               | Some b \<Rightarrow> now - e_LastEvalTime (obj p b) < r_RecoverDuration (p_rule p)) then False
           else \<not> (JudgeType (e_RecoverConfig (obj p a)) \<noteq> Origin \<and> \<not> byRecover)))"

text \<open>\<open>val\<close> is the value of the recovery point and \<open>vals\<close> the optional list of values.\<close>

definition RecoverSingle ::
  "alert_ctx \<Rightarrow> caches \<Rightarrow> bool \<Rightarrow> string \<Rightarrow> int \<Rightarrow> string option \<Rightarrow> string option \<Rightarrow> event_processor
     \<Rightarrow> event_processor option"
where
  "RecoverSingle ac cs byRecover h now val vals p =
     (if \<not> may_recover byRecover h now p then Some p
      else case EventMap_Get (p_fires p) h of
             None \<Rightarrow> Some p
           | Some a \<Rightarrow>
               (let p1 = (case val of
                            None \<Rightarrow> p
                          | Some v \<Rightarrow> upd a (\<lambda>e. (case vals of
                                None \<Rightarrow> e\<lparr>e_TriggerValue := v\<rparr>
                              | Some vs \<Rightarrow> e\<lparr>e_TriggerValue := v, e_TriggerValues := vs\<rparr>)) p);
                    p2 = delete_everywhere h p1;
                    p3 = upd a (\<lambda>e. (UpdateEvent (p_rule p2) e)\<lparr>e_IsRecovered := True, e_LastEvalTime := now,
                                     e_NotifyMuted := 0, e_MuteId := 0\<rparr>) p2
                in do {
                     (hit, muteId, muteType) \<leftarrow> EventMuteStrategy (ac_env ac) (obj p3 a) (cs_mutes cs) (Some now);
                     let p4 = (if hit \<and> muteType = MuteTypeNotifyOnly
                               then upd a (\<lambda>e. e\<lparr>e_NotifyMuted := 1, e_MuteId := muteId\<rparr>) p3 else p3);
                     Some (pushEventToQueue a p4)
                   }))"

fun HandleRecoverEvent ::
  "alert_ctx \<Rightarrow> caches \<Rightarrow> string list \<Rightarrow> int \<Rightarrow> event_processor \<Rightarrow> event_processor option"
where
  "HandleRecoverEvent ac cs [] now p = Some p"
| "HandleRecoverEvent ac cs (h # hs) now p =
     do { p' \<leftarrow> RecoverSingle ac cs False h now None None p; HandleRecoverEvent ac cs hs now p' }"

definition HandleRecover ::
  "alert_ctx \<Rightarrow> caches \<Rightarrow> string list \<Rightarrow> int \<Rightarrow> event_processor \<Rightarrow> event_processor option"
where
  "HandleRecover ac cs alertingKeys now p =
     (let stale = filter (\<lambda>h. h \<notin> set alertingKeys) (EventMap_Keys (ac_ord ac) (p_pendings p));
          p1 = p\<lparr>p_pendings := fold EventMap_Delete stale (p_pendings p)\<rparr>;
          hashArr = filter (\<lambda>h. h \<notin> set alertingKeys) (EventMap_Keys (ac_ord ac) (p_fires p1))
      in HandleRecoverEvent ac cs hashArr now p1)"

section \<open>One evaluation\<close>

definition alloc :: "event \<Rightarrow> event_processor \<Rightarrow> addr \<times> event_processor" where
  "alloc e p = (length (p_heap p), p\<lparr>p_heap := p_heap p @ [e]\<rparr>)"

text \<open>One anomaly point: its hash, and its event unless the pipeline or a mute drops it.\<close>

definition handle_point ::
  "alert_ctx \<Rightarrow> caches \<Rightarrow> string \<Rightarrow> int \<Rightarrow> string \<Rightarrow> anomaly_point \<Rightarrow> event_processor
     \<Rightarrow> (string \<times> event option \<times> event_processor) option"
where
  "handle_point ac cs frm now ruleHash ap p0 =
     do {
       (e0, p) \<leftarrow> BuildEvent ac cs ap frm now ruleHash p0;
       let rule = p_rule p;
       let e1 = e0\<lparr>e_NotifyRuleIds := r_NotifyRuleIds rule\<rparr>;
       (ev, trace) \<leftarrow> HandleEventPipeline ac now (cs_pipelines cs) (r_Id rule) ''alert_rule'' (r_PipelineConfigs rule) e1;
       (case ev of
          None \<Rightarrow> Some (e_Hash e1, None, p)
        | Some e2 \<Rightarrow>
            do {
              (isMuted, detail, muteId, muteType) \<leftarrow> IsMuted (ac_env ac) rule e2 (cs_targets cs) (cs_mutes cs);
              if isMuted \<and> muteType \<noteq> MuteTypeNotifyOnly then Some (e_Hash e1, None, p)
              else let e3 = (if isMuted then e2\<lparr>e_NotifyMuted := 1, e_MuteId := muteId\<rparr> else e2)
                   in if ac_EventMuteHook ac e3 then Some (e_Hash e1, None, p)
                      else Some (e_Hash e1, Some e3, p)
            })
     }"

fun handle_points ::
  "alert_ctx \<Rightarrow> caches \<Rightarrow> string \<Rightarrow> int \<Rightarrow> string \<Rightarrow> anomaly_point list \<Rightarrow> string list
     \<Rightarrow> (string, addr list) gomap \<Rightarrow> event_processor
     \<Rightarrow> (string list \<times> (string, addr list) gomap \<times> event_processor) option"
where
  "handle_points ac cs frm now ruleHash [] keys evs p = Some (keys, evs, p)"
| "handle_points ac cs frm now ruleHash (ap # aps) keys evs p =
     do {
       (h, ev, p1) \<leftarrow> handle_point ac cs frm now ruleHash ap p;
       (case ev of
          None \<Rightarrow> handle_points ac cs frm now ruleHash aps (h # keys) evs p1
        | Some e \<Rightarrow>
            let (a, p2) = alloc e p1
            in handle_points ac cs frm now ruleHash aps (h # keys) (mappend (TagHash ac ap) a evs) p2)
     }"

text \<open>The points of an evaluation up to the recovery: the hashes it saw, and the processor after its groups of events.\<close>

definition fire_points ::
  "alert_ctx \<Rightarrow> caches \<Rightarrow> string \<Rightarrow> int \<Rightarrow> string \<Rightarrow> anomaly_point list \<Rightarrow> event_processor
     \<Rightarrow> (string list \<times> event_processor) option"
where
  "fire_points ac cs frm now ruleHash aps p =
     do {
       (keys, evs, p2) \<leftarrow> handle_points ac cs frm now ruleHash aps [] [] p;
       Some (keys, fold (\<lambda>k. handleEvent (case mget evs k of None \<Rightarrow> [] | Some as \<Rightarrow> as)) (ac_ord ac (mkeys evs)) p2)
     }"

definition Handle ::
  "alert_ctx \<Rightarrow> caches \<Rightarrow> int \<Rightarrow> anomaly_point list \<Rightarrow> string \<Rightarrow> bool \<Rightarrow> event_processor
     \<Rightarrow> event_processor option"
where
  "Handle ac cs now aps frm inhibit p =
     (let p0 = p\<lparr>p_inhibit := inhibit\<rparr>
      in case AlertRuleCache_Get (cs_rules cs) (r_Id (p_rule p0)) of
           None \<Rightarrow> Some p0
         | Some cachedRule \<Rightarrow>
             (let ruleHash = RuleHash (ac_env ac) (p_rule p0); p1 = p0\<lparr>p_rule := cachedRule\<rparr>
              in do {
                   (keys, p3) \<leftarrow> fire_points ac cs frm now ruleHash aps p1;
                   if frm = ''inner'' then HandleRecover ac cs keys now p3 else Some p3
                 }))"

section \<open>Starting\<close>

text \<open>
  The code leaves the three maps nil until \<open>RecoverAlertCurEventFromDb\<close>, which the worker calls before its
  first evaluation; here they are empty.
\<close>

definition NewProcessor ::
  "string \<Rightarrow> alert_rule \<Rightarrow> int \<Rightarrow> caches \<Rightarrow> int \<Rightarrow> event_processor"
where
  "NewProcessor engineName rule datasourceId cs interval =
     \<lparr>p_datasourceId = datasourceId, p_EngineName = engineName, p_rule = rule, p_fires = [], p_pendings = [],
      p_pendingsUseByRecover = [], p_inhibit = False, p_tagsMap = [], p_tagsArr = [],
      p_groupName = (case GetByBusiGroupId (cs_busi cs) (r_GroupId rule) of None \<Rightarrow> [] | Some bg \<Rightarrow> bg_Name bg),
      p_PromEvalInterval = interval, p_heap = [], p_pushed = []\<rparr>"

text \<open>An event of the database that is taken over: two copies, one firing and one for recovery.\<close>

definition load_event :: "alert_ctx \<Rightarrow> caches \<Rightarrow> event \<Rightarrow> event_processor \<Rightarrow> event_processor" where
  "load_event ac cs e p =
     (case AlertRuleCache_Get (cs_rules cs) (e_RuleId e) of
        None \<Rightarrow> p
      | Some rule \<Rightarrow>
          (let e1 = e\<lparr>e_NotifyRuleIds := r_NotifyRuleIds rule\<rparr>;
               other = (case TargetCache_Get (cs_targets cs) (e_TargetIdent e1) of
                          None \<Rightarrow> False
                        | Some t \<Rightarrow> t_EngineName t \<noteq> p_EngineName p \<and> \<not> (ac_IsCenter ac \<and> t_EngineName t = []))
           in if e_Cate e1 = ''host'' \<and> other then p
              else let e2 = DB2Mem e1;
                       e3 = (case TargetCache_Get (cs_targets cs) (e_TargetIdent e2) of
                               None \<Rightarrow> e2
                             | Some t \<Rightarrow> e2\<lparr>e_Target := Some (t\<lparr>t_GroupNames :=
                                 GetNamesByBusiGroupIds (cs_busi cs) (t_GroupIds t)\<rparr>)\<rparr>);
                       (a, p1) = alloc e3 p;
                       (b, p2) = alloc e3 p1
                   in p2\<lparr>p_fires := mput (e_Hash e3) a (p_fires p2),
                         p_pendingsUseByRecover := mput (e_Hash e3) b (p_pendingsUseByRecover p2)\<rparr>))"

definition RecoverAlertCurEventFromDb ::
  "alert_ctx \<Rightarrow> caches \<Rightarrow> unit + event list \<Rightarrow> event_processor \<Rightarrow> event_processor"
where
  "RecoverAlertCurEventFromDb ac cs answer p =
     (let p0 = p\<lparr>p_pendings := [], p_pendingsUseByRecover := [], p_fires := []\<rparr>
      in case answer of Inl _ \<Rightarrow> p0 | Inr curEvents \<Rightarrow> fold (load_event ac cs) curEvents p0)"

end
