(* ===== verification/Event_Store.thy ===== *)
theory Event_Store
  imports Event_Process
begin

text \<open>
  The store of the event processor: the laws of the event maps as a locale, the well-formedness of a
  processor (every map entry points into the store, at an event with that hash), and that every
  operation, up to a whole evaluation, keeps it.
\<close>

section \<open>Maps of events\<close>

locale keyed_map =
  fixes set_at :: "'k \<Rightarrow> 'v \<Rightarrow> 'm \<Rightarrow> 'm"
    and get_at :: "'m \<Rightarrow> 'k \<Rightarrow> 'v option"
    and del_at :: "'k \<Rightarrow> 'm \<Rightarrow> 'm"
  assumes get_set: "get_at (set_at k v m) k' = (if k' = k then Some v else get_at m k')"
    and get_del: "get_at (del_at k m) k' = (if k' = k then None else get_at m k')"
begin

lemma get_fold_del: "get_at (fold del_at ks m) k = (if k \<in> set ks then None else get_at m k)"
  by (induction ks arbitrary: m) (auto simp: get_del)

lemma set_set: "get_at (set_at k v (set_at k w m)) k' = get_at (set_at k v m) k'"
  by (simp add: get_set)

lemma del_set_other: "k \<noteq> k' \<Longrightarrow> get_at (del_at k (set_at k' v m)) k' = Some v"
  by (simp add: get_set get_del)

end

interpretation em: keyed_map EventMap_Set EventMap_Get EventMap_Delete
  by unfold_locales (simp_all add: EventMap_Set_def EventMap_Get_def EventMap_Delete_def)

lemmas em_simps [simp] = em.get_set em.get_del em.get_fold_del

lemma EventMap_Get_Nil [simp]: "EventMap_Get [] h = None"
  by (simp add: EventMap_Get_def)

lemma EventMap_Keys_iff: "range_order ord \<Longrightarrow> h \<in> set (EventMap_Keys ord m) \<longleftrightarrow> EventMap_Get m h \<noteq> None"
  by (simp add: EventMap_Keys_def set_range_order in_mkeys_iff mhas_def EventMap_Get_def)

section \<open>Updates of the store\<close>

lemma upd_simps [simp]:
  "p_fires (upd a f p) = p_fires p" "p_pendings (upd a f p) = p_pendings p"
  "p_pendingsUseByRecover (upd a f p) = p_pendingsUseByRecover p" "p_rule (upd a f p) = p_rule p"
  "p_pushed (upd a f p) = p_pushed p" "p_inhibit (upd a f p) = p_inhibit p"
  "p_PromEvalInterval (upd a f p) = p_PromEvalInterval p" "length (p_heap (upd a f p)) = length (p_heap p)"
  by (simp_all add: upd_def)

lemma obj_upd: "a < length (p_heap p) \<Longrightarrow> obj (upd a f p) b = (if b = a then f (obj p a) else obj p b)"
  by (simp add: upd_def nth_list_update)

lemma obj_upd_other [simp]: "b \<noteq> a \<Longrightarrow> obj (upd a f p) b = obj p b"
  by (simp add: upd_def)

lemma obj_upd_cases: "obj (upd a f p) b = obj p b \<or> (b = a \<and> obj (upd a f p) b = f (obj p a))"
  by (cases "a < length (p_heap p)") (auto simp: upd_def nth_list_update list_update_beyond)

lemma UpdateLastEvalTime_simps [simp]:
  "p_fires (EventMap_UpdateLastEvalTime m k t p) = p_fires p"
  "p_pendings (EventMap_UpdateLastEvalTime m k t p) = p_pendings p"
  "p_pendingsUseByRecover (EventMap_UpdateLastEvalTime m k t p) = p_pendingsUseByRecover p"
  "p_rule (EventMap_UpdateLastEvalTime m k t p) = p_rule p"
  "p_pushed (EventMap_UpdateLastEvalTime m k t p) = p_pushed p"
  "p_inhibit (EventMap_UpdateLastEvalTime m k t p) = p_inhibit p"
  "p_PromEvalInterval (EventMap_UpdateLastEvalTime m k t p) = p_PromEvalInterval p"
  "length (p_heap (EventMap_UpdateLastEvalTime m k t p)) = length (p_heap p)"
  by (simp_all add: EventMap_UpdateLastEvalTime_def split: option.split)

lemma obj_UpdateLastEvalTime:
  "EventMap_Get m k = Some f \<Longrightarrow> f < length (p_heap p) \<Longrightarrow>
   obj (EventMap_UpdateLastEvalTime m k t p) b = (if b = f then (obj p f)\<lparr>e_LastEvalTime := t\<rparr> else obj p b)"
  by (simp add: EventMap_UpdateLastEvalTime_def EventMap_Get_def obj_upd)

section \<open>Well-formed processors\<close>

definition map_ok :: "event_map \<Rightarrow> event_processor \<Rightarrow> bool" where
  "map_ok m p \<longleftrightarrow> (\<forall>h a. EventMap_Get m h = Some a \<longrightarrow> a < length (p_heap p) \<and> e_Hash (obj p a) = h)"

definition proc_wf :: "event_processor \<Rightarrow> bool" where
  "proc_wf p \<longleftrightarrow>
     map_ok (p_fires p) p \<and> map_ok (p_pendings p) p \<and> map_ok (p_pendingsUseByRecover p) p \<and>
     (\<forall>a \<in> set (p_pushed p). a < length (p_heap p))"

text \<open>
  The operations change events but never their hashes, and the store only grows: \<open>keeps\<close> says that
  of two states.
\<close>

definition keeps :: "event_processor \<Rightarrow> event_processor \<Rightarrow> bool" where
  "keeps p q \<longleftrightarrow>
     length (p_heap p) \<le> length (p_heap q) \<and>
     (\<forall>a < length (p_heap p). e_Hash (obj q a) = e_Hash (obj p a))"

lemma keeps_refl [simp]: "keeps p p"
  by (simp add: keeps_def)

lemma keeps_trans: "keeps p q \<Longrightarrow> keeps q r \<Longrightarrow> keeps p r"
  by (auto simp: keeps_def)

lemma hash_upd: "(\<And>e. e_Hash (f e) = e_Hash e) \<Longrightarrow> e_Hash (obj (upd a f p) b) = e_Hash (obj p b)"
  using obj_upd_cases [of a f p b] by auto

lemma keeps_upd: "(\<And>e. e_Hash (f e) = e_Hash e) \<Longrightarrow> keeps p (upd a f p)"
  by (simp add: keeps_def hash_upd)

lemma map_ok_keeps: "map_ok m p \<Longrightarrow> keeps p q \<Longrightarrow> map_ok m q"
  unfolding map_ok_def keeps_def by (metis order_less_le_trans)

lemma map_ok_Set: "map_ok m p \<Longrightarrow> a < length (p_heap p) \<Longrightarrow> e_Hash (obj p a) = h \<Longrightarrow> map_ok (EventMap_Set h a m) p"
  by (simp add: map_ok_def)

lemma map_ok_Delete: "map_ok m p \<Longrightarrow> map_ok (EventMap_Delete h m) p"
  by (simp add: map_ok_def)

lemma map_ok_inj: "map_ok m p \<Longrightarrow> EventMap_Get m h = Some a \<Longrightarrow> EventMap_Get m k = Some a \<Longrightarrow> k = h"
  unfolding map_ok_def by metis

lemma map_ok_heap: "map_ok m p \<Longrightarrow> p_heap q = p_heap p \<Longrightarrow> map_ok m q"
  by (simp add: map_ok_def)

lemma proc_wf_keeps:
  assumes "proc_wf p" and "keeps p q" and "p_fires q = p_fires p" and "p_pendings q = p_pendings p"
    and "p_pendingsUseByRecover q = p_pendingsUseByRecover p" and "p_pushed q = p_pushed p"
  shows "proc_wf q"
  using assms map_ok_keeps [OF _ assms(2)] by (auto simp: proc_wf_def keeps_def)

lemma proc_wf_upd: "proc_wf p \<Longrightarrow> (\<And>e. e_Hash (f e) = e_Hash e) \<Longrightarrow> proc_wf (upd a f p)"
  by (rule proc_wf_keeps [OF _ keeps_upd]) simp_all

lemma proc_wf_UpdateLastEvalTime: "proc_wf p \<Longrightarrow> proc_wf (EventMap_UpdateLastEvalTime m k t p)"
  by (auto simp: EventMap_UpdateLastEvalTime_def intro!: proc_wf_upd split: option.split)

lemma hash_UpdateLastEvalTime [simp]: "e_Hash (obj (EventMap_UpdateLastEvalTime m k t p) b) = e_Hash (obj p b)"
  by (auto simp: EventMap_UpdateLastEvalTime_def hash_upd split: option.split)

section \<open>Every operation keeps it\<close>

lemma proc_wf_push: "proc_wf p \<Longrightarrow> a < length (p_heap p) \<Longrightarrow> proc_wf (p\<lparr>p_pushed := p_pushed p @ [a]\<rparr>)"
  by (auto simp: proc_wf_def map_ok_def)

lemma proc_wf_Set_fires:
  "proc_wf p \<Longrightarrow> a < length (p_heap p) \<Longrightarrow>
   proc_wf (p\<lparr>p_fires := EventMap_Set (e_Hash (obj p a)) a (p_fires p)\<rparr>)"
  by (auto simp: proc_wf_def map_ok_def)

lemma pushEventToQueue_wf: "proc_wf p \<Longrightarrow> a < length (p_heap p) \<Longrightarrow> proc_wf (pushEventToQueue a p)"
proof -
  assume wf: "proc_wf p" and a: "a < length (p_heap p)"
  have "proc_wf (upd a (\<lambda>e. e\<lparr>e_LastSentTime := e_LastEvalTime e\<rparr>) p)" by (rule proc_wf_upd [OF wf]) simp
  note set_upd = proc_wf_Set_fires [OF this, of a] and set = proc_wf_Set_fires [OF wf a]
  show ?thesis
    unfolding pushEventToQueue_def Let_def
    by (rule proc_wf_push) (use wf a set_upd set in auto)
qed

lemma fireEvent_wf: "proc_wf p \<Longrightarrow> a < length (p_heap p) \<Longrightarrow> proc_wf (fireEvent a p)"
  by (auto simp: fireEvent_def Let_def intro!: pushEventToQueue_wf proc_wf_upd proc_wf_UpdateLastEvalTime
      split: option.split)

lemma pushEventToQueue_len [simp]: "length (p_heap (pushEventToQueue a p)) = length (p_heap p)"
  by (simp add: pushEventToQueue_def Let_def)

lemma fireEvent_len [simp]: "length (p_heap (fireEvent a p)) = length (p_heap p)"
  by (simp add: fireEvent_def Let_def split: option.split)

lemma inhibitEvent_wf:
  "proc_wf p \<Longrightarrow> \<forall>a \<in> set as. a < length (p_heap p) \<Longrightarrow>
   proc_wf (inhibitEvent as sev p) \<and> length (p_heap (inhibitEvent as sev p)) = length (p_heap p)"
  by (induction as arbitrary: p) (auto simp: fireEvent_wf)

lemma mark_seen_simps [simp]:
  "p_fires (mark_seen a p) = p_fires p" "p_pendings (mark_seen a p) = p_pendings p" "p_rule (mark_seen a p) = p_rule p"
  "p_pushed (mark_seen a p) = p_pushed p" "p_inhibit (mark_seen a p) = p_inhibit p"
  "p_PromEvalInterval (mark_seen a p) = p_PromEvalInterval p" "length (p_heap (mark_seen a p)) = length (p_heap p)"
  "e_Hash (obj (mark_seen a p) b) = e_Hash (obj p b)"
  by (simp_all add: mark_seen_def Let_def hash_upd split: option.split)

lemma mark_seen_wf: "proc_wf p \<Longrightarrow> a < length (p_heap p) \<Longrightarrow> proc_wf (mark_seen a p)"
proof -
  assume wf: "proc_wf p" and a: "a < length (p_heap p)"
  have "proc_wf (p\<lparr>p_pendingsUseByRecover := EventMap_Set (e_Hash (obj p a)) a (p_pendingsUseByRecover p)\<rparr>)"
    using wf a by (auto simp: proc_wf_def map_ok_def)
  then show ?thesis
    using wf by (auto simp: mark_seen_def Let_def intro!: proc_wf_upd proc_wf_UpdateLastEvalTime split: option.split)
qed

lemma pend_event_wf:
  assumes "proc_wf p" and "a < length (p_heap p)"
  shows "proc_wf (snd (pend_event a p))" and "length (p_heap (snd (pend_event a p))) = length (p_heap p)"
proof -
  have "proc_wf (upd a (\<lambda>e. e\<lparr>e_FirstEvalTime := e_LastEvalTime e\<rparr>) (mark_seen a p)
      \<lparr>p_pendings := EventMap_Set (e_Hash (obj p a)) a (p_pendings p)\<rparr>)"
    using proc_wf_upd [OF mark_seen_wf [OF assms], of "\<lambda>e. e\<lparr>e_FirstEvalTime := e_LastEvalTime e\<rparr>" a] assms(2)
    by (auto simp: proc_wf_def map_ok_def hash_upd)
  then show "proc_wf (snd (pend_event a p))" and "length (p_heap (snd (pend_event a p))) = length (p_heap p)"
    using mark_seen_wf [OF assms]
    by (auto simp: pend_event_def Let_def proc_wf_UpdateLastEvalTime split: option.split)
qed

lemma pend_events_wf:
  assumes "proc_wf p" and "\<forall>a \<in> set as \<union> set fs. a < length (p_heap p)"
    and "pend_events as fs sev p = (fs', sev', p')"
  shows "proc_wf p' \<and> length (p_heap p') = length (p_heap p) \<and> (\<forall>a \<in> set fs'. a < length (p_heap p))"
  using assms
proof (induction as arbitrary: fs sev p)
  case Nil
  then show ?case by simp
next
  case (Cons a as)
  obtain b q where q: "pend_event a p = (b, q)" by (cases "pend_event a p")
  have "proc_wf q" and "length (p_heap q) = length (p_heap p)"
    using pend_event_wf [of p a] Cons.prems q by auto
  moreover have "pend_events as (if b then fs @ [a] else fs)
      (if b \<and> sev > e_Severity (obj q a) then e_Severity (obj q a) else sev) q = (fs', sev', p')"
    using Cons.prems(3) q by (cases b) simp_all
  ultimately show ?case using Cons.prems(2) Cons.IH [of q "if b then fs @ [a] else fs"] by (cases b) auto
qed

lemma handleEvent_wf:
  assumes "proc_wf p" and "\<forall>a \<in> set as. a < length (p_heap p)"
  shows "proc_wf (handleEvent as p) \<and> length (p_heap (handleEvent as p)) = length (p_heap p)"
proof -
  obtain fs sev q where q: "pend_events as [] SeverityLowest p = (fs, sev, q)"
    by (cases "pend_events as [] SeverityLowest p") auto
  show ?thesis
    using pend_events_wf [OF assms(1) _ q] assms(2) inhibitEvent_wf [of q fs sev] q
    by (simp add: handleEvent_def)
qed

lemma delete_everywhere_wf: "proc_wf p \<Longrightarrow> proc_wf (delete_everywhere h p)"
  by (auto simp: proc_wf_def delete_everywhere_def map_ok_def)

lemma delete_everywhere_len [simp]: "p_heap (delete_everywhere h p) = p_heap p"
  by (simp add: delete_everywhere_def)

lemma hash_UpdateEvent [simp]: "e_Hash (UpdateEvent ar e) = e_Hash e"
  by (simp add: UpdateEvent_def)

lemma RecoverSingle_wf:
  assumes "RecoverSingle ac cs by h now val vals p = Some q" and "proc_wf p"
  shows "proc_wf q \<and> length (p_heap q) = length (p_heap p)"
proof -
  have "a < length (p_heap p)" if "EventMap_Get (p_fires p) h = Some a" for a
    using assms(2) that by (auto simp: proc_wf_def map_ok_def)
  then show ?thesis
    using assms
    by (auto simp: RecoverSingle_def Let_def
        intro!: pushEventToQueue_wf proc_wf_upd delete_everywhere_wf
        split: if_split_asm option.split_asm bind_splits option.split)
qed

lemma HandleRecoverEvent_wf:
  "HandleRecoverEvent ac cs hs now p = Some q \<Longrightarrow> proc_wf p \<Longrightarrow>
   proc_wf q \<and> length (p_heap q) = length (p_heap p)"
  by (induction hs arbitrary: p) (auto split: bind_splits dest: RecoverSingle_wf)

lemma HandleRecover_wf:
  assumes "HandleRecover ac cs keys now p = Some q" and "proc_wf p"
  shows "proc_wf q"
proof -
  have "proc_wf (p\<lparr>p_pendings := fold EventMap_Delete hs (p_pendings p)\<rparr>)" for hs
    using assms(2) by (auto simp: proc_wf_def map_ok_def split: if_split_asm)
  then show ?thesis using assms(1) HandleRecoverEvent_wf by (auto simp: HandleRecover_def Let_def)
qed

lemma alloc_wf:
  assumes "alloc e p = (a, q)" and "proc_wf p"
  shows "proc_wf q" and "length (p_heap q) = Suc (length (p_heap p))" and "a < length (p_heap q)" and "keeps p q"
proof -
  show k: "keeps p q" using assms(1) by (auto simp: alloc_def keeps_def nth_append)
  show "proc_wf q" by (rule proc_wf_keeps [OF assms(2) k]) (use assms(1) in \<open>auto simp: alloc_def\<close>)
qed (use assms(1) in \<open>auto simp: alloc_def\<close>)

lemma BuildEvent_state:
  assumes "BuildEvent ac cs ap frm now rh p = Some (e, q)"
  shows "\<exists>tm ta. q = p\<lparr>p_tagsMap := tm, p_tagsArr := ta\<rparr>"
  using assms by (auto simp: BuildEvent_def fillTags_def Let_def split: bind_splits)

lemma handle_point_state:
  assumes "handle_point ac cs frm now rh ap p = Some (h, ev, q)"
  shows "\<exists>tm ta. q = p\<lparr>p_tagsMap := tm, p_tagsArr := ta\<rparr>"
  using assms BuildEvent_state
  by (fastforce simp: handle_point_def Let_def split: bind_splits option.split_asm if_split_asm)

lemma proc_wf_tags [simp]: "proc_wf (p\<lparr>p_tagsMap := tm, p_tagsArr := ta\<rparr>) \<longleftrightarrow> proc_wf p"
  by (simp add: proc_wf_def map_ok_def)

text \<open>The addresses collected for the groups of an evaluation all lie in the store.\<close>

definition groups_ok :: "(string, addr list) gomap \<Rightarrow> event_processor \<Rightarrow> bool" where
  "groups_ok evs p \<longleftrightarrow> (\<forall>k as. mget evs k = Some as \<longrightarrow> (\<forall>a \<in> set as. a < length (p_heap p)))"

lemma handle_points_wf:
  assumes "handle_points ac cs frm now rh aps keys evs p = Some (keys', evs', p')" and "proc_wf p" and "groups_ok evs p"
  shows "proc_wf p' \<and> groups_ok evs' p'"
  using assms
proof (induction aps arbitrary: keys evs p)
  case Nil
  then show ?case by simp
next
  case (Cons ap aps)
  from Cons.prems(1) obtain h ev p1 where hp: "handle_point ac cs frm now rh ap p = Some (h, ev, p1)"
    by (auto split: bind_splits)
  then obtain tm ta where p1: "p1 = p\<lparr>p_tagsMap := tm, p_tagsArr := ta\<rparr>" using handle_point_state by blast
  then have wf1: "proc_wf p1" and g1: "groups_ok evs p1" using Cons.prems(2,3) by (simp_all add: groups_ok_def)
  show ?case
  proof (cases ev)
    case None
    with Cons hp wf1 g1 show ?thesis by auto
  next
    case (Some e)
    obtain a p2 where al: "alloc e p1 = (a, p2)" by (cases "alloc e p1")
    have "groups_ok evs p2" using g1 alloc_wf(2) [OF al wf1] by (auto simp: groups_ok_def less_Suc_eq)
    then have "groups_ok (mappend (TagHash ac ap) a evs) p2"
      using alloc_wf(3) [OF al wf1] by (cases "mget evs (TagHash ac ap)") (auto simp: groups_ok_def split: if_split_asm)
    with Cons hp Some al alloc_wf(1) [OF al wf1] show ?thesis by auto
  qed
qed

lemma fold_handleEvent_wf:
  assumes "proc_wf p" and "groups_ok evs p"
  shows "proc_wf (fold (\<lambda>k. handleEvent (case mget evs k of None \<Rightarrow> [] | Some as \<Rightarrow> as)) ks p)"
  using assms
proof (induction ks arbitrary: p)
  case Nil
  then show ?case by simp
next
  case (Cons k ks)
  let ?as = "case mget evs k of None \<Rightarrow> [] | Some as \<Rightarrow> as"
  have "\<forall>a \<in> set ?as. a < length (p_heap p)" using Cons.prems(2) by (cases "mget evs k") (auto simp: groups_ok_def)
  from handleEvent_wf [OF Cons.prems(1) this] Cons show ?case by (simp add: groups_ok_def)
qed

lemma fire_points_wf:
  assumes "fire_points ac cs frm now rh aps p = Some (keys, q)" and "proc_wf p"
  shows "proc_wf q"
proof -
  have "groups_ok [] p" by (simp add: groups_ok_def)
  with assms show ?thesis
    by (auto simp: fire_points_def split: bind_splits dest!: handle_points_wf intro: fold_handleEvent_wf)
qed

text \<open>The hashes an evaluation has seen are those of its points, whatever the pipeline and the mutes do with the events.\<close>

lemma BuildEvent_hash:
  assumes "BuildEvent ac cs ap frm now rh p = Some (e, q)"
  shows "e_Hash e = event_hash ac (r_Id (p_rule p)) (p_datasourceId p) ap"
proof -
  have [simp]: "e_Hash (mayHandleIdent tc e) = e_Hash e" "e_Hash (fill_target cs e) = e_Hash e" for tc e
    by (auto simp: mayHandleIdent_def fill_target_def split: option.split)
  have rel: "e_Hash r = e_Hash e" if "Relabel_event x ar e = Some r" for x ar e r
    using that by (auto simp: Relabel_event_def EventRelabel_def set_event_labels_def Let_def split: if_split_asm bind_splits)
  show ?thesis
    using assms
    by (auto simp: BuildEvent_def fillTags_def Let_def split: bind_splits dest!: rel split: option.split_asm if_split_asm)
qed

lemma handle_points_keys:
  assumes "handle_points ac cs frm now rh aps keys evs p = Some (keys', evs', p')"
  shows "set keys' = set keys \<union> event_hash ac (r_Id (p_rule p)) (p_datasourceId p) ` set aps"
  using assms
proof (induction aps arbitrary: keys evs p)
  case (Cons ap aps)
  from Cons.prems obtain h ev p1 where hp: "handle_point ac cs frm now rh ap p = Some (h, ev, p1)"
    by (auto split: bind_splits)
  then have h: "h = event_hash ac (r_Id (p_rule p)) (p_datasourceId p) ap"
    by (auto simp: handle_point_def Let_def split: bind_splits option.split_asm if_split_asm dest!: BuildEvent_hash)
  obtain tm ta where p1: "p1 = p\<lparr>p_tagsMap := tm, p_tagsArr := ta\<rparr>" using handle_point_state [OF hp] by blast
  show ?case
    using Cons.prems hp h p1
    by (cases ev) (auto simp: alloc_def dest!: Cons.IH)
qed simp

lemma Handle_wf:
  assumes "Handle ac cs now aps frm inh p = Some q" and "proc_wf p"
  shows "proc_wf q"
proof -
  have base: "proc_wf (p\<lparr>p_inhibit := inh\<rparr>)" "proc_wf (p\<lparr>p_inhibit := inh, p_rule := r\<rparr>)" for r
    using assms(2) by (simp_all add: proc_wf_def map_ok_def)
  show ?thesis
    using assms(1) base
    by (auto simp: Handle_def Let_def split: option.split_asm bind_splits if_split_asm
        dest!: fire_points_wf HandleRecover_wf)
qed

lemma load_pair_wf:
  assumes "proc_wf p" and "alloc e p = (a, q)" and "alloc e q = (b, r)"
  shows "proc_wf (r\<lparr>p_fires := mput (e_Hash e) a (p_fires r),
      p_pendingsUseByRecover := mput (e_Hash e) b (p_pendingsUseByRecover r)\<rparr>)"
proof -
  have r: "proc_wf r" "a < length (p_heap r)" "b < length (p_heap r)"
    using assms alloc_wf [OF assms(2,1)] alloc_wf [OF assms(3)] by auto
  moreover have "obj r a = e" "obj r b = e" using assms by (auto simp: alloc_def nth_append)
  ultimately show ?thesis by (auto simp: proc_wf_def map_ok_def EventMap_Get_def)
qed

lemma load_event_wf: "proc_wf p \<Longrightarrow> proc_wf (load_event ac cs e p)"
proof -
  assume wf: "proc_wf p"
  have "proc_wf (case alloc d p of (a, q) \<Rightarrow> case alloc d q of (b, r) \<Rightarrow>
      r\<lparr>p_fires := mput (e_Hash d) a (p_fires r), p_pendingsUseByRecover := mput (e_Hash d) b (p_pendingsUseByRecover r)\<rparr>)"
    for d using load_pair_wf [OF wf] by (simp split: prod.split)
  with wf show ?thesis by (simp add: load_event_def Let_def split: option.split)
qed

lemma RecoverAlertCurEventFromDb_wf:
  assumes "proc_wf p"
  shows "proc_wf (RecoverAlertCurEventFromDb ac cs answer p)"
proof -
  have "proc_wf (p\<lparr>p_pendings := [], p_pendingsUseByRecover := [], p_fires := []\<rparr>)"
    using assms by (simp add: proc_wf_def map_ok_def)
  moreover have "proc_wf (fold (load_event ac cs) es q)" if "proc_wf q" for es q
    using that by (induction es arbitrary: q) (simp_all add: load_event_wf)
  ultimately show ?thesis by (auto simp: RecoverAlertCurEventFromDb_def Let_def split: sum.split)
qed

end
