(* ===== verification/Event_Notify.thy ===== *)
theory Event_Notify
  imports Event_Store
begin

text \<open>
  What the event processor promises: when an alert is notified and how often (a specification machine
  with one state per alert, and the refinement of \<open>fireEvent\<close> to it), when a pending alert fires,
  which events of a group are inhibited, and which alerts recover.
\<close>

section \<open>The notification machine of one alert\<close>

text \<open>
  The state of an alert is absent (not firing) or the number of its last notification, with 0 for an
  alert that was only recorded under a notify-only mute, and the time of the last notification.
\<close>

type_synonym notify_state = "(int \<times> int) option"

text \<open>Whether an evaluation at time \<open>t\<close> is put on the queue, and under which number.\<close>

fun notify_decision :: "alert_rule \<Rightarrow> bool \<Rightarrow> int \<Rightarrow> notify_state \<Rightarrow> int option" where
  "notify_decision rule True t None = Some 0"
| "notify_decision rule True t (Some _) = None"
| "notify_decision rule False t None = Some 1"
| "notify_decision rule False t (Some (n, sent)) =
     (if n = 0 then Some 1
      else if r_NotifyRepeatStep rule \<noteq> 0 \<and> sent + r_NotifyRepeatStep rule * 60 \<le> t \<and>
              (r_NotifyMaxNumber rule = 0 \<or> n < r_NotifyMaxNumber rule)
      then Some (n + 1) else None)"

definition notify_step :: "alert_rule \<Rightarrow> bool \<Rightarrow> int \<Rightarrow> int \<Rightarrow> notify_state \<Rightarrow> notify_state" where
  "notify_step rule muted sent0 t st =
     (case notify_decision rule muted t st of
        None \<Rightarrow> st
      | Some n \<Rightarrow> Some (n, if muted then sent0 else t))"

definition alert_state :: "event_processor \<Rightarrow> string \<Rightarrow> notify_state" where
  "alert_state p h =
     map_option (\<lambda>a. (e_NotifyCurNumber (obj p a), e_LastSentTime (obj p a))) (EventMap_Get (p_fires p) h)"

definition unfired :: "addr \<Rightarrow> event_processor \<Rightarrow> bool" where
  "unfired a p \<longleftrightarrow> a < length (p_heap p) \<and> \<not> e_IsRecovered (obj p a) \<and> (\<forall>h. EventMap_Get (p_fires p) h \<noteq> Some a)"

lemma obj_push:
  "a < length (p_heap p) \<Longrightarrow> obj (pushEventToQueue a p) b =
     (if b = a \<and> \<not> e_IsRecovered (obj p a) \<and> e_NotifyMuted (obj p a) \<noteq> 1
      then (obj p a)\<lparr>e_LastSentTime := e_LastEvalTime (obj p a)\<rparr> else obj p b)"
  by (auto simp: pushEventToQueue_def Let_def obj_upd)

lemma push_simps [simp]:
  "p_pushed (pushEventToQueue a p) = p_pushed p @ [a]"
  "p_rule (pushEventToQueue a p) = p_rule p"
  "p_pendings (pushEventToQueue a p) = p_pendings p"
  "p_pendingsUseByRecover (pushEventToQueue a p) = p_pendingsUseByRecover p"
  "p_inhibit (pushEventToQueue a p) = p_inhibit p"
  "p_PromEvalInterval (pushEventToQueue a p) = p_PromEvalInterval p"
  by (simp_all add: pushEventToQueue_def Let_def)

lemma fires_push [simp]:
  "EventMap_Get (p_fires (pushEventToQueue a p)) h =
     (if \<not> e_IsRecovered (obj p a) \<and> h = e_Hash (obj p a) then Some a else EventMap_Get (p_fires p) h)"
  by (auto simp: pushEventToQueue_def Let_def hash_upd)

text \<open>The state that a firing alert has before the decision is taken.\<close>

definition touched :: "addr \<Rightarrow> addr \<Rightarrow> event_processor \<Rightarrow> event_processor" where
  "touched a f p =
     upd a (\<lambda>e. e\<lparr>e_FirstTriggerTime := e_FirstTriggerTime (obj p f)\<rparr>)
       (upd f (\<lambda>e. e\<lparr>e_LastEvalTime := e_LastEvalTime (obj p a)\<rparr>) p)"

lemma touched_simps [simp]:
  "p_fires (touched a f p) = p_fires p" "p_pushed (touched a f p) = p_pushed p" "p_rule (touched a f p) = p_rule p"
  "length (p_heap (touched a f p)) = length (p_heap p)"
  by (simp_all add: touched_def)

lemma obj_touched:
  assumes "a < length (p_heap p)" and "f < length (p_heap p)" and "f \<noteq> a"
  shows "obj (touched a f p) b =
    (if b = a then (obj p a)\<lparr>e_FirstTriggerTime := e_FirstTriggerTime (obj p f)\<rparr>
     else if b = f then (obj p f)\<lparr>e_LastEvalTime := e_LastEvalTime (obj p a)\<rparr> else obj p b)"
  using assms by (simp add: touched_def obj_upd)

text \<open>One shape for the branches of \<open>fireEvent\<close>: what it decides, in the words of the machine.\<close>

lemma fireEvent_shape:
  assumes "proc_wf p" and "unfired a p"
  shows "fireEvent a p =
    (let e = obj p a; h = e_Hash e;
         d = notify_decision (p_rule p) (e_NotifyMuted e = 1) (e_LastEvalTime e) (alert_state p h);
         p1 = (case EventMap_Get (p_fires p) h of
                 None \<Rightarrow> upd a (\<lambda>e. e\<lparr>e_FirstTriggerTime := e_TriggerTime e\<rparr>) p
               | Some f \<Rightarrow> touched a f p)
     in case d of None \<Rightarrow> p1 | Some n \<Rightarrow> pushEventToQueue a (upd a (\<lambda>e. e\<lparr>e_NotifyCurNumber := n\<rparr>) p1))"
proof (cases "EventMap_Get (p_fires p) (e_Hash (obj p a))")
  case None
  have "upd a f (upd a g p) = upd a (\<lambda>e. f (g e)) p" for f g
    using assms(2) by (simp add: upd_def unfired_def)
  moreover have "upd a (\<lambda>e. e\<lparr>e_NotifyCurNumber := n, e_FirstTriggerTime := e_TriggerTime e\<rparr>) p =
      upd a (\<lambda>e. e\<lparr>e_FirstTriggerTime := e_TriggerTime e, e_NotifyCurNumber := n\<rparr>) p" for n
    by (rule arg_cong [where f = "\<lambda>g. upd a g p"]) (simp add: fun_eq_iff)
  ultimately show ?thesis using None by (simp add: fireEvent_def Let_def alert_state_def)
next
  case (Some f)
  then have f: "f < length (p_heap p)" "f \<noteq> a" and a: "a < length (p_heap p)"
    using assms by (auto simp: proc_wf_def map_ok_def unfired_def)
  have "EventMap_UpdateLastEvalTime (p_fires p) (e_Hash (obj p a)) (e_LastEvalTime (obj p a)) p =
      upd f (\<lambda>e. e\<lparr>e_LastEvalTime := e_LastEvalTime (obj p a)\<rparr>) p"
    using Some by (simp add: EventMap_UpdateLastEvalTime_def EventMap_Get_def)
  moreover have "e_FirstTriggerTime (obj (upd f (\<lambda>e. e\<lparr>e_LastEvalTime := t\<rparr>) p) f) = e_FirstTriggerTime (obj p f)" for t
    using f by (simp add: obj_upd)
  ultimately show ?thesis
    using Some f a obj_touched [OF a f]
    by (simp add: fireEvent_def Let_def alert_state_def touched_def [symmetric] obj_upd)
qed

text \<open>The event after the firing, as far as notification is concerned.\<close>

lemma fireEvent_obj:
  assumes "proc_wf p" and "unfired a p"
    and "d = notify_decision (p_rule p) (e_NotifyMuted (obj p a) = 1) (e_LastEvalTime (obj p a)) (alert_state p (e_Hash (obj p a)))"
  shows "e_Hash (obj (fireEvent a p) b) = e_Hash (obj p b)"
    and "e_NotifyMuted (obj (fireEvent a p) b) = e_NotifyMuted (obj p b)"
    and "e_NotifyCurNumber (obj (fireEvent a p) b) =
      (if b = a \<and> d \<noteq> None then the d else e_NotifyCurNumber (obj p b))"
    and "e_LastSentTime (obj (fireEvent a p) b) =
      (if b = a \<and> d \<noteq> None \<and> e_NotifyMuted (obj p a) \<noteq> 1 then e_LastEvalTime (obj p a) else e_LastSentTime (obj p b))"
    and "e_IsRecovered (obj (fireEvent a p) b) = e_IsRecovered (obj p b)"
proof -
  have a: "a < length (p_heap p)" "\<not> e_IsRecovered (obj p a)" using assms(2) by (simp_all add: unfired_def)
  have f: "f < length (p_heap p)" "f \<noteq> a" if "EventMap_Get (p_fires p) h = Some f" for f h
    using assms(1,2) that by (auto simp: proc_wf_def map_ok_def unfired_def)
  note shape = fireEvent_shape [OF assms(1,2), unfolded Let_def, folded assms(3)]
  show "e_Hash (obj (fireEvent a p) b) = e_Hash (obj p b)"
    and "e_NotifyMuted (obj (fireEvent a p) b) = e_NotifyMuted (obj p b)"
    and "e_NotifyCurNumber (obj (fireEvent a p) b) =
      (if b = a \<and> d \<noteq> None then the d else e_NotifyCurNumber (obj p b))"
    and "e_LastSentTime (obj (fireEvent a p) b) =
      (if b = a \<and> d \<noteq> None \<and> e_NotifyMuted (obj p a) \<noteq> 1 then e_LastEvalTime (obj p a) else e_LastSentTime (obj p b))"
    and "e_IsRecovered (obj (fireEvent a p) b) = e_IsRecovered (obj p b)"
    unfolding shape using a f
    by (simp_all add: obj_push obj_upd obj_touched split: option.split)
qed

lemma fireEvent_fires:
  assumes "proc_wf p" and "unfired a p"
    and "d = notify_decision (p_rule p) (e_NotifyMuted (obj p a) = 1) (e_LastEvalTime (obj p a)) (alert_state p (e_Hash (obj p a)))"
  shows "EventMap_Get (p_fires (fireEvent a p)) h =
      (if d \<noteq> None \<and> h = e_Hash (obj p a) then Some a else EventMap_Get (p_fires p) h)"
    and "p_pushed (fireEvent a p) = p_pushed p @ (if d = None then [] else [a])"
    and "p_rule (fireEvent a p) = p_rule p"
proof -
  have a: "a < length (p_heap p)" "\<not> e_IsRecovered (obj p a)" using assms(2) by (simp_all add: unfired_def)
  have f: "f < length (p_heap p)" "f \<noteq> a" if "EventMap_Get (p_fires p) h = Some f" for f h
    using assms(1,2) that by (auto simp: proc_wf_def map_ok_def unfired_def)
  note shape = fireEvent_shape [OF assms(1,2), unfolded Let_def, folded assms(3)]
  show "EventMap_Get (p_fires (fireEvent a p)) h =
      (if d \<noteq> None \<and> h = e_Hash (obj p a) then Some a else EventMap_Get (p_fires p) h)"
    and "p_pushed (fireEvent a p) = p_pushed p @ (if d = None then [] else [a])"
    and "p_rule (fireEvent a p) = p_rule p"
    unfolding shape using a f by (simp_all add: obj_upd obj_touched split: option.split)
qed

lemma fireEvent_state:
  assumes "proc_wf p" and "unfired a p"
  shows "alert_state (fireEvent a p) h =
    (if h = e_Hash (obj p a)
     then notify_step (p_rule p) (e_NotifyMuted (obj p a) = 1) (e_LastSentTime (obj p a)) (e_LastEvalTime (obj p a))
            (alert_state p h)
     else alert_state p h)"
proof -
  define d where "d = notify_decision (p_rule p) (e_NotifyMuted (obj p a) = 1) (e_LastEvalTime (obj p a))
      (alert_state p (e_Hash (obj p a)))"
  have "EventMap_Get (p_fires p) h' \<noteq> Some a" for h' using assms(2) by (simp add: unfired_def)
  then show ?thesis
    using fireEvent_fires(1) [OF assms d_def, of h] fireEvent_obj(3,4) [OF assms d_def]
    by (cases "EventMap_Get (p_fires p) h")
      (auto simp: alert_state_def notify_step_def d_def [symmetric, unfolded alert_state_def] split: option.split)
qed

section \<open>Runs of firings\<close>

text \<open>An evaluation gives a new event object to \<open>fireEvent\<close>.\<close>

definition fire_new :: "event \<Rightarrow> event_processor \<Rightarrow> event_processor" where
  "fire_new e p = (let (a, p') = alloc e p in fireEvent a p')"

text \<open>The notifications sent for an alert: number and time of the queued events that are not muted.\<close>

definition sent :: "string \<Rightarrow> event_processor \<Rightarrow> (int \<times> int) list" where
  "sent h p =
     map (\<lambda>a. (e_NotifyCurNumber (obj p a), e_LastSentTime (obj p a)))
       (filter (\<lambda>a. e_Hash (obj p a) = h \<and> e_NotifyMuted (obj p a) \<noteq> 1) (p_pushed p))"

lemma alloc_unfired:
  assumes "proc_wf p" and "\<not> e_IsRecovered e" and "alloc e p = (a, q)"
  shows "unfired a q" and "obj q a = e" and "alert_state q = alert_state p" and "p_rule q = p_rule p"
    and "p_pushed q = p_pushed p" and "sent h q = sent h p"
proof -
  have "\<forall>b \<in> set (p_pushed p). b < length (p_heap p)" using assms(1) by (simp add: proc_wf_def)
  then show "sent h q = sent h p"
    using assms(3) by (auto simp: sent_def alloc_def nth_append intro!: map_cong filter_cong)
  show "alert_state q = alert_state p"
    using assms(1,3) by (auto simp: alert_state_def alloc_def nth_append proc_wf_def map_ok_def fun_eq_iff intro!: option.map_cong0)
  show "unfired a q" using assms by (fastforce simp: alloc_def unfired_def proc_wf_def map_ok_def)
qed (use assms in \<open>auto simp: alloc_def\<close>)

lemma fire_new_wf: "proc_wf p \<Longrightarrow> proc_wf (fire_new e p)"
  using alloc_wf(1,3) [of e p] fireEvent_wf by (cases "alloc e p") (auto simp: fire_new_def)

lemma fire_new_state:
  assumes "proc_wf p" and "\<not> e_IsRecovered e"
  shows "alert_state (fire_new e p) h =
      (if h = e_Hash e then notify_step (p_rule p) (e_NotifyMuted e = 1) (e_LastSentTime e) (e_LastEvalTime e) (alert_state p h)
       else alert_state p h)"
    and "sent h (fire_new e p) = sent h p @
      (case notify_decision (p_rule p) (e_NotifyMuted e = 1) (e_LastEvalTime e) (alert_state p (e_Hash e)) of
         None \<Rightarrow> [] | Some n \<Rightarrow> if h = e_Hash e \<and> e_NotifyMuted e \<noteq> 1 then [(n, e_LastEvalTime e)] else [])"
    and "p_rule (fire_new e p) = p_rule p"
proof -
  obtain a q where al: "alloc e p = (a, q)" by (cases "alloc e p")
  note u = alloc_unfired [OF assms al] and w = alloc_wf [OF al assms(1)]
  define d where "d = notify_decision (p_rule q) (e_NotifyMuted (obj q a) = 1) (e_LastEvalTime (obj q a))
      (alert_state q (e_Hash (obj q a)))"
  have new: "a \<notin> set (p_pushed p)" using assms(1) al by (auto simp: proc_wf_def alloc_def)
  show "alert_state (fire_new e p) h =
      (if h = e_Hash e then notify_step (p_rule p) (e_NotifyMuted e = 1) (e_LastSentTime e) (e_LastEvalTime e) (alert_state p h)
       else alert_state p h)" and "p_rule (fire_new e p) = p_rule p"
    using fireEvent_state [OF w(1) u(1)] fireEvent_fires(3) [OF w(1) u(1) d_def] u al by (simp_all add: fire_new_def)
  have "sent h (fireEvent a q) = sent h q @ (if d \<noteq> None \<and> h = e_Hash e \<and> e_NotifyMuted e \<noteq> 1
      then [(the d, e_LastEvalTime e)] else [])"
    using new u(2,5) unfolding sent_def fireEvent_fires(2) [OF w(1) u(1) d_def] fireEvent_obj [OF w(1) u(1) d_def]
    by (auto intro!: map_cong)
  then show "sent h (fire_new e p) = sent h p @
      (case notify_decision (p_rule p) (e_NotifyMuted e = 1) (e_LastEvalTime e) (alert_state p (e_Hash e)) of
         None \<Rightarrow> [] | Some n \<Rightarrow> if h = e_Hash e \<and> e_NotifyMuted e \<noteq> 1 then [(n, e_LastEvalTime e)] else [])"
    using u al d_def by (auto simp: fire_new_def split: option.split)
qed

text \<open>What holds of the notifications of one alert at every point of a run.\<close>

definition spaced :: "int \<Rightarrow> (int \<times> int) list \<Rightarrow> bool" where
  "spaced gap s \<longleftrightarrow> (\<forall>i. Suc i < length s \<longrightarrow> snd (s ! i) + gap \<le> snd (s ! Suc i))"

definition run_inv :: "alert_rule \<Rightarrow> notify_state \<Rightarrow> (int \<times> int) list \<Rightarrow> bool" where
  "run_inv rule st s \<longleftrightarrow>
     map fst s = map (\<lambda>i. int i + 1) [0..<length s] \<and>
     spaced (r_NotifyRepeatStep rule * 60) s \<and>
     (r_NotifyMaxNumber rule > 0 \<longrightarrow> int (length s) \<le> r_NotifyMaxNumber rule) \<and>
     (r_NotifyRepeatStep rule = 0 \<longrightarrow> length s \<le> 1) \<and>
     (if s = [] then st = None \<or> (\<exists>t. st = Some (0, t)) else st = Some (last s))"

lemma spaced_snoc:
  assumes "spaced gap s" and "s = [] \<or> snd (last s) + gap \<le> t"
  shows "spaced gap (s @ [(n, t)])"
  unfolding spaced_def
proof (intro allI impI)
  fix i
  assume "Suc i < length (s @ [(n, t)])"
  then consider "Suc i < length s" | "length s = Suc i" by fastforce
  then show "snd ((s @ [(n, t)]) ! i) + gap \<le> snd ((s @ [(n, t)]) ! Suc i)"
  proof cases
    case 1
    then show ?thesis using assms(1) by (simp add: spaced_def nth_append)
  next
    case 2
    then have "s \<noteq> []" by auto
    with 2 show ?thesis using assms(2) by (simp add: nth_append last_conv_nth)
  qed
qed

lemma run_inv_last: "run_inv rule st s \<Longrightarrow> s \<noteq> [] \<Longrightarrow> st = Some (int (length s), snd (last s))"
proof -
  assume inv: "run_inv rule st s" and ne: "s \<noteq> []"
  then have "last (map fst s) = last (map (\<lambda>i. int i + 1) [0..<length s])" by (simp add: run_inv_def)
  then have "fst (last s) = int (length s)" using ne by (cases s rule: rev_cases) (simp_all add: last_map)
  then show ?thesis using inv ne by (cases "last s") (simp add: run_inv_def)
qed

lemma run_inv_step:
  assumes "run_inv rule st s"
  shows "run_inv rule (notify_step rule muted sent0 t st)
    (s @ (case notify_decision rule muted t st of None \<Rightarrow> [] | Some n \<Rightarrow> if muted then [] else [(n, t)]))"
proof (cases "s = []")
  case True
  then have "st = None \<or> (\<exists>t. st = Some (0, t))" using assms by (simp add: run_inv_def)
  then show ?thesis
    using True by (cases muted) (auto simp: notify_step_def run_inv_def spaced_def)
next
  case False
  define lt where "lt = snd (last s)"
  have st: "st = Some (int (length s), lt)" using run_inv_last [OF assms False] by (simp add: lt_def)
  then have last: "last s = (int (length s), lt)" and inv: "map fst s = map (\<lambda>i. int i + 1) [0..<length s]"
      "spaced (r_NotifyRepeatStep rule * 60) s"
      "r_NotifyMaxNumber rule > 0 \<longrightarrow> int (length s) \<le> r_NotifyMaxNumber rule"
      "r_NotifyRepeatStep rule = 0 \<longrightarrow> length s \<le> 1"
    using assms False by (auto simp: run_inv_def)
  show ?thesis
  proof (cases "notify_decision rule muted t st")
    case None
    then show ?thesis using assms by (simp add: notify_step_def)
  next
    case (Some n)
    then have "\<not> muted" using st by (cases muted) auto
    with Some st False have "n = int (length s) + 1" "r_NotifyRepeatStep rule \<noteq> 0" "lt + r_NotifyRepeatStep rule * 60 \<le> t"
      "r_NotifyMaxNumber rule = 0 \<or> int (length s) < r_NotifyMaxNumber rule"
      by (auto split: if_split_asm)
    then show ?thesis
      using Some st \<open>\<not> muted\<close> inv last spaced_snoc [OF inv(2), of t n] by (auto simp: notify_step_def run_inv_def)
  qed
qed

lemma fire_run_inv:
  assumes "proc_wf p" and "run_inv (p_rule p) (alert_state p h) (sent h p)" and "\<forall>e \<in> set es. \<not> e_IsRecovered e"
  shows "run_inv (p_rule p) (alert_state (fold fire_new es p) h) (sent h (fold fire_new es p))"
  using assms
proof (induction es arbitrary: p)
  case Nil
  then show ?case by simp
next
  case (Cons e es)
  then have e: "\<not> e_IsRecovered e" by simp
  note st = fire_new_state [OF Cons.prems(1) e]
  have "run_inv (p_rule p) (alert_state (fire_new e p) h) (sent h (fire_new e p))"
    using Cons.prems(2) run_inv_step [OF Cons.prems(2), of "e_NotifyMuted e = 1" "e_LastSentTime e" "e_LastEvalTime e"]
    unfolding st by (cases "h = e_Hash e") (auto split: option.split_asm option.split)
  then show ?case using Cons.IH [OF fire_new_wf [OF Cons.prems(1)], of e] Cons.prems(3) st(3) by simp
qed

section \<open>The duration of a rule\<close>

text \<open>An evaluation gives a new event object to the first loop of \<open>handleEvent\<close>.\<close>

definition pend_new :: "event \<Rightarrow> event_processor \<Rightarrow> bool \<times> event_processor" where
  "pend_new e p = (let (a, p') = alloc e p in pend_event a p')"

fun pend_run :: "event list \<Rightarrow> event_processor \<Rightarrow> bool list \<times> event_processor" where
  "pend_run [] p = ([], p)"
| "pend_run (e # es) p =
     (let (b, p') = pend_new e p; (bs, q) = pend_run es p' in (b # bs, q))"

definition first_eval :: "event_processor \<Rightarrow> string \<Rightarrow> int option" where
  "first_eval p h = map_option (\<lambda>a. e_FirstEvalTime (obj p a)) (EventMap_Get (p_pendings p) h)"

lemma mark_seen_obj:
  assumes "proc_wf p" and "a < length (p_heap p)" and "\<forall>h. EventMap_Get (p_pendingsUseByRecover p) h \<noteq> Some a"
  shows "e_FirstEvalTime (obj (mark_seen a p) b) = e_FirstEvalTime (obj p b)"
    and "e_Severity (obj (mark_seen a p) b) = e_Severity (obj p b)"
    and "e_LastEvalTime (obj (mark_seen a p) a) = e_LastEvalTime (obj p a)"
    and "e_PromEvalInterval (obj (mark_seen a p) a) = p_PromEvalInterval p"
proof -
  have "c < length (p_heap p)" "c \<noteq> a" if "EventMap_Get (p_pendingsUseByRecover p) k = Some c" for c k
    using that assms by (auto simp: proc_wf_def map_ok_def)
  then show "e_FirstEvalTime (obj (mark_seen a p) b) = e_FirstEvalTime (obj p b)"
    and "e_Severity (obj (mark_seen a p) b) = e_Severity (obj p b)"
    and "e_LastEvalTime (obj (mark_seen a p) a) = e_LastEvalTime (obj p a)"
    and "e_PromEvalInterval (obj (mark_seen a p) a) = p_PromEvalInterval p"
    using assms(2) by (auto simp: mark_seen_def Let_def obj_upd obj_UpdateLastEvalTime split: option.split)
qed

definition unpended :: "addr \<Rightarrow> event_processor \<Rightarrow> bool" where
  "unpended a p \<longleftrightarrow> a < length (p_heap p) \<and> (\<forall>h. EventMap_Get (p_pendings p) h \<noteq> Some a) \<and>
     (\<forall>h. EventMap_Get (p_pendingsUseByRecover p) h \<noteq> Some a)"

lemma pend_event_first_eval:
  assumes "proc_wf p" and "unpended a p" and "r_PromForDuration (p_rule p) \<noteq> 0"
    and "h = e_Hash (obj p a)" and "t = e_LastEvalTime (obj p a)"
  shows "first_eval (snd (pend_event a p)) k =
      (if k = h \<and> first_eval p h = None then Some t else first_eval p k)"
    and "fst (pend_event a p) \<longleftrightarrow>
      t - (case first_eval p h of None \<Rightarrow> t | Some t0 \<Rightarrow> t0) + p_PromEvalInterval p \<ge> r_PromForDuration (p_rule p)"
    and "p_rule (snd (pend_event a p)) = p_rule p" and "p_PromEvalInterval (snd (pend_event a p)) = p_PromEvalInterval p"
proof -
  have a: "a < length (p_heap p)" using assms(2) by (simp add: unpended_def)
  have b: "b < length (p_heap p)" "b \<noteq> a" if "EventMap_Get (p_pendings p) k = Some b" for b k
    using that assms(1,2) by (auto simp: proc_wf_def map_ok_def unpended_def)
  note seen = mark_seen_obj [OF assms(1) a] and un = assms(2)[unfolded unpended_def]
  show "p_rule (snd (pend_event a p)) = p_rule p" "p_PromEvalInterval (snd (pend_event a p)) = p_PromEvalInterval p"
    by (simp_all add: pend_event_def Let_def split: option.split)
  show "fst (pend_event a p) \<longleftrightarrow>
      t - (case first_eval p h of None \<Rightarrow> t | Some t0 \<Rightarrow> t0) + p_PromEvalInterval p \<ge> r_PromForDuration (p_rule p)"
    using assms(3-) a b un
    by (cases "EventMap_Get (p_pendings p) h")
      (auto simp: pend_event_def Let_def first_eval_def seen obj_upd obj_UpdateLastEvalTime)
  show "first_eval (snd (pend_event a p)) k =
      (if k = h \<and> first_eval p h = None then Some t else first_eval p k)"
    using assms(3-) a b un
    by (cases "EventMap_Get (p_pendings p) h"; cases "EventMap_Get (p_pendings p) k")
      (auto simp: pend_event_def Let_def first_eval_def seen obj_upd obj_UpdateLastEvalTime)
qed

lemma pend_new_first_eval:
  assumes "proc_wf p" and "r_PromForDuration (p_rule p) \<noteq> 0"
  shows "first_eval (snd (pend_new e p)) k =
      (if k = e_Hash e \<and> first_eval p k = None then Some (e_LastEvalTime e) else first_eval p k)"
    and "fst (pend_new e p) \<longleftrightarrow>
      e_LastEvalTime e - (case first_eval p (e_Hash e) of None \<Rightarrow> e_LastEvalTime e | Some t0 \<Rightarrow> t0) + p_PromEvalInterval p
        \<ge> r_PromForDuration (p_rule p)"
    and "p_rule (snd (pend_new e p)) = p_rule p" and "p_PromEvalInterval (snd (pend_new e p)) = p_PromEvalInterval p"
    and "proc_wf (snd (pend_new e p))"
proof -
  obtain a q where al: "alloc e p = (a, q)" by (cases "alloc e p")
  have q: "p_rule q = p_rule p" "p_PromEvalInterval q = p_PromEvalInterval p" "obj q a = e"
    using al by (auto simp: alloc_def)
  have "unpended a q" using al assms(1) by (fastforce simp: unpended_def alloc_def proc_wf_def map_ok_def)
  note step = pend_event_first_eval [OF alloc_wf(1) [OF al assms(1)] this assms(2) [folded q(1)] refl refl]
  have "first_eval q = first_eval p"
    using al assms(1) by (auto simp: first_eval_def alloc_def nth_append proc_wf_def map_ok_def fun_eq_iff
        intro!: option.map_cong0)
  with step q al show "first_eval (snd (pend_new e p)) k =
      (if k = e_Hash e \<and> first_eval p k = None then Some (e_LastEvalTime e) else first_eval p k)"
    and "fst (pend_new e p) \<longleftrightarrow>
      e_LastEvalTime e - (case first_eval p (e_Hash e) of None \<Rightarrow> e_LastEvalTime e | Some t0 \<Rightarrow> t0) + p_PromEvalInterval p
        \<ge> r_PromForDuration (p_rule p)"
    and "p_rule (snd (pend_new e p)) = p_rule p" and "p_PromEvalInterval (snd (pend_new e p)) = p_PromEvalInterval p"
    by (auto simp: pend_new_def)
  show "proc_wf (snd (pend_new e p))"
    using pend_event_wf(1) [OF alloc_wf(1,3) [OF al assms(1)]] al by (simp add: pend_new_def)
qed

text \<open>Once an alert is pending, its evaluations are all measured against the first one.\<close>

lemma pend_run_known:
  assumes "proc_wf p" and "r_PromForDuration (p_rule p) \<noteq> 0" and "\<forall>e \<in> set es. e_Hash e = h" and "first_eval p h = Some t0"
  shows "fst (pend_run es p) =
    map (\<lambda>e. e_LastEvalTime e - t0 + p_PromEvalInterval p \<ge> r_PromForDuration (p_rule p)) es"
  using assms
proof (induction es arbitrary: p)
  case Nil
  then show ?case by simp
next
  case (Cons e es)
  obtain b q where q: "pend_new e p = (b, q)" by (cases "pend_new e p")
  note step = pend_new_first_eval [OF Cons.prems(1,2), of e, unfolded q, simplified]
  have "fst (pend_run es q) = map (\<lambda>e. e_LastEvalTime e - t0 + p_PromEvalInterval p \<ge> r_PromForDuration (p_rule p)) es"
    using Cons.IH [of q] step Cons.prems by simp
  then show ?case using q step(2) Cons.prems(3,4) by (simp add: split_beta)
qed

section \<open>Inhibition\<close>

text \<open>Severities are fixed once the event is built; a firing queues its own event or nothing.\<close>

lemma sev_upd: "(\<And>e. e_Severity (f e) = e_Severity e) \<Longrightarrow> e_Severity (obj (upd a f p) b) = e_Severity (obj p b)"
  using obj_upd_cases [of a f p b] by auto

lemma sev_UpdateLastEvalTime [simp]: "e_Severity (obj (EventMap_UpdateLastEvalTime m k t p) b) = e_Severity (obj p b)"
  by (auto simp: EventMap_UpdateLastEvalTime_def sev_upd split: option.split)

lemma sev_push [simp]: "e_Severity (obj (pushEventToQueue a p) b) = e_Severity (obj p b)"
  by (simp add: pushEventToQueue_def Let_def sev_upd)

lemma sev_fireEvent [simp]: "e_Severity (obj (fireEvent a p) b) = e_Severity (obj p b)"
  by (simp add: fireEvent_def Let_def sev_upd split: option.split)

lemma inhibit_fireEvent [simp]: "p_inhibit (fireEvent a p) = p_inhibit p"
  by (simp add: fireEvent_def Let_def split: option.split)

lemma pushed_fireEvent: "p_pushed (fireEvent a p) = p_pushed p \<or> p_pushed (fireEvent a p) = p_pushed p @ [a]"
  by (simp add: fireEvent_def Let_def split: option.split)

lemma sev_pend_event [simp]: "e_Severity (obj (snd (pend_event a p)) b) = e_Severity (obj p b)"
  by (simp add: pend_event_def mark_seen_def Let_def sev_upd split: option.split)

lemma pend_event_simps [simp]:
  "p_pushed (snd (pend_event a p)) = p_pushed p" "p_inhibit (snd (pend_event a p)) = p_inhibit p"
  by (simp_all add: pend_event_def Let_def split: option.split)

lemma pend_events_sev:
  assumes "pend_events as fs sev p = (fs', sev', p')"
  shows "p_pushed p' = p_pushed p \<and> p_inhibit p' = p_inhibit p \<and> (\<forall>b. e_Severity (obj p' b) = e_Severity (obj p b)) \<and>
    sev' \<le> sev \<and> set fs \<subseteq> set fs' \<and> set fs' \<subseteq> set fs \<union> set as \<and>
    (\<forall>b \<in> set fs' - set fs. sev' \<le> e_Severity (obj p b))"
  using assms
proof (induction as arbitrary: fs sev p)
  case Nil
  then show ?case by simp
next
  case (Cons a as)
  obtain b q where q: "pend_event a p = (b, q)" by (cases "pend_event a p")
  have q': "p_pushed q = p_pushed p" "p_inhibit q = p_inhibit p" "e_Severity (obj q c) = e_Severity (obj p c)" for c
    using pend_event_simps [of a p] sev_pend_event [of a p c] q by simp_all
  have "pend_events as (if b then fs @ [a] else fs)
      (if b \<and> sev > e_Severity (obj p a) then e_Severity (obj p a) else sev) q = (fs', sev', p')"
    using Cons.prems q q'(3) by (cases b) (simp_all split: if_split_asm)
  from Cons.IH [OF this] show ?case using q' by (cases b) (auto split: if_split_asm)
qed

lemma inhibitEvent_pushes:
  "\<exists>new. p_pushed (inhibitEvent as sev p) = p_pushed p @ new \<and> set new \<subseteq> set as \<and>
     (p_inhibit p \<longrightarrow> (\<forall>a \<in> set new. e_Severity (obj p a) \<le> sev))"
proof (induction as arbitrary: p)
  case Nil
  then show ?case by simp
next
  case (Cons a as)
  show ?case
  proof (cases "p_inhibit p \<and> e_Severity (obj p a) > sev")
    case True
    obtain new where "p_pushed (inhibitEvent as sev p) = p_pushed p @ new" "set new \<subseteq> set as"
      "p_inhibit p \<longrightarrow> (\<forall>a \<in> set new. e_Severity (obj p a) \<le> sev)" using Cons.IH [of p] by blast
    with True show ?thesis by (intro exI [of _ new]) auto
  next
    case False
    obtain new where new: "p_pushed (inhibitEvent as sev (fireEvent a p)) = p_pushed (fireEvent a p) @ new"
      "set new \<subseteq> set as" "p_inhibit p \<longrightarrow> (\<forall>a \<in> set new. e_Severity (obj p a) \<le> sev)"
      using Cons.IH [of "fireEvent a p"] by auto
    obtain own where "p_pushed (fireEvent a p) = p_pushed p @ own" "set own \<subseteq> {a}"
      using pushed_fireEvent [of a p] by (metis append_Nil2 empty_set empty_subsetI list.simps(15) subset_refl)
    with new False show ?thesis by (intro exI [of _ "own @ new"]) auto
  qed
qed

section \<open>Recovery\<close>

definition recovered_at :: "int \<Rightarrow> event \<Rightarrow> bool" where
  "recovered_at now e \<longleftrightarrow> e_IsRecovered e \<and> e_LastEvalTime e = now"

lemma UpdateEvent_keeps [simp]:
  "e_RecoverConfig (UpdateEvent ar e) = e_RecoverConfig e" "e_IsRecovered (UpdateEvent ar e) = e_IsRecovered e"
  by (simp_all add: UpdateEvent_def)

lemma RecoverSingle_recovers:
  assumes "RecoverSingle ac cs byR h now val vals p = Some q" and "proc_wf p"
    and "EventMap_Get (p_fires p) h = Some a" and "may_recover byR h now p"
  shows "EventMap_Get (p_fires q) k = (if k = h then None else EventMap_Get (p_fires p) k)"
    and "p_pushed q = p_pushed p @ [a]" and "p_rule q = p_rule p"
    and "b \<noteq> a \<Longrightarrow> obj q b = obj p b" and "recovered_at now (obj q a)"
proof -
  have a: "a < length (p_heap p)" using assms(2,3) by (auto simp: proc_wf_def map_ok_def)
  define p1 where "p1 = (case val of None \<Rightarrow> p
      | Some v \<Rightarrow> upd a (\<lambda>e. (case vals of None \<Rightarrow> e\<lparr>e_TriggerValue := v\<rparr>
          | Some vs \<Rightarrow> e\<lparr>e_TriggerValue := v, e_TriggerValues := vs\<rparr>)) p)"
  define p3 where "p3 = upd a (\<lambda>e. (UpdateEvent (p_rule p) e)\<lparr>e_IsRecovered := True, e_LastEvalTime := now,
      e_NotifyMuted := 0, e_MuteId := 0\<rparr>) (delete_everywhere h p1)"
  have p1: "p_rule p1 = p_rule p" "p_pushed p1 = p_pushed p" "p_fires p1 = p_fires p" "length (p_heap p1) = length (p_heap p)"
    "b \<noteq> a \<Longrightarrow> obj p1 b = obj p b" for b by (auto simp: p1_def split: option.split)
  have p3: "p_rule p3 = p_rule p" "p_pushed p3 = p_pushed p" "length (p_heap p3) = length (p_heap p)"
    "b \<noteq> a \<Longrightarrow> obj p3 b = obj p b" "recovered_at now (obj p3 a)"
    "EventMap_Get (p_fires p3) k = (if k = h then None else EventMap_Get (p_fires p) k)" for b k
    using a p1 by (auto simp: p3_def delete_everywhere_def upd_def recovered_at_def)
  have "p_rule (delete_everywhere h p1) = p_rule p" using p1 by (simp add: delete_everywhere_def)
  then have "q = pushEventToQueue a p3 \<or> (\<exists>i. q = pushEventToQueue a (upd a (\<lambda>e. e\<lparr>e_NotifyMuted := 1, e_MuteId := i\<rparr>) p3))"
    using assms(1,3,4)
    by (auto simp: RecoverSingle_def Let_def p1_def [symmetric] p3_def [symmetric] split: bind_splits if_split_asm)
  then obtain p4 where q: "q = pushEventToQueue a p4"
    and p4: "p4 = p3 \<or> (\<exists>i. p4 = upd a (\<lambda>e. e\<lparr>e_NotifyMuted := 1, e_MuteId := i\<rparr>) p3)" by blast
  from p4 a p3 have "p_rule p4 = p_rule p" "p_pushed p4 = p_pushed p" "recovered_at now (obj p4 a)"
    "length (p_heap p4) = length (p_heap p)" "p_fires p4 = p_fires p3" and o4: "b \<noteq> a \<Longrightarrow> obj p4 b = obj p b" for b
    by (auto simp: obj_upd recovered_at_def)
  with p3(6) q a show "EventMap_Get (p_fires q) k = (if k = h then None else EventMap_Get (p_fires p) k)"
    and "p_pushed q = p_pushed p @ [a]" and "p_rule q = p_rule p"
    and "b \<noteq> a \<Longrightarrow> obj q b = obj p b" and "recovered_at now (obj q a)"
    by (auto simp: obj_push recovered_at_def)
qed

text \<open>The recovery of one alert does not change whether another may recover.\<close>

lemma RecoverSingle_seen:
  "RecoverSingle ac cs byR h now val vals p = Some q \<Longrightarrow> k \<noteq> h \<Longrightarrow>
   EventMap_Get (p_pendingsUseByRecover q) k = EventMap_Get (p_pendingsUseByRecover p) k"
  by (auto simp: RecoverSingle_def Let_def delete_everywhere_def split: if_split_asm option.split_asm bind_splits)

lemma may_recover_fires: "may_recover byR h now p \<Longrightarrow> \<exists>a. EventMap_Get (p_fires p) h = Some a"
  by (auto simp: may_recover_def split: option.split_asm)

lemma may_recover_other:
  assumes run: "RecoverSingle ac cs byR h now val vals p = Some q" and wf: "proc_wf p"
    and a: "EventMap_Get (p_fires p) h = Some a" and may: "may_recover byR h now p" and k: "k \<noteq> h"
  shows "may_recover byR' k now q = may_recover byR' k now p"
proof -
  note rec = RecoverSingle_recovers [OF run wf a may]
  have hash: "e_Hash (obj p a) = h" using a wf by (auto simp: proc_wf_def map_ok_def)
  have "obj q b = obj p b" if "EventMap_Get m k = Some b" "map_ok m p" for m b
    using that k hash by (intro rec(4)) (auto simp: map_ok_def)
  then show ?thesis
    using k wf rec(1,3) RecoverSingle_seen [OF run k]
    by (auto simp: may_recover_def proc_wf_def split: option.split)
qed

lemma HandleRecoverEvent_recovers:
  assumes "HandleRecoverEvent ac cs hs now p = Some q" and "proc_wf p"
  shows "\<exists>rs. distinct rs \<and> set rs = {h \<in> set hs. may_recover False h now p} \<and>
    (\<forall>k. EventMap_Get (p_fires q) k = (if k \<in> set rs then None else EventMap_Get (p_fires p) k)) \<and>
    p_pushed q = p_pushed p @ map (\<lambda>h. the (EventMap_Get (p_fires p) h)) rs \<and>
    (\<forall>h \<in> set rs. recovered_at now (obj q (the (EventMap_Get (p_fires p) h)))) \<and>
    (\<forall>b. b \<notin> (\<lambda>h. the (EventMap_Get (p_fires p) h)) ` set rs \<longrightarrow> obj q b = obj p b)"
  using assms
proof (induction hs arbitrary: p)
  case Nil
  then show ?case by simp
next
  case (Cons h hs)
  obtain p' where p': "RecoverSingle ac cs False h now None None p = Some p'"
    and rest: "HandleRecoverEvent ac cs hs now p' = Some q"
    using Cons.prems(1) by (auto split: bind_splits)
  show ?case
  proof (cases "may_recover False h now p")
    case False
    then have same: "p' = p" using p' by (simp add: RecoverSingle_def)
    have "{k \<in> set (h # hs). may_recover False k now p} = {k \<in> set hs. may_recover False k now p}"
      using False by auto
    with Cons.IH [OF rest [unfolded same] Cons.prems(2)] show ?thesis by (simp only:)
  next
    case True
    then obtain a where a: "EventMap_Get (p_fires p) h = Some a" using may_recover_fires by blast
    note rec = RecoverSingle_recovers [OF p' Cons.prems(2) a True]
    have wf': "proc_wf p'" using RecoverSingle_wf [OF p' Cons.prems(2)] by simp
    obtain rs where rs: "distinct rs" "set rs = {k \<in> set hs. may_recover False k now p'}"
      and q: "\<forall>k. EventMap_Get (p_fires q) k = (if k \<in> set rs then None else EventMap_Get (p_fires p') k)"
        "p_pushed q = p_pushed p' @ map (\<lambda>h. the (EventMap_Get (p_fires p') h)) rs"
        "\<forall>k \<in> set rs. recovered_at now (obj q (the (EventMap_Get (p_fires p') k)))"
        "\<forall>b. b \<notin> (\<lambda>h. the (EventMap_Get (p_fires p') h)) ` set rs \<longrightarrow> obj q b = obj p' b"
      using Cons.IH [OF rest wf'] by blast
    have "\<not> may_recover False h now p'" using rec(1) [of h] may_recover_fires by force
    then have h: "h \<notin> set rs" using rs(2) by simp
    have all: "set (h # rs) = {k \<in> set (h # hs). may_recover False k now p}"
    proof (intro set_eqI)
      fix k
      show "k \<in> set (h # rs) \<longleftrightarrow> k \<in> {k \<in> set (h # hs). may_recover False k now p}"
        using rs(2) h True may_recover_other [OF p' Cons.prems(2) a True, of k False] by (cases "k = h") simp_all
    qed
    have same: "EventMap_Get (p_fires p') k = EventMap_Get (p_fires p) k" if "k \<in> set rs" for k
      using that h rec(1) by auto
    have img: "(\<lambda>h. the (EventMap_Get (p_fires p') h)) ` set rs = (\<lambda>h. the (EventMap_Get (p_fires p) h)) ` set rs"
      using same by auto
    have fir: "\<exists>c. EventMap_Get (p_fires p) k = Some c" if "k \<in> set rs" for k
      using that same [OF that] rs(2) may_recover_fires [of False k now p'] by simp
    have out: "a \<notin> (\<lambda>h. the (EventMap_Get (p_fires p) h)) ` set rs"
      using fir a h Cons.prems(2) map_ok_inj [of "p_fires p" p h a] by (fastforce simp: proc_wf_def)
    have mp: "map (\<lambda>h. the (EventMap_Get (p_fires p') h)) rs = map (\<lambda>h. the (EventMap_Get (p_fires p) h)) rs"
      using same by simp
    have "\<forall>k. EventMap_Get (p_fires q) k = (if k \<in> set (h # rs) then None else EventMap_Get (p_fires p) k)"
      using q(1) rec(1) by simp
    moreover have "p_pushed q = p_pushed p @ map (\<lambda>h. the (EventMap_Get (p_fires p) h)) (h # rs)"
      using q(2) rec(2) a mp by simp
    moreover have "\<forall>k \<in> set (h # rs). recovered_at now (obj q (the (EventMap_Get (p_fires p) k)))"
      using q(3,4) rec(5) a same out unfolding img by simp
    moreover have "obj q b = obj p b" if "b \<notin> (\<lambda>h. the (EventMap_Get (p_fires p) h)) ` set (h # rs)" for b
      using that q(4) rec(4) a unfolding img by simp
    ultimately show ?thesis using rs(1) h all by (intro exI [of _ "h # rs"]) (simp only: distinct.simps, blast)
  qed
qed

lemma HandleRecover_recovers:
  assumes "HandleRecover ac cs keys now p = Some q" and "proc_wf p" and "range_order (ac_ord ac)"
  shows "\<exists>rs. distinct rs \<and> set rs = {h. h \<notin> set keys \<and> may_recover False h now p} \<and>
    (\<forall>h. EventMap_Get (p_fires q) h = (if h \<in> set rs then None else EventMap_Get (p_fires p) h)) \<and>
    p_pushed q = p_pushed p @ map (\<lambda>h. the (EventMap_Get (p_fires p) h)) rs \<and>
    list_all (\<lambda>h. recovered_at now (obj q (the (EventMap_Get (p_fires p) h)))) rs"
proof -
  define stale where "stale = filter (\<lambda>h. h \<notin> set keys) (EventMap_Keys (ac_ord ac) (p_pendings p))"
  define p1 where "p1 = p\<lparr>p_pendings := fold EventMap_Delete stale (p_pendings p)\<rparr>"
  define hs where "hs = filter (\<lambda>h. h \<notin> set keys) (EventMap_Keys (ac_ord ac) (p_fires p1))"
  have p1: "proc_wf p1" "p_fires p1 = p_fires p" "p_pushed p1 = p_pushed p"
    using assms(2) by (auto simp: p1_def proc_wf_def map_ok_def split: if_split_asm)
  have may: "may_recover False h now p1 = may_recover False h now p" for h by (simp add: p1_def may_recover_def cong: option.case_cong)
  have run: "HandleRecoverEvent ac cs hs now p1 = Some q"
    using assms(1) by (simp add: HandleRecover_def Let_def stale_def p1_def hs_def)
  have "{h \<in> set hs. may_recover False h now p1} = {h. h \<notin> set keys \<and> may_recover False h now p}"
    using EventMap_Keys_iff [OF assms(3)] p1(2) may may_recover_fires by (fastforce simp: hs_def)
  then show ?thesis
    using HandleRecoverEvent_recovers [OF run p1(1), unfolded p1(2,3)] unfolding list_all_iff by auto
qed

section \<open>The life of a processor\<close>

text \<open>
  Everything the engine does with a processor: it is created, loads the firing alerts of the
  database, handles evaluations, recovers alerts on recovery points, and drops single alerts.
\<close>

inductive processor_life :: "event_processor \<Rightarrow> bool" where
  created: "processor_life (NewProcessor en rule ds cs interval)"
| loaded: "processor_life p \<Longrightarrow> processor_life (RecoverAlertCurEventFromDb ac cs answer p)"
| handled: "processor_life p \<Longrightarrow> Handle ac cs now aps frm inh p = Some q \<Longrightarrow> processor_life q"
| recovered: "processor_life p \<Longrightarrow> RecoverSingle ac cs byR h now val vals p = Some q \<Longrightarrow> processor_life q"
| dropped: "processor_life p \<Longrightarrow> processor_life (DeleteProcessEvent h p)"

lemma NewProcessor_wf: "proc_wf (NewProcessor en rule ds cs interval)"
  by (simp add: NewProcessor_def proc_wf_def map_ok_def)

lemma processor_life_wf: "processor_life p \<Longrightarrow> proc_wf p"
proof (induction rule: processor_life.induct)
  case (loaded p ac cs answer)
  then show ?case by (simp add: RecoverAlertCurEventFromDb_wf)
next
  case (handled p ac cs now aps frm inh q)
  then show ?case by (blast intro: Handle_wf)
next
  case (recovered p ac cs byR h now val vals q)
  then show ?case using RecoverSingle_wf by blast
qed (simp_all add: NewProcessor_wf DeleteProcessEvent_def delete_everywhere_wf)

section \<open>Properties\<close>

text \<open>
  C1. \<open>fireEvent\<close> implements the notification machine: it queues the event exactly when the machine says
  so, under that number, and the state of every alert afterwards is the one of the machine.
\<close>

theorem fire_refines_notify_machine:
  assumes "proc_wf p" and "unfired a p"
    and "d = notify_decision (p_rule p) (e_NotifyMuted (obj p a) = 1) (e_LastEvalTime (obj p a))
               (alert_state p (e_Hash (obj p a)))"
  shows "p_pushed (fireEvent a p) = p_pushed p @ (if d = None then [] else [a]) \<and>
    (\<forall>n. d = Some n \<longrightarrow> e_NotifyCurNumber (obj (fireEvent a p) a) = n) \<and>
    (\<forall>h. alert_state (fireEvent a p) h =
      (if h = e_Hash (obj p a)
       then notify_step (p_rule p) (e_NotifyMuted (obj p a) = 1) (e_LastSentTime (obj p a)) (e_LastEvalTime (obj p a))
              (alert_state p h)
       else alert_state p h))"
  using fireEvent_fires(2) [OF assms] fireEvent_obj(3) [OF assms] fireEvent_state [OF assms(1,2)] by simp

text \<open>
  C2. The notifications of an alert in one firing episode, over any sequence of evaluations of a fixed rule with mutes coming and going
  and no recovery in between: they are numbered from 1 without gaps, never exceed the maximum of the rule when it has
  one, are at least the repeat interval apart, and there is at most one when the rule does not repeat.
\<close>

theorem notifications_numbered_bounded_spaced:
  assumes "proc_wf p" and "p_fires p = []" and "p_pushed p = []" and "\<forall>e \<in> set es. \<not> e_IsRecovered e"
  shows "let s = sent h (fold fire_new es p); rule = p_rule p in
    map fst s = map (\<lambda>i. int i + 1) [0..<length s] \<and>
    (r_NotifyMaxNumber rule > 0 \<longrightarrow> int (length s) \<le> r_NotifyMaxNumber rule) \<and>
    (r_NotifyRepeatStep rule = 0 \<longrightarrow> length s \<le> 1) \<and>
    (\<forall>i. Suc i < length s \<longrightarrow> snd (s ! i) + r_NotifyRepeatStep rule * 60 \<le> snd (s ! Suc i))"
proof -
  have "run_inv (p_rule p) (alert_state p h) (sent h p)"
    using assms(2,3) by (simp add: run_inv_def alert_state_def sent_def spaced_def)
  from fire_run_inv [OF assms(1) this assms(4)] show ?thesis by (simp add: run_inv_def spaced_def Let_def)
qed

text \<open>
  C3. An alert of a rule with a duration fires at an evaluation exactly when the time since its first
  pending evaluation, plus one evaluation interval, reaches the duration.
\<close>

theorem alert_fires_after_its_duration:
  assumes "proc_wf p" and "r_PromForDuration (p_rule p) \<noteq> 0" and "EventMap_Get (p_pendings p) (e_Hash e0) = None"
    and "\<forall>e \<in> set es. e_Hash e = e_Hash e0"
  shows "fst (pend_run (e0 # es) p) =
    map (\<lambda>e. e_LastEvalTime e - e_LastEvalTime e0 + p_PromEvalInterval p \<ge> r_PromForDuration (p_rule p)) (e0 # es)"
proof -
  obtain b q where q: "pend_new e0 p = (b, q)" by (cases "pend_new e0 p")
  note step = pend_new_first_eval [OF assms(1,2), of e0, unfolded q, simplified]
  have "first_eval p (e_Hash e0) = None" using assms(3) by (simp add: first_eval_def)
  with step pend_run_known [of q es "e_Hash e0" "e_LastEvalTime e0"] assms(2,4) q show ?thesis
    by (simp add: split_beta)
qed

text \<open>
  C4. With inhibition on, a group of events queues only events that are at least as severe (a smaller
  number) as every event of the group that is due.
\<close>

theorem inhibition_queues_the_most_severe:
  assumes "p_inhibit p" and "pend_events as [] SeverityLowest p = (due, sev, p')"
  shows "\<exists>new. p_pushed (handleEvent as p) = p_pushed p @ new \<and> set new \<subseteq> set due \<and> set due \<subseteq> set as \<and>
    (\<forall>a \<in> set new. \<forall>b \<in> set due. e_Severity (obj p a) \<le> e_Severity (obj p b))"
proof -
  note due = pend_events_sev [OF assms(2)]
  obtain new where "p_pushed (inhibitEvent due sev p') = p_pushed p' @ new" "set new \<subseteq> set due"
    "\<forall>a \<in> set new. e_Severity (obj p' a) \<le> sev"
    using inhibitEvent_pushes [of due sev p'] due assms(1) by auto
  with due assms(2) show ?thesis by (intro exI [of _ new]) (fastforce simp: handleEvent_def)
qed

text \<open>
  C5. Recovery is symmetric to firing. At the end of an evaluation an alert that fires stops firing
  exactly when none of the points of the evaluation has its hash and neither the recovery duration
  nor a recovery condition of its own holds it back. Each alert that stops is queued once, as recovered at
  the time of the evaluation; nothing else is queued after the events of the points.
\<close>

theorem recovery_is_symmetric:
  assumes "Handle ac cs now aps ''inner'' inhibit p = Some q" and "proc_wf p" and "range_order (ac_ord ac)"
    and "AlertRuleCache_Get (cs_rules cs) (r_Id (p_rule p)) = Some rule"
  shows "\<exists>keys p3 rs.
    fire_points ac cs ''inner'' now (RuleHash (ac_env ac) (p_rule p)) aps (p\<lparr>p_inhibit := inhibit, p_rule := rule\<rparr>) = Some (keys, p3) \<and>
    set keys = event_hash ac (r_Id rule) (p_datasourceId p) ` set aps \<and>
    distinct rs \<and> set rs = {h. h \<notin> set keys \<and> may_recover False h now p3} \<and>
    (\<forall>h. EventMap_Get (p_fires q) h = (if h \<in> set rs then None else EventMap_Get (p_fires p3) h)) \<and>
    p_pushed q = p_pushed p3 @ map (\<lambda>h. the (EventMap_Get (p_fires p3) h)) rs \<and>
    list_all (\<lambda>h. recovered_at now (obj q (the (EventMap_Get (p_fires p3) h)))) rs"
proof -
  let ?p1 = "p\<lparr>p_inhibit := inhibit, p_rule := rule\<rparr>"
  have wf: "proc_wf ?p1" using assms(2) by (simp add: proc_wf_def map_ok_def)
  obtain keys p3 where f: "fire_points ac cs ''inner'' now (RuleHash (ac_env ac) (p_rule p)) aps ?p1 = Some (keys, p3)"
    and r: "HandleRecover ac cs keys now p3 = Some q"
    using assms(1,4) by (auto simp: Handle_def Let_def split: bind_splits)
  have "set keys = event_hash ac (r_Id rule) (p_datasourceId p) ` set aps"
    using f by (auto simp: fire_points_def split: bind_splits dest!: handle_points_keys)
  with HandleRecover_recovers [OF r fire_points_wf [OF f wf] assms(3)] f show ?thesis by blast
qed

text \<open>
  C7. A recovery changes the very object that the firing put on the queue: an alert that is still queued
  when it recovers appears in the queue twice as recovered, and nowhere as firing.
\<close>

theorem recovery_overwrites_the_queued_alert:
  assumes "RecoverSingle ac cs byR h now val vals p = Some q" and "proc_wf p"
    and "EventMap_Get (p_fires p) h = Some a" and "may_recover byR h now p" and "p_pushed p = [a]"
    and "\<not> e_IsRecovered (obj p a)"
  shows "map (\<lambda>b. e_IsRecovered (obj q b)) (p_pushed q) = [True, True]"
  using RecoverSingle_recovers [OF assms(1-4)] assms(5) by (simp add: recovered_at_def)

text \<open>
  C6. At every moment of the life of a processor, each entry of its three event maps points at an event
  of the store whose hash is the key of the entry, and everything queued is an event of the store.
\<close>

theorem event_maps_stay_consistent:
  assumes "processor_life p"
  shows "(\<forall>h a. EventMap_Get (p_fires p) h = Some a \<or> EventMap_Get (p_pendings p) h = Some a \<or>
            EventMap_Get (p_pendingsUseByRecover p) h = Some a \<longrightarrow>
            a < length (p_heap p) \<and> e_Hash (obj p a) = h) \<and>
    list_all (\<lambda>a. a < length (p_heap p)) (p_pushed p)"
  using processor_life_wf [OF assms] by (auto simp: proc_wf_def map_ok_def list_all_iff)

section \<open>The properties on concrete processors\<close>

definition sample_caches :: caches where
  "sample_caches = \<lparr>cs_rules = New_cache [], cs_targets = New_cache [], cs_busi = New_cache [], cs_mutes = New_cache [],
     cs_ds = New_cache \<lparr>dc_ds = [], dc_CateToIDs = [], dc_CateToNames = []\<rparr>, cs_pipelines = []\<rparr>"

definition sample_proc :: event_processor where
  "sample_proc = NewProcessor ''default'' sample_rule 1 sample_caches 15"

lemma sample_proc_simps [simp]:
  "proc_wf sample_proc" "p_fires sample_proc = []" "p_pendings sample_proc = []" "p_pushed sample_proc = []"
  "p_rule sample_proc = sample_rule" "p_heap sample_proc = []" "p_pendingsUseByRecover sample_proc = []"
  "p_PromEvalInterval sample_proc = 15" "p_inhibit sample_proc = False"
  unfolding sample_proc_def by (rule NewProcessor_wf) (simp_all add: NewProcessor_def)

text \<open>A processor that took an alert over from the database, and then recovered it.\<close>

definition rule_caches :: caches where
  "rule_caches = sample_caches\<lparr>cs_rules := Set_cache [(1, sample_rule)] 1 1 (New_cache [])\<rparr>"

definition loaded_proc :: event_processor where
  "loaded_proc = RecoverAlertCurEventFromDb sample_ac rule_caches (Inr [sample_event]) sample_proc"

lemma loaded_proc_simps:
  "p_fires loaded_proc = [(''h1'', 0)]" "p_pendingsUseByRecover loaded_proc = [(''h1'', 1)]" "p_pushed loaded_proc = []"
  "p_rule loaded_proc = sample_rule" "length (p_heap loaded_proc) = 2" "e_RecoverConfig (obj loaded_proc 0) = e_RecoverConfig sample_event"
  by (simp_all add: loaded_proc_def RecoverAlertCurEventFromDb_def load_event_def rule_caches_def sample_caches_def
      AlertRuleCache_Get_def TargetCache_Get_def Set_cache_def New_cache_def DB2Mem_def alloc_def Let_def nth_append)

theorem event_maps_witness:
  "EventMap_Get (p_fires loaded_proc) ''h1'' = Some 0 \<and> EventMap_Get (p_pendingsUseByRecover loaded_proc) ''h1'' = Some 1 \<and>
   0 < length (p_heap loaded_proc) \<and> 1 < length (p_heap loaded_proc) \<and>
   e_Hash (obj loaded_proc 0) = ''h1'' \<and> e_Hash (obj loaded_proc 1) = ''h1''"
proof -
  have get: "EventMap_Get (p_fires loaded_proc) ''h1'' = Some 0" "EventMap_Get (p_pendingsUseByRecover loaded_proc) ''h1'' = Some 1"
    by (simp_all add: loaded_proc_simps EventMap_Get_def)
  have "processor_life loaded_proc"
    unfolding loaded_proc_def sample_proc_def by (intro processor_life.loaded processor_life.created)
  from event_maps_stay_consistent [OF this] get show ?thesis by blast
qed

definition fired_proc :: event_processor where
  "fired_proc = fire_new sample_event sample_proc"

lemma fired_proc_simps:
  "proc_wf fired_proc" "p_fires fired_proc = [(''h1'', 0)]" "p_pushed fired_proc = [0]"
  "p_rule fired_proc = sample_rule" "p_pendings fired_proc = []" "e_IsRecovered (obj fired_proc 0) = False"
  "e_RecoverConfig (obj fired_proc 0) = e_RecoverConfig sample_event" "e_NotifyCurNumber (obj fired_proc 0) = 1"
  "length (p_heap fired_proc) = 1" "e_GroupId (obj fired_proc 0) = 7"
  unfolding fired_proc_def by (rule fire_new_wf) (simp_all add: fire_new_def alloc_def fireEvent_def pushEventToQueue_def upd_def
      EventMap_Get_def EventMap_Set_def Let_def)

theorem fire_refines_witness:
  "p_pushed (fireEvent 1 (snd (alloc (sample_event\<lparr>e_LastEvalTime := 1060\<rparr>) fired_proc))) =
     p_pushed (snd (alloc (sample_event\<lparr>e_LastEvalTime := 1060\<rparr>) fired_proc)) @
     (if notify_decision sample_rule False 1060
          (alert_state (snd (alloc (sample_event\<lparr>e_LastEvalTime := 1060\<rparr>) fired_proc)) ''h1'') = None
      then [] else [1])"
proof -
  let ?e = "sample_event\<lparr>e_LastEvalTime := 1060\<rparr>"
  obtain q where q: "alloc ?e fired_proc = (1, q)" using fired_proc_simps(9) by (simp add: alloc_def)
  note u = alloc_unfired [OF fired_proc_simps(1) _ q] and w = alloc_wf [OF q fired_proc_simps(1)]
  show ?thesis
    using fire_refines_notify_machine [OF w(1) u(1) refl] u(2,4) q by (simp add: fired_proc_simps(4))
qed

theorem notifications_witness:
  "int (length (sent ''h1'' (fold fire_new
     [sample_event, sample_event\<lparr>e_NotifyMuted := 1\<rparr>, sample_event\<lparr>e_LastEvalTime := 1060\<rparr>] sample_proc))) \<le> 3"
  using notifications_numbered_bounded_spaced [where p = sample_proc and h = "''h1''"
      and es = "[sample_event, sample_event\<lparr>e_NotifyMuted := 1\<rparr>, sample_event\<lparr>e_LastEvalTime := 1060\<rparr>]"]
  by (simp add: Let_def sample_rule_def)

theorem duration_witness:
  "fst (pend_run [sample_event, sample_event\<lparr>e_LastEvalTime := 1050\<rparr>]
     (sample_proc\<lparr>p_rule := sample_rule\<lparr>r_PromForDuration := 60\<rparr>\<rparr>)) = [False, True]"
  by (subst alert_fires_after_its_duration) (simp_all add: proc_wf_def map_ok_def)

text \<open>A warning and a critical event of one group.\<close>

definition sample_pair :: event_processor where
  "sample_pair = sample_proc\<lparr>p_inhibit := True, p_heap := [sample_event, sample_event\<lparr>e_Hash := ''h0'', e_Severity := 1\<rparr>]\<rparr>"

theorem inhibition_witness:
  "\<exists>new. p_pushed (handleEvent [0, 1] sample_pair) = p_pushed sample_pair @ new \<and> set new \<subseteq> {0, 1}"
proof -
  obtain due sev p' where "pend_events [0, 1] [] SeverityLowest sample_pair = (due, sev, p')" by (metis prod_cases3)
  from inhibition_queues_the_most_severe [OF _ this] show ?thesis by (auto simp: sample_pair_def)
qed

lemma fired_may_recover: "may_recover False ''h1'' 1100 fired_proc"
  by (simp add: may_recover_def fired_proc_simps EventMap_Get_def sample_rule_def sample_event_def GenerateNewEvent_def
      UpdateEvent_def zero_event_def)

theorem recovery_witness:
  "\<exists>q. Handle sample_ac rule_caches 1100 [] ''inner'' False fired_proc = Some q \<and> EventMap_Get (p_fires q) ''h1'' = None \<and>
     p_pushed q = [0, 0]"
proof -
  let ?p = "fired_proc\<lparr>p_inhibit := False, p_rule := sample_rule\<rparr>"
  have rule: "AlertRuleCache_Get (cs_rules rule_caches) (r_Id (p_rule fired_proc)) = Some sample_rule"
    by (simp add: rule_caches_def AlertRuleCache_Get_def Set_cache_def New_cache_def fired_proc_simps sample_rule_def)
  have pts: "fire_points sample_ac rule_caches ''inner'' 1100 rh [] ?p = Some ([], ?p)" for rh
    by (simp add: fire_points_def sample_ac_def mkeys_def)
  have may: "may_recover False h 1100 ?p \<longleftrightarrow> h = ''h1''" for h
    using fired_may_recover by (auto simp: may_recover_def fired_proc_simps EventMap_Get_def split: if_split_asm cong: option.case_cong)
  have fir: "p_fires ?p = [(''h1'', 0)]" by (simp add: fired_proc_simps)
  have keys: "EventMap_Keys (ac_ord sample_ac) [(''h1'', 0::addr)] = [''h1'']" by (simp add: EventMap_Keys_def sample_ac_def mkeys_def)
  have nomute: "EventMuteStrategy x e (cs_mutes rule_caches) now = Some (False, 0, MuteTypeAll)" for x e now
    by (simp add: EventMuteStrategy_def AlertMuteCache_Gets_def rule_caches_def sample_caches_def New_cache_def)
  have "EventMap_Keys (ac_ord sample_ac) (p_pendings ?p) = []"
    by (simp add: EventMap_Keys_def fired_proc_simps sample_ac_def mkeys_def)
  then have "\<exists>q. HandleRecover sample_ac rule_caches [] 1100 ?p = Some q"
    using may [of "''h1''"] by (simp add: HandleRecover_def fir keys RecoverSingle_def Let_def nomute EventMap_Get_def fired_proc_simps)
  then obtain q where q: "Handle sample_ac rule_caches 1100 [] ''inner'' False fired_proc = Some q"
    using rule pts by (auto simp: Handle_def)
  have ord: "range_order (ac_ord sample_ac)" by (simp add: sample_ac_def)
  obtain rs where rs: "distinct rs" "set rs = {''h1''}"
    and "\<forall>h. EventMap_Get (p_fires q) h = (if h \<in> set rs then None else EventMap_Get (p_fires ?p) h)"
    and "p_pushed q = p_pushed ?p @ map (\<lambda>h. the (EventMap_Get (p_fires ?p) h)) rs"
    using recovery_is_symmetric [OF q fired_proc_simps(1) ord rule] pts may by auto
  moreover have "rs = [''h1'']" using rs by (cases rs) (auto simp: subset_singleton_iff)
  ultimately show ?thesis using q by (simp add: fired_proc_simps EventMap_Get_def)
qed

theorem overwrites_witness:
  "\<exists>q. RecoverSingle sample_ac sample_caches False ''h1'' 1100 None None fired_proc = Some q \<and>
     map (\<lambda>b. e_IsRecovered (obj q b)) (p_pushed q) = [True, True]"
proof -
  have get: "EventMap_Get (p_fires fired_proc) ''h1'' = Some 0" by (simp add: fired_proc_simps EventMap_Get_def)
  note may = fired_may_recover
  obtain q where q: "RecoverSingle sample_ac sample_caches False ''h1'' 1100 None None fired_proc = Some q"
    using may get by (simp add: RecoverSingle_def Let_def EventMuteStrategy_def AlertMuteCache_Gets_def sample_caches_def
        New_cache_def)
  show ?thesis
    using recovery_overwrites_the_queued_alert [OF q fired_proc_simps(1) get may] q by (simp add: fired_proc_simps)
qed

end
