(* ===== verification/Subscribe.thy ===== *)
theory Subscribe
  imports Memsto
begin

text \<open>
  Subscriptions: \<^verbatim>\<open>models/alert_subscribe.go\<close> (the record, its verification and column
  conversions, the matching functions, what a subscription changes in an event), the cache of
  \<^verbatim>\<open>memsto/alert_subscribe_cache.go\<close>, and \<open>collectSubscribes\<close> and \<open>subMatches\<close> of
  \<^verbatim>\<open>alert/dispatch/dispatch.go\<close>.

  \<open>sub_codec\<close> holds the JSON functions on the columns; the decoder answers \<open>None\<close> on an error, and
  an error leaves the field as it was.
\<close>

record alert_subscribe =
  s_Id :: int
  s_Name :: string
  s_Disabled :: int
  s_GroupId :: int
  s_Prod :: string
  s_Cate :: string
  s_DatasourceIds :: string
  s_DatasourceIdsJson :: "int list"
  s_Cluster :: string
  s_RuleId :: int
  s_Severities :: string
  s_SeveritiesJson :: "int list"
  s_ForDuration :: int
  s_Tags :: string
  s_RedefineSeverity :: int
  s_NewSeverity :: int
  s_RedefineChannels :: int
  s_NewChannels :: string
  s_UserGroupIds :: string
  s_RedefineWebhooks :: int
  s_Webhooks :: string
  s_WebhooksJson :: "string list"
  s_ExtraConfig :: string
  s_ExtraConfigJson :: goval
  s_ITags :: "tag_filter list"
  s_BusiGroups :: string
  s_IBusiGroups :: "tag_filter list"
  s_RuleIds :: "int list"
  s_NotifyRuleIds :: "int list"
  s_NotifyVersion :: int

record sub_codec =
  jc_un_filters :: "string \<Rightarrow> tag_filter list option"
  jc_un_ints :: "string \<Rightarrow> int list option"
  jc_ma_ints :: "int list \<Rightarrow> string"
  jc_un_strs :: "string \<Rightarrow> string list option"
  jc_ma_strs :: "string list \<Rightarrow> string"
  jc_un_any :: "string \<Rightarrow> goval option"
  jc_ma_any :: "goval \<Rightarrow> string"

section \<open>The record\<close>

definition IsDisabled :: "alert_subscribe \<Rightarrow> bool" where
  "IsDisabled s \<longleftrightarrow> s_Disabled s = 1"

definition AlertSubscribe_Parse ::
  "sub_codec \<Rightarrow> env \<Rightarrow> alert_subscribe \<Rightarrow> filter_error + alert_subscribe"
where
  "AlertSubscribe_Parse j x s =
     (case GetTagFilters (jc_un_filters j) x (s_Tags s) of
        Inl err \<Rightarrow> Inl err
      | Inr ts \<Rightarrow>
          (case GetTagFilters (jc_un_filters j) x (s_BusiGroups s) of
             Inl err \<Rightarrow> Inl err
           | Inr gs \<Rightarrow> Inr (s\<lparr>s_ITags := ts, s_IBusiGroups := gs\<rparr>)))"

datatype sub_error =
    SubBadTags filter_error
  | SeveritiesRequired
  | NoNotifyRules
  | NewChannelsRequired
  | UserGroupIdsInvalid

definition AlertSubscribe_Verify ::
  "sub_codec \<Rightarrow> env \<Rightarrow> alert_subscribe \<Rightarrow> sub_error + alert_subscribe"
where
  "AlertSubscribe_Verify j x s0 =
     (let s1 = (if IsAllDatasource (s_DatasourceIdsJson s0) then s0\<lparr>s_DatasourceIdsJson := [0]\<rparr> else s0)
      in case AlertSubscribe_Parse j x s1 of
           Inl err \<Rightarrow> Inl (SubBadTags err)
         | Inr s \<Rightarrow>
             (if s_SeveritiesJson s = [] then Inl SeveritiesRequired
              else if s_NotifyVersion s = 1 then
                (if s_NotifyRuleIds s = [] then Inl NoNotifyRules
                 else Inr (s\<lparr>s_UserGroupIds := [], s_RedefineChannels := 0, s_NewChannels := [],
                             s_RedefineWebhooks := 0, s_Webhooks := [], s_RedefineSeverity := 0, s_NewSeverity := 0\<rparr>))
              else if s_UserGroupIds s \<noteq> [] \<and> s_NewChannels s = [] then Inl NewChannelsRequired
              else if list_ex (\<lambda>i. ParseInt i = None) (Fields (s_UserGroupIds s)) then Inl UserGroupIdsInvalid
              else Inr (if s_NotifyVersion s = 0 then s\<lparr>s_NotifyRuleIds := []\<rparr> else s)))"

definition AlertSubscribe_FE2DB :: "sub_codec \<Rightarrow> alert_subscribe \<Rightarrow> alert_subscribe" where
  "AlertSubscribe_FE2DB j s0 =
     (let s1 = (if s_DatasourceIdsJson s0 \<noteq> [] then s0\<lparr>s_DatasourceIds := jc_ma_ints j (s_DatasourceIdsJson s0)\<rparr> else s0);
          s2 = (if s_WebhooksJson s1 \<noteq> [] then s1\<lparr>s_Webhooks := jc_ma_strs j (s_WebhooksJson s1)\<rparr> else s1);
          s3 = s2\<lparr>s_ExtraConfig := jc_ma_any j (s_ExtraConfigJson s2)\<rparr>
      in if s_SeveritiesJson s3 \<noteq> [] then s3\<lparr>s_Severities := jc_ma_ints j (s_SeveritiesJson s3)\<rparr> else s3)"

text \<open>\<open>None\<close> is an error of the decoder; the caller drops the subscription then.\<close>

definition AlertSubscribe_DB2FE :: "sub_codec \<Rightarrow> alert_subscribe \<Rightarrow> alert_subscribe option" where
  "AlertSubscribe_DB2FE j s0 =
     do {
       s1 \<leftarrow> (if s_DatasourceIds s0 \<noteq> []
              then map_option (\<lambda>v. s0\<lparr>s_DatasourceIdsJson := v\<rparr>) (jc_un_ints j (s_DatasourceIds s0)) else Some s0);
       s2 \<leftarrow> (if s_Webhooks s1 \<noteq> []
              then map_option (\<lambda>v. s1\<lparr>s_WebhooksJson := v\<rparr>) (jc_un_strs j (s_Webhooks s1)) else Some s1);
       s3 \<leftarrow> (if s_ExtraConfig s2 \<noteq> []
              then map_option (\<lambda>v. s2\<lparr>s_ExtraConfigJson := v\<rparr>) (jc_un_any j (s_ExtraConfig s2)) else Some s2);
       (if s_Severities s3 \<noteq> []
        then map_option (\<lambda>v. s3\<lparr>s_SeveritiesJson := v\<rparr>) (jc_un_ints j (s_Severities s3)) else Some s3)
     }"

definition CompatibleWithOldRuleId :: "alert_subscribe \<Rightarrow> alert_subscribe" where
  "CompatibleWithOldRuleId s =
     (if s_RuleIds s = [] \<and> s_RuleId s \<noteq> 0 then s\<lparr>s_RuleIds := s_RuleIds s @ [s_RuleId s]\<rparr> else s)"

definition FillDatasourceIds :: "sub_codec \<Rightarrow> alert_subscribe \<Rightarrow> alert_subscribe" where
  "FillDatasourceIds j s =
     (if s_DatasourceIds s \<noteq> []
      then (case jc_un_ints j (s_DatasourceIds s) of None \<Rightarrow> s | Some v \<Rightarrow> s\<lparr>s_DatasourceIdsJson := v\<rparr>) else s)"

section \<open>Matching\<close>

definition MatchProd :: "alert_subscribe \<Rightarrow> string \<Rightarrow> bool" where
  "MatchProd s pr = (if s_Prod s = [] then True else s_Prod s = pr)"

definition MatchCate :: "alert_subscribe \<Rightarrow> string \<Rightarrow> bool" where
  "MatchCate s cate =
     (if s_Cate s = [] \<or> cate = [] then True
      else if cate = ''host'' then s_Cate s = ''host''
      else if s_Cate s = ''prometheus'' then True
      else s_Cate s = cate)"

definition MatchCluster :: "alert_subscribe \<Rightarrow> int \<Rightarrow> bool" where
  "MatchCluster s dsId =
     (if s_DatasourceIdsJson s = [] \<or> dsId = 0 then True
      else list_ex (\<lambda>i. i = dsId \<or> i = 0) (s_DatasourceIdsJson s))"

definition ModifyEvent :: "alert_subscribe \<Rightarrow> event \<Rightarrow> event" where
  "ModifyEvent s e =
     (let e1 = (if s_RedefineSeverity s = 1 then e\<lparr>e_Severity := s_NewSeverity s\<rparr> else e);
          e2 = (if s_RedefineChannels s = 1
                then e1\<lparr>e_NotifyChannels := s_NewChannels s, e_NotifyChannelsJSON := Fields (s_NewChannels s)\<rparr> else e1);
          e3 = (if s_RedefineWebhooks s = 1
                then e2\<lparr>e_Callbacks := s_Webhooks s, e_CallbacksJSON := s_WebhooksJson s\<rparr>
                else e2\<lparr>e_Callbacks := [], e_CallbacksJSON := []\<rparr>);
          e4 = e3\<lparr>e_NotifyRuleIds := s_NotifyRuleIds s\<rparr>
      in e4\<lparr>e_NotifyGroups := s_UserGroupIds s, e_NotifyGroupsJSON := Fields (s_UserGroupIds s)\<rparr>)"

definition subMatches :: "env \<Rightarrow> alert_subscribe \<Rightarrow> event \<Rightarrow> bool option" where
  "subMatches x sub event =
     (if IsDisabled sub then Some False
      else if \<not> MatchCluster sub (e_DatasourceId event) then Some False
      else if \<not> MatchProd sub (e_RuleProd event) then Some False
      else if \<not> MatchCate sub (e_Cate event) then Some False
      else do {
        tags \<leftarrow> MatchTags x (e_TagsMap event) (s_ITags sub);
        if \<not> tags then Some False
        else do {
          groups \<leftarrow> MatchGroupsName x (e_GroupName event) (s_IBusiGroups sub);
          Some (if \<not> groups then False
                else if s_ForDuration sub > e_TriggerTime event - e_FirstTriggerTime event then False
                else if s_SeveritiesJson sub \<noteq> []
                then list_ex (\<lambda>sv. sv = e_Severity event \<or> sv = 0) (s_SeveritiesJson sub)
                else True)
        }
      })"

section \<open>The cache\<close>

text \<open>
  What the load keeps of a row, with the rule ids it is filed under; a subscription of no rule is
  filed under 0.
\<close>

definition prepare_sub :: "sub_codec \<Rightarrow> env \<Rightarrow> alert_subscribe \<Rightarrow> alert_subscribe option" where
  "prepare_sub j x row =
     (if s_Disabled row = 1 then None
      else case AlertSubscribe_Parse j x row of
             Inl _ \<Rightarrow> None
           | Inr s1 \<Rightarrow>
               (case AlertSubscribe_DB2FE j s1 of
                  None \<Rightarrow> None
                | Some s2 \<Rightarrow>
                    (let s3 = CompatibleWithOldRuleId (FillDatasourceIds j s2)
                     in Some (if s_RuleIds s3 = [] \<and> s_RuleId s3 = 0 then s3\<lparr>s_RuleIds := s_RuleIds s3 @ [0]\<rparr> else s3))))"

definition build_subs :: "sub_codec \<Rightarrow> env \<Rightarrow> alert_subscribe list \<Rightarrow> (int, alert_subscribe list) gomap" where
  "build_subs j x lst =
     fold (\<lambda>row m. case prepare_sub j x row of
                     None \<Rightarrow> m
                   | Some s \<Rightarrow> fold (\<lambda>rid. mappend rid s) (s_RuleIds s) m) lst []"

definition syncAlertSubscribes ::
  "sub_codec \<Rightarrow> env \<Rightarrow> (int \<times> int, alert_subscribe list) poll
     \<Rightarrow> (int, alert_subscribe list) gomap stat_cache
     \<Rightarrow> sync_outcome \<times> (int, alert_subscribe list) gomap stat_cache"
where
  "syncAlertSubscribes j x q c = sync_body (build_subs j x) length q c"

definition SubscribeCache_Get :: "(int, alert_subscribe list) gomap stat_cache \<Rightarrow> int \<Rightarrow> alert_subscribe list option" where
  "SubscribeCache_Get c ruleId = mget (sc_data c) ruleId"

definition GetStructs :: "(int, alert_subscribe list) gomap stat_cache \<Rightarrow> int \<Rightarrow> alert_subscribe list" where
  "GetStructs c ruleId = (case mget (sc_data c) ruleId of None \<Rightarrow> [] | Some lst \<Rightarrow> lst)"

definition collectSubscribes :: "(int, alert_subscribe list) gomap stat_cache \<Rightarrow> event \<Rightarrow> alert_subscribe list" where
  "collectSubscribes c event =
     (case SubscribeCache_Get c (e_RuleId event) of None \<Rightarrow> [] | Some subs \<Rightarrow> subs) @
     (case SubscribeCache_Get c 0 of None \<Rightarrow> [] | Some subs \<Rightarrow> subs)"

interpretation subscribe_cache: polled_cache "syncAlertSubscribes j x" cache_view
  "\<lambda>rows. Some (build_subs j x rows)"
  for j x
  by unfold_locales (simp add: syncAlertSubscribes_def sync_body_refines)

section \<open>The upgrade to version 6\<close>

text \<open>
  \<open>AlertSubscribeUpgradeToV6\<close>: the columns written for a row; \<open>dsm\<close> gives the data source of a
  cluster name.
\<close>

definition upgrade_ids :: "(string, int) gomap \<Rightarrow> alert_subscribe \<Rightarrow> int list" where
  "upgrade_ids dsm s =
     (if s_Cluster s = ''$all'' then [0]
      else concat (map (\<lambda>cl. case mget dsm cl of None \<Rightarrow> [] | Some i \<Rightarrow> [i]) (Fields (s_Cluster s))))"

definition AlertSubscribeUpgradeToV6 :: "sub_codec \<Rightarrow> (string, int) gomap \<Rightarrow> alert_subscribe \<Rightarrow> alert_subscribe" where
  "AlertSubscribeUpgradeToV6 j dsm s =
     (let s1 = s\<lparr>s_DatasourceIds := jc_ma_ints j (upgrade_ids dsm s)\<rparr>;
          s2 = (if s_Prod s1 = [] then s1\<lparr>s_Prod := ''metric''\<rparr> else s1)
      in s2\<lparr>s_Cate := ''prometheus''\<rparr>)"

section \<open>What the cache answers\<close>

lemma mget_fold_file:
  "mget (fold (\<lambda>rid. mappend rid s) rids m) k =
     (if k \<in> set rids then Some ((case mget m k of None \<Rightarrow> [] | Some vs \<Rightarrow> vs) @ replicate (count_list rids k) s) else mget m k)"
proof (induction rids arbitrary: m)
  case Nil
  then show ?case by simp
next
  case (Cons r rids)
  then show ?case by (auto simp: count_notin split: option.split)
qed

definition filed :: "sub_codec \<Rightarrow> env \<Rightarrow> int \<Rightarrow> alert_subscribe \<Rightarrow> alert_subscribe list" where
  "filed j x k row = (case prepare_sub j x row of None \<Rightarrow> [] | Some s \<Rightarrow> replicate (count_list (s_RuleIds s) k) s)"

lemma build_subs_get:
  "(case mget (build_subs j x lst) k of None \<Rightarrow> [] | Some vs \<Rightarrow> vs) = concat (map (filed j x k) lst)"
proof -
  let ?f = "\<lambda>row m. case prepare_sub j x row of None \<Rightarrow> m | Some s \<Rightarrow> fold (\<lambda>rid. mappend rid s) (s_RuleIds s) m"
  have "(case mget (fold ?f lst m) k of None \<Rightarrow> [] | Some vs \<Rightarrow> vs) =
      (case mget m k of None \<Rightarrow> [] | Some vs \<Rightarrow> vs) @ concat (map (filed j x k) lst)" for m
    by (induction lst arbitrary: m)
      (auto simp: filed_def mget_fold_file count_notin split: option.split)
  from this [of "[]"] show ?thesis by (simp add: build_subs_def)
qed

lemma set_filed: "s \<in> set (filed j x k row) \<longleftrightarrow> prepare_sub j x row = Some s \<and> k \<in> set (s_RuleIds s)"
  by (auto simp: filed_def count_list_0_iff split: option.split)

section \<open>Properties\<close>

text \<open>
  After a load the subscriptions considered for an event are exactly the enabled, well-formed rows
  that name the rule of the event or no rule at all, and each is considered as often as it names
  the rule.
\<close>

theorem collected_subscriptions:
  assumes "syncAlertSubscribes j x (Inr st, Inr rows) c0 = (Success n, c)"
  shows "collectSubscribes c e = concat (map (filed j x (e_RuleId e)) rows) @ concat (map (filed j x 0) rows) \<and>
    (s \<in> set (collectSubscribes c e) \<longleftrightarrow>
      (\<exists>row. row \<in> set rows \<and> prepare_sub j x row = Some s \<and> (e_RuleId e \<in> set (s_RuleIds s) \<or> 0 \<in> set (s_RuleIds s))))"
proof -
  have "sc_data c = build_subs j x rows"
    using assms by (cases st) (auto simp: syncAlertSubscribes_def sync_body_def Set_cache_def Let_def split: if_split_asm)
  then have eq: "collectSubscribes c e = concat (map (filed j x (e_RuleId e)) rows) @ concat (map (filed j x 0) rows)"
    using build_subs_get [of j x rows] by (simp add: collectSubscribes_def SubscribeCache_Get_def)
  then show ?thesis by (auto simp: set_filed)
qed

definition sample_codec :: sub_codec where
  "sample_codec = \<lparr>jc_un_filters = (\<lambda>s. Some []), jc_un_ints = (\<lambda>s. Some [1]), jc_ma_ints = (\<lambda>is. ''[1]''),
     jc_un_strs = (\<lambda>s. Some []), jc_ma_strs = (\<lambda>ss. ''[]''), jc_un_any = (\<lambda>s. Some VNil), jc_ma_any = (\<lambda>v. ''null'')\<rparr>"

definition sample_sub :: "int list \<Rightarrow> alert_subscribe" where
  "sample_sub rids =
     \<lparr>s_Id = 5, s_Name = ''night'', s_Disabled = 0, s_GroupId = 7, s_Prod = [], s_Cate = [], s_DatasourceIds = [],
      s_DatasourceIdsJson = [], s_Cluster = [], s_RuleId = 0, s_Severities = [], s_SeveritiesJson = [2], s_ForDuration = 0,
      s_Tags = [], s_RedefineSeverity = 0, s_NewSeverity = 0, s_RedefineChannels = 0, s_NewChannels = [],
      s_UserGroupIds = ''3'', s_RedefineWebhooks = 0, s_Webhooks = [], s_WebhooksJson = [], s_ExtraConfig = [],
      s_ExtraConfigJson = VNil, s_ITags = [], s_BusiGroups = [], s_IBusiGroups = [], s_RuleIds = rids,
      s_NotifyRuleIds = [], s_NotifyVersion = 0\<rparr>"

lemma prepare_sample: "rids \<noteq> [] \<Longrightarrow> prepare_sub sample_codec sample_env (sample_sub rids) = Some (sample_sub rids)"
  by (simp add: prepare_sub_def sample_sub_def AlertSubscribe_Parse_def GetTagFilters_def AlertSubscribe_DB2FE_def
      CompatibleWithOldRuleId_def FillDatasourceIds_def Let_def)

theorem collected_witness:
  "sample_sub [1] \<in> set (collectSubscribes (snd (syncAlertSubscribes sample_codec sample_env
      (Inr (1, 9), Inr [sample_sub [1]]) (New_cache []))) sample_event)"
proof -
  have ok: "syncAlertSubscribes sample_codec sample_env (Inr (1, 9), Inr [sample_sub [1]]) (New_cache []) =
      (Success 1, snd (syncAlertSubscribes sample_codec sample_env (Inr (1, 9), Inr [sample_sub [1]]) (New_cache [])))"
    by (simp add: syncAlertSubscribes_def sync_body_def StatChanged_def New_cache_def)
  have "s_RuleIds (sample_sub [1]) = [1]" by (simp add: sample_sub_def)
  then show ?thesis
    using collected_subscriptions [OF ok, of sample_event "sample_sub [1]", THEN conjunct2] prepare_sample [of "[1]"] by simp
qed

end
