(* ===== verification/Notify_Target.thy ===== *)
theory Notify_Target
  imports Memsto
begin

text \<open>
  Whom an event goes to: \<^verbatim>\<open>alert/dispatch/notify_channel.go\<close> and
  \<^verbatim>\<open>alert/dispatch/notify_target.go\<close>. A target holds, for each user, which channels are switched on,
  and the web hooks and callback addresses. The theorems compute the target that the handlers of
  \<open>HandleEventNotify\<close> build.
\<close>

section \<open>Channels\<close>

type_synonym notify_channels = "(string, bool) gomap"

definition NewNotifyChannels :: "string list \<Rightarrow> notify_channels" where
  "NewNotifyChannels channels = fold (\<lambda>ch. mput ch True) channels []"

definition nc_merge :: "(bool \<Rightarrow> bool \<Rightarrow> bool) \<Rightarrow> notify_channels \<Rightarrow> notify_channels \<Rightarrow> notify_channels" where
  "nc_merge f nc other =
     fold (\<lambda>(k, v) m. case mget m k of Some curV \<Rightarrow> mput k (f curV v) m | None \<Rightarrow> mput k v m) other nc"

definition NotifyChannels_OrMerge :: "notify_channels \<Rightarrow> notify_channels \<Rightarrow> notify_channels" where
  "NotifyChannels_OrMerge nc other = nc_merge (\<lambda>a b. a \<or> b) nc other"

definition NotifyChannels_AndMerge :: "notify_channels \<Rightarrow> notify_channels \<Rightarrow> notify_channels" where
  "NotifyChannels_AndMerge nc other = nc_merge (\<lambda>a b. a \<and> b) nc other"

section \<open>Targets\<close>

record webhook =
  wh_Enable :: bool
  wh_Url :: string
  wh_Batch :: int
  wh_RetryCount :: int

record notify_target =
  nt_userMap :: "(int, notify_channels) gomap"
  nt_webhooks :: "(string, webhook) gomap"
  nt_callbacks :: "(string, unit) gomap"

definition NewNotifyTarget :: notify_target where
  "NewNotifyTarget = \<lparr>nt_userMap = [], nt_webhooks = [], nt_callbacks = []\<rparr>"

text \<open>A nil target is \<open>None\<close>.\<close>

definition nt_merge ::
  "(notify_channels \<Rightarrow> notify_channels \<Rightarrow> notify_channels) \<Rightarrow> notify_target \<Rightarrow> notify_target option \<Rightarrow> notify_target"
where
  "nt_merge f s other =
     (case other of
        None \<Rightarrow> s
      | Some t \<Rightarrow>
          s\<lparr>nt_userMap := fold (\<lambda>(k, v) m. case mget m k of Some curV \<Rightarrow> mput k (f curV v) m | None \<Rightarrow> mput k v m)
                           (nt_userMap t) (nt_userMap s),
            nt_webhooks := fold (\<lambda>(k, v). mput k v) (nt_webhooks t) (nt_webhooks s),
            nt_callbacks := fold (\<lambda>(k, v). mput k v) (nt_callbacks t) (nt_callbacks s)\<rparr>)"

definition NotifyTarget_OrMerge :: "notify_target \<Rightarrow> notify_target option \<Rightarrow> notify_target" where
  "NotifyTarget_OrMerge s other = nt_merge NotifyChannels_OrMerge s other"

definition NotifyTarget_AndMerge :: "notify_target \<Rightarrow> notify_target option \<Rightarrow> notify_target" where
  "NotifyTarget_AndMerge s other = nt_merge NotifyChannels_AndMerge s other"

text \<open>The orders in which the runtime visits users and channels are parameters.\<close>

definition add_channel_users :: "(string list \<Rightarrow> string list) \<Rightarrow> int \<Rightarrow> notify_channels \<Rightarrow> (string, int list) gomap \<Rightarrow> (string, int list) gomap" where
  "add_channel_users ordC uid nc m =
     fold (\<lambda>ch m. if mget nc ch = Some True then mappend ch uid m else m) (ordC (mkeys nc)) m"

definition ToChannelUserMap ::
  "(int list \<Rightarrow> int list) \<Rightarrow> (string list \<Rightarrow> string list) \<Rightarrow> notify_target \<Rightarrow> (string, int list) gomap"
where
  "ToChannelUserMap ordU ordC s =
     fold (\<lambda>uid m. add_channel_users ordC uid (the (mget (nt_userMap s) uid)) m) (ordU (mkeys (nt_userMap s))) []"

definition ToCallbackList :: "(string list \<Rightarrow> string list) \<Rightarrow> notify_target \<Rightarrow> string list" where
  "ToCallbackList ord s = ord (mkeys (nt_callbacks s))"

definition ToWebhookMap :: "notify_target \<Rightarrow> (string, webhook) gomap" where
  "ToWebhookMap s = nt_webhooks s"

definition ToUidList :: "(int list \<Rightarrow> int list) \<Rightarrow> notify_target \<Rightarrow> int list" where
  "ToUidList ord s = ord (mkeys (nt_userMap s))"

section \<open>Handlers\<close>

text \<open>
  A handler gets the target built so far and answers with the target after its own changes to it and
  with the target to merge, if any.
\<close>

definition group_ids :: "event \<Rightarrow> int list" where
  "group_ids event = concat (map (\<lambda>g. case ParseInt g of None \<Rightarrow> [] | Some i \<Rightarrow> [i]) (e_NotifyGroupsJSON event))"

definition NotifyGroupDispatch ::
  "(int, user_group) gomap stat_cache \<Rightarrow> event \<Rightarrow> notify_target \<Rightarrow> notify_target \<times> notify_target option"
where
  "NotifyGroupDispatch ugc event prev =
     (let groups = GetByUserGroupIds ugc (group_ids event);
          uids = concat (map ug_UserIds groups)
      in (prev, Some (NewNotifyTarget\<lparr>nt_userMap :=
            fold (\<lambda>uid. mput uid (NewNotifyChannels (e_NotifyChannelsJSON event))) uids []\<rparr>)))"

definition GlobalWebhookDispatch :: "webhook list \<Rightarrow> event \<Rightarrow> notify_target \<Rightarrow> notify_target \<times> notify_target option" where
  "GlobalWebhookDispatch whs event prev =
     (prev, Some (NewNotifyTarget\<lparr>nt_webhooks := fold (\<lambda>w. mput (wh_Url w) w) (filter wh_Enable whs) []\<rparr>))"

definition EventCallbacksDispatch :: "event \<Rightarrow> notify_target \<Rightarrow> notify_target \<times> notify_target option" where
  "EventCallbacksDispatch event prev =
     (prev\<lparr>nt_callbacks := fold (\<lambda>c. mput c ()) (filter (\<lambda>c. c \<noteq> []) (e_CallbacksJSON event)) (nt_callbacks prev)\<rparr>, None)"

text \<open>The loop over the handlers in \<open>HandleEventNotify\<close>.\<close>

fun run_handlers :: "(notify_target \<Rightarrow> notify_target \<times> notify_target option) list \<Rightarrow> notify_target \<Rightarrow> notify_target" where
  "run_handlers [] t = t"
| "run_handlers (h # hs) t = (let (prev, other) = h t in run_handlers hs (NotifyTarget_OrMerge prev other))"

definition build_target ::
  "(int, user_group) gomap stat_cache \<Rightarrow> webhook list \<Rightarrow> bool \<Rightarrow> event \<Rightarrow> notify_target"
where
  "build_target ugc whs isSubscribe event =
     run_handlers
       (if isSubscribe then [NotifyGroupDispatch ugc event, EventCallbacksDispatch event]
        else [NotifyGroupDispatch ugc event, GlobalWebhookDispatch whs event, EventCallbacksDispatch event])
       NewNotifyTarget"

section \<open>Lemmas\<close>

definition sends :: "notify_target \<Rightarrow> int \<Rightarrow> string \<Rightarrow> bool" where
  "sends t uid ch \<longleftrightarrow> (\<exists>nc. mget (nt_userMap t) uid = Some nc \<and> mget nc ch = Some True)"

text \<open>Merging a map entry by entry, with distinct keys on the right.\<close>

lemma mget_fold_merge:
  assumes "mwf other"
  shows "mget (fold (\<lambda>(k, v) m. case mget m k of Some c \<Rightarrow> mput k (f c v) m | None \<Rightarrow> mput k v m) other m) k =
    (case mget other k of
       None \<Rightarrow> mget m k
     | Some v \<Rightarrow> Some (case mget m k of Some c \<Rightarrow> f c v | None \<Rightarrow> v))"
  using assms
proof (induction other arbitrary: m)
  case Nil
  then show ?case by simp
next
  case (Cons kv other)
  obtain k0 v0 where kv: "kv = (k0, v0)" by (cases kv)
  have "mget other k0 = None" and wf: "mwf other" using Cons.prems kv by (auto simp: mwf_def map_of_eq_None_iff)
  then show ?case using Cons.IH [OF wf] kv by (auto split: option.split)
qed

lemma mwf_fold_pairs: "mwf m \<Longrightarrow> mwf (fold (\<lambda>(k, v) m. case mget m k of Some c \<Rightarrow> mput k (f c v) m | None \<Rightarrow> mput k v m) kvs m)"
  by (induction kvs arbitrary: m) (auto split: option.split)

lemma NewNotifyChannels_get: "mget (NewNotifyChannels chs) ch = (if ch \<in> set chs then Some True else None)"
proof -
  have "mget (fold (\<lambda>ch. mput ch True) chs m) ch = (if ch \<in> set chs then Some True else mget m ch)" for m
    by (induction chs arbitrary: m) auto
  then show ?thesis by (simp add: NewNotifyChannels_def)
qed

lemma mwf_fold_const: "mwf m \<Longrightarrow> mwf (fold (\<lambda>k. mput k v) ks m)"
  by (induction ks arbitrary: m) auto

lemma mget_fold_const: "mget (fold (\<lambda>k. mput k v) ks m) k = (if k \<in> set ks then Some v else mget m k)"
  by (induction ks arbitrary: m) auto

text \<open>The user map of the target that the handlers build.\<close>

lemma build_target_users:
  "mget (nt_userMap (build_target ugc whs isSub event)) uid =
     (if \<exists>g \<in> set (GetByUserGroupIds ugc (group_ids event)). uid \<in> set (ug_UserIds g)
      then Some (NewNotifyChannels (e_NotifyChannelsJSON event)) else None)"
  "mwf (nt_userMap (build_target ugc whs isSub event))"
proof -
  let ?um = "fold (\<lambda>uid. mput uid (NewNotifyChannels (e_NotifyChannelsJSON event)))
      (concat (map ug_UserIds (GetByUserGroupIds ugc (group_ids event)))) []"
  have wf: "mwf ?um" by (rule mwf_fold_const) simp
  have "nt_userMap (build_target ugc whs isSub event) =
      fold (\<lambda>(k, v) m. case mget m k of Some c \<Rightarrow> mput k (NotifyChannels_OrMerge c v) m | None \<Rightarrow> mput k v m) ?um []"
    by (simp add: build_target_def NotifyGroupDispatch_def GlobalWebhookDispatch_def EventCallbacksDispatch_def
        NotifyTarget_OrMerge_def nt_merge_def NewNotifyTarget_def Let_def)
  then show "mget (nt_userMap (build_target ugc whs isSub event)) uid =
     (if \<exists>g \<in> set (GetByUserGroupIds ugc (group_ids event)). uid \<in> set (ug_UserIds g)
      then Some (NewNotifyChannels (e_NotifyChannelsJSON event)) else None)"
    and "mwf (nt_userMap (build_target ugc whs isSub event))"
    using mget_fold_merge [OF wf, where m = "[]" and f = NotifyChannels_OrMerge]
      mwf_fold_pairs [of "[]" NotifyChannels_OrMerge ?um]
    by (auto simp: mget_fold_const split: option.split)
qed

text \<open>Turning the user map around.\<close>

lemma add_channel_users_get:
  assumes "range_order ordC" and "mwf nc"
  shows "(case mget (add_channel_users ordC uid nc m) ch of None \<Rightarrow> [] | Some us \<Rightarrow> us) =
    (case mget m ch of None \<Rightarrow> [] | Some us \<Rightarrow> us) @ (if mget nc ch = Some True then [uid] else [])"
proof -
  have "(case mget (fold (\<lambda>ch m. if mget nc ch = Some True then mappend ch uid m else m) chs m) ch of None \<Rightarrow> [] | Some us \<Rightarrow> us) =
      (case mget m ch of None \<Rightarrow> [] | Some us \<Rightarrow> us) @ (if ch \<in> set chs \<and> mget nc ch = Some True then [uid] else [])"
    if "distinct chs" for chs
    using that by (induction chs arbitrary: m) (auto split: option.split)
  moreover have "distinct (ordC (mkeys nc))" using assms by (simp add: distinct_range_order mwf_def mkeys_def)
  moreover have "ch \<in> set (ordC (mkeys nc))" if "mget nc ch = Some True"
    using that assms(1) by (simp add: set_range_order in_mkeys_iff mhas_def)
  ultimately show ?thesis by (auto simp: add_channel_users_def)
qed

lemma ToChannelUserMap_get:
  assumes "range_order ordU" and "range_order ordC" and "\<forall>uid nc. mget (nt_userMap t) uid = Some nc \<longrightarrow> mwf nc"
  shows "(case mget (ToChannelUserMap ordU ordC t) ch of None \<Rightarrow> [] | Some us \<Rightarrow> us) =
    filter (\<lambda>uid. sends t uid ch) (ordU (mkeys (nt_userMap t)))"
proof -
  have "(case mget (fold (\<lambda>uid m. add_channel_users ordC uid (the (mget (nt_userMap t) uid)) m) uids m) ch of None \<Rightarrow> [] | Some us \<Rightarrow> us) =
      (case mget m ch of None \<Rightarrow> [] | Some us \<Rightarrow> us) @ filter (\<lambda>uid. sends t uid ch) uids"
    if "\<forall>uid \<in> set uids. mhas (nt_userMap t) uid" for uids m
    using that
  proof (induction uids arbitrary: m)
    case Nil
    then show ?case by simp
  next
    case (Cons uid uids)
    then obtain nc where "mget (nt_userMap t) uid = Some nc" by (auto simp: mhas_def)
    with Cons assms(3) add_channel_users_get [OF assms(2), of nc uid m ch] show ?case by (auto simp: sends_def)
  qed
  moreover have "\<forall>uid \<in> set (ordU (mkeys (nt_userMap t))). mhas (nt_userMap t) uid"
    using assms(1) by (simp add: set_range_order in_mkeys_iff)
  ultimately show ?thesis by (simp add: ToChannelUserMap_def)
qed

section \<open>Properties\<close>

text \<open>
  The users to whom an event is sent over a channel are exactly the members of its notification
  groups, each once, if the event names the channel, and nobody otherwise.
\<close>

theorem channel_users_are_the_group_members:
  assumes "range_order ordU" and "range_order ordC"
  shows "let t = build_target ugc whs isSub event;
             us = (case mget (ToChannelUserMap ordU ordC t) ch of None \<Rightarrow> [] | Some us \<Rightarrow> us)
         in distinct us \<and>
            set us = (if ch \<in> set (e_NotifyChannelsJSON event)
                      then {uid. \<exists>g. g \<in> set (GetByUserGroupIds ugc (group_ids event)) \<and> uid \<in> set (ug_UserIds g)} else {})"
proof -
  let ?t = "build_target ugc whs isSub event"
  note users = build_target_users [of ugc whs isSub event]
  have wf: "mwf (NewNotifyChannels chs)" for chs unfolding NewNotifyChannels_def by (rule mwf_fold_const) simp
  have inner: "\<forall>uid nc. mget (nt_userMap ?t) uid = Some nc \<longrightarrow> mwf nc" using users(1) wf by auto
  have "distinct (ordU (mkeys (nt_userMap ?t)))"
    using assms(1) users(2) by (simp add: distinct_range_order mwf_def mkeys_def)
  moreover have "uid \<in> set (ordU (mkeys (nt_userMap ?t))) \<longleftrightarrow>
      (\<exists>g \<in> set (GetByUserGroupIds ugc (group_ids event)). uid \<in> set (ug_UserIds g))" for uid
    using assms(1) users(1) by (simp add: set_range_order in_mkeys_iff mhas_def)
  moreover have "sends ?t uid ch \<longleftrightarrow> ch \<in> set (e_NotifyChannelsJSON event) \<and>
      (\<exists>g \<in> set (GetByUserGroupIds ugc (group_ids event)). uid \<in> set (ug_UserIds g))" for uid
    using users(1) by (auto simp: sends_def NewNotifyChannels_get)
  ultimately show ?thesis
    unfolding Let_def ToChannelUserMap_get [OF assms inner] by auto
qed

theorem channel_users_witness:
  "let ugc = Set_cache [(3, \<lparr>ug_Id = 3, ug_Name = ''ops'', ug_UserIds = [11, 12]\<rparr>)] 1 1 (New_cache []);
       ev = sample_event\<lparr>e_NotifyGroupsJSON := [''3''], e_NotifyChannelsJSON := [''email'']\<rparr>
   in set (case mget (ToChannelUserMap rev rev (build_target ugc [] False ev)) ''email'' of None \<Rightarrow> [] | Some us \<Rightarrow> us) =
      {11, 12}"
  using channel_users_are_the_group_members [of rev rev
      "Set_cache [(3, \<lparr>ug_Id = 3, ug_Name = ''ops'', ug_UserIds = [11, 12]\<rparr>)] 1 1 (New_cache [])" "[]" False
      "sample_event\<lparr>e_NotifyGroupsJSON := [''3''], e_NotifyChannelsJSON := [''email'']\<rparr>" "''email''"]
  by (auto simp: Let_def group_ids_def GetByUserGroupIds_def Set_cache_def New_cache_def ParseInt_def is_digit_def)

end
