(* ===== verification/Notify_Rule.thy ===== *)
theory Notify_Rule
  imports Event_Pipeline Mute
begin

text \<open>
  Notification rules: the record of \<^verbatim>\<open>models/notify_rule.go\<close>, the cache of
  \<^verbatim>\<open>memsto/notify_rule_cache.go\<close>, and from \<^verbatim>\<open>alert/dispatch/dispatch.go\<close> the check of an event against
  a notification configuration, the receivers of a configuration, and the loop that sends an event
  to the rules it names. Sending itself is an action in the answer.
\<close>

section \<open>The records\<close>

record time_ranges =
  tr_Start :: string
  tr_End :: string
  tr_Week :: "int list"

record notify_config =
  cf_ChannelID :: int
  cf_TemplateID :: int
  cf_Params :: "(string, goval) gomap"
  cf_Severities :: "int list"
  cf_TimeRanges :: "time_ranges list"
  cf_LabelKeys :: "tag_filter list"
  cf_Attributes :: "tag_filter list"

record notify_rule =
  nf_ID :: int
  nf_Name :: string
  nf_Enable :: bool
  nf_UserGroupIds :: "int list"
  nf_PipelineConfigs :: "pipeline_config list"
  nf_NotifyConfigs :: "notify_config list"

datatype notify_rule_error =
    NotifyNameEmpty
  | InvalidChannelID
  | InvalidSeverity
  | StartEmpty
  | EndEmpty
  | BadLabelKey filter_error

definition TimeRanges_Verify :: "time_ranges \<Rightarrow> notify_rule_error option" where
  "TimeRanges_Verify t = (if tr_Start t = [] then Some StartEmpty else if tr_End t = [] then Some EndEmpty else None)"

definition label_error :: "tag_filter \<Rightarrow> notify_rule_error option" where
  "label_error f = (case TagFilter_Verify f of Inl err \<Rightarrow> Some (BadLabelKey err) | Inr _ \<Rightarrow> None)"

text \<open>The first error of a list of checks.\<close>

fun first_error :: "('a \<Rightarrow> 'b option) \<Rightarrow> 'a list \<Rightarrow> 'b option" where
  "first_error chk [] = None"
| "first_error chk (a # as) = (case chk a of None \<Rightarrow> first_error chk as | Some err \<Rightarrow> Some err)"

definition NotifyConfig_Verify :: "notify_config \<Rightarrow> notify_rule_error option" where
  "NotifyConfig_Verify c =
     (if cf_ChannelID c \<le> 0 then Some InvalidChannelID
      else if list_ex (\<lambda>sv. sv < 1 \<or> sv > 3) (cf_Severities c) then Some InvalidSeverity
      else case first_error TimeRanges_Verify (cf_TimeRanges c) of
             Some err \<Rightarrow> Some err
           | None \<Rightarrow> first_error label_error (cf_LabelKeys c))"

definition NotifyRule_Verify :: "notify_rule \<Rightarrow> notify_rule_error option" where
  "NotifyRule_Verify r =
     (if nf_Name r = [] then Some NotifyNameEmpty else first_error NotifyConfig_Verify (nf_NotifyConfigs r))"

definition syncNotifyRules ::
  "(int \<times> int, notify_rule list) poll \<Rightarrow> (int, notify_rule) gomap stat_cache
     \<Rightarrow> sync_outcome \<times> (int, notify_rule) gomap stat_cache"
where
  "syncNotifyRules q c = sync_body (by_id nf_ID) (\<lambda>lst. length (by_id nf_ID lst)) q c"

definition NotifyRuleCache_Get :: "(int, notify_rule) gomap stat_cache \<Rightarrow> int \<Rightarrow> notify_rule option" where
  "NotifyRuleCache_Get c ruleId = mget (sc_data c) ruleId"

interpretation notify_rule_cache: polled_cache syncNotifyRules cache_view "\<lambda>rows. Some (by_id nf_ID rows)"
  by unfold_locales (simp add: syncNotifyRules_def sync_body_refines)

section \<open>Checking an event against a configuration\<close>

datatype check_error =
    TimeFilter
  | SeverityFilter
  | BadFilter filter_error
  | TagFilterMiss
  | AttributeFilterMiss

text \<open>One weekday of a range; the clock is the zone of the host.\<close>

definition inside_range :: "string \<Rightarrow> string \<Rightarrow> string \<Rightarrow> bool" where
  "inside_range triggerTime stime etime =
     (if stime < etime then
        (if etime = ''23:59'' then \<not> triggerTime < stime
         else \<not> (triggerTime < stime \<or> triggerTime \<ge> etime))
      else if stime > etime then \<not> (triggerTime < stime \<and> triggerTime \<ge> etime)
      else True)"

fun week_match :: "string \<Rightarrow> int \<Rightarrow> string \<Rightarrow> string \<Rightarrow> int list \<Rightarrow> bool" where
  "week_match triggerTime triggerWeek stime etime [] = False"
| "week_match triggerTime triggerWeek stime etime (d # ds) =
     (if d \<noteq> triggerWeek then week_match triggerTime triggerWeek stime etime ds
      else if \<not> inside_range triggerTime stime etime then week_match triggerTime triggerWeek stime etime ds
      else True)"

fun ranges_match :: "string \<Rightarrow> int \<Rightarrow> time_ranges list \<Rightarrow> bool" where
  "ranges_match triggerTime triggerWeek [] = False"
| "ranges_match triggerTime triggerWeek (r # rs) =
     (if week_match triggerTime triggerWeek (tr_Start r) (tr_End r) (tr_Week r) then True
      else ranges_match triggerTime triggerWeek rs)"

definition NotifyRuleMatchCheck :: "env \<Rightarrow> notify_config \<Rightarrow> event \<Rightarrow> (check_error + unit) option" where
  "NotifyRuleMatchCheck x cfg e =
     (let triggerTime = Format_15_04 (x_Local x) (e_TriggerTime e);
          triggerWeek = Weekday (x_Local x) (e_TriggerTime e);
          timeMatch = (if cf_TimeRanges cfg = [] then True else ranges_match triggerTime triggerWeek (cf_TimeRanges cfg))
      in if \<not> timeMatch then Some (Inl TimeFilter)
         else if \<not> list_ex (\<lambda>sv. sv = e_Severity e) (cf_Severities cfg) then Some (Inl SeverityFilter)
         else do {
           t \<leftarrow> filters_match x (e_TagsMap e) (map default_func (cf_LabelKeys cfg));
           (case t of
              Inl err \<Rightarrow> Some (Inl (BadFilter err))
            | Inr tagMatch \<Rightarrow>
                if \<not> tagMatch then Some (Inl TagFilterMiss)
                else do {
                  a \<leftarrow> filters_match x (JsonTagsAndValue x e) (cf_Attributes cfg);
                  (case a of
                     Inl err \<Rightarrow> Some (Inl (BadFilter err))
                   | Inr attributesMatch \<Rightarrow> Some (if \<not> attributesMatch then Inl AttributeFilterMiss else Inr ()))
                })
         })"

section \<open>Receivers\<close>

text \<open>
  \<^verbatim>\<open>json.Marshal\<close> followed by \<^verbatim>\<open>json.Unmarshal\<close> into a slice of integers or of strings; \<open>None\<close> is an
  error of the decoder. A JSON null leaves the zero value.
\<close>

definition as_int :: "goval \<Rightarrow> int option" where
  "as_int v =
     (case v of
        VNil \<Rightarrow> Some 0
      | VInt i \<Rightarrow> Some i
      | VFloat q \<Rightarrow> (if of_int \<lfloor>q\<rfloor> = q \<and> - (2 ^ 63) \<le> \<lfloor>q\<rfloor> \<and> \<lfloor>q\<rfloor> < 2 ^ 63 then Some \<lfloor>q\<rfloor> else None)
      | _ \<Rightarrow> None)"

definition as_str :: "goval \<Rightarrow> string option" where
  "as_str v = (case v of VNil \<Rightarrow> Some [] | VStr s \<Rightarrow> Some s | _ \<Rightarrow> None)"

definition as_ints :: "goval \<Rightarrow> int list option" where
  "as_ints v =
     (case v of
        VNil \<Rightarrow> Some []
      | VInts is \<Rightarrow> Some is
      | VStrs ss \<Rightarrow> (if ss = [] then Some [] else None)
      | VArr vs \<Rightarrow> those (map as_int vs)
      | _ \<Rightarrow> None)"

definition as_strs :: "goval \<Rightarrow> string list option" where
  "as_strs v =
     (case v of
        VNil \<Rightarrow> Some []
      | VStrs ss \<Rightarrow> Some ss
      | VInts is \<Rightarrow> (if is = [] then Some [] else None)
      | VArr vs \<Rightarrow> those (map as_str vs)
      | _ \<Rightarrow> None)"

record notify_params =
  np_userIDs :: "int list"
  np_userGroupIDs :: "int list"
  np_flashDuty :: "int list"
  np_pagerDuty :: "string list"
  np_custom :: "(string, string) gomap"
  np_imGroups :: "string list"

definition or_else :: "'a \<Rightarrow> 'a option \<Rightarrow> 'a" where
  "or_else d v = (case v of None \<Rightarrow> d | Some a \<Rightarrow> a)"

text \<open>One entry of the parameters; the keys of a map are distinct, so the order does not matter.\<close>

definition read_param :: "env \<Rightarrow> string \<times> goval \<Rightarrow> notify_params \<Rightarrow> notify_params" where
  "read_param x kv p =
     (case kv of (key, v) \<Rightarrow>
        if key = ''user_ids'' then p\<lparr>np_userIDs := or_else (np_userIDs p) (as_ints v)\<rparr>
        else if key = ''user_group_ids'' then p\<lparr>np_userGroupIDs := or_else (np_userGroupIDs p) (as_ints v)\<rparr>
        else if key = ''ids'' then p\<lparr>np_flashDuty := or_else (np_flashDuty p) (as_ints v)\<rparr>
        else if key = ''pagerduty_integration_ids'' then p
        else if key = ''pagerduty_integration_keys'' then p\<lparr>np_pagerDuty := or_else (np_pagerDuty p) (as_strs v)\<rparr>
        else if key = ''im_group_ids'' then p\<lparr>np_imGroups := or_else (np_imGroups p) (as_strs v)\<rparr>
        else p\<lparr>np_custom := mput key (sprint_v x v) (np_custom p)\<rparr>)"

text \<open>
  \<open>ExtractToken\<close>; \<open>gj u key\<close> is the entry of the contacts of the user as the JSON package reads it,
  the empty text where there is none.
\<close>

definition ExtractToken :: "(user \<Rightarrow> string \<Rightarrow> string) \<Rightarrow> user \<Rightarrow> string \<Rightarrow> string" where
  "ExtractToken gj u key =
     (if key = ''dingtalk'' then gj u ''dingtalk_robot_token''
      else if key = ''wecom'' then gj u ''wecom_robot_token''
      else if key = ''feishu'' \<or> key = ''feishucard'' then gj u ''feishu_robot_token''
      else if key = ''mm'' then gj u ''mm_webhook_url''
      else if key = ''telegram'' then gj u ''telegram_robot_token''
      else if key = ''email'' then u_Email u
      else if key = ''lark'' \<or> key = ''larkcard'' then gj u ''lark_robot_token''
      else if key = ''phone'' then u_Phone u
      else gj u key)"

definition sendto_of :: "(user \<Rightarrow> string \<Rightarrow> string) \<Rightarrow> string \<Rightarrow> user \<Rightarrow> string" where
  "sendto_of gj contactKey u =
     (if contactKey = ''phone'' then u_Phone u
      else if contactKey = ''email'' then u_Email u
      else ExtractToken gj u contactKey)"

fun collect_sendtos :: "(user \<Rightarrow> string \<Rightarrow> string) \<Rightarrow> string \<Rightarrow> int list \<Rightarrow> user list \<Rightarrow> string list" where
  "collect_sendtos gj contactKey visited [] = []"
| "collect_sendtos gj contactKey visited (u # us) =
     (if u_Id u \<in> set visited then collect_sendtos gj contactKey visited us
      else let sendto = sendto_of gj contactKey u
           in if sendto = [] then collect_sendtos gj contactKey visited us
              else sendto # collect_sendtos gj contactKey (u_Id u # visited) us)"

definition GetNotifyConfigParams ::
  "env \<Rightarrow> (user \<Rightarrow> string \<Rightarrow> string) \<Rightarrow> notify_config \<Rightarrow> string \<Rightarrow> user_cache \<Rightarrow> (int, user_group) gomap stat_cache
     \<Rightarrow> string list \<times> int list \<times> string list \<times> (string, string) gomap \<times> string list"
where
  "GetNotifyConfigParams x gj cfg contactKey uc ugc =
     (let p = fold (read_param x) (cf_Params cfg)
                \<lparr>np_userIDs = [], np_userGroupIDs = [], np_flashDuty = [], np_pagerDuty = [], np_custom = [], np_imGroups = []\<rparr>;
          userIds = np_userIDs p @ concat (map ug_UserIds (GetByUserGroupIds ugc (np_userGroupIDs p)));
          sendtos = (if np_userIDs p = [] \<and> np_userGroupIDs p = [] then []
                     else collect_sendtos gj contactKey [] (GetByUserIds uc userIds))
      in (sendtos, np_flashDuty p, np_pagerDuty p, np_custom p, np_imGroups p))"

text \<open>What the record of a notification shows as target; four trailing characters are masked
  (a text counts as its runes here).\<close>

definition mask :: "string \<Rightarrow> string" where
  "mask v = (if length v \<le> 4 then v else take (length v - 4) v @ ''****'')"

definition getSendTarget :: "(string list \<Rightarrow> string list) \<Rightarrow> (string, string) gomap \<Rightarrow> string list \<Rightarrow> string" where
  "getSendTarget ord customParams sendtos =
     (if customParams = [] then Join sendtos '',''
      else Join (map (\<lambda>k. mask (the (mget customParams k))) (ord (mkeys customParams))) '','')"

section \<open>Sending an event to its notification rules\<close>

record notify_channel =
  ch_ID :: int
  ch_Name :: string
  ch_Ident :: string
  ch_RequestType :: string

datatype notify_action =
    SendBy int notify_config notify_channel event \<comment> \<open>the goroutine that sends\<close>
  | RecordNoChannel int int event
  | RecordNoTemplate int string event
  | RecordDropped int int event

definition shouldSkipNotify :: "event option \<Rightarrow> bool" where
  "shouldSkipNotify ev =
     (case ev of None \<Rightarrow> True | Some e \<Rightarrow> e_IsRecovered e \<and> e_NotifyRecovered e = 0)"

definition notify_config_action ::
  "env \<Rightarrow> (int, notify_channel) gomap \<Rightarrow> (int, string) gomap \<Rightarrow> int \<Rightarrow> event \<Rightarrow> notify_config \<Rightarrow> notify_action list option"
where
  "notify_config_action x channels templates rid e cfg =
     do {
       r \<leftarrow> NotifyRuleMatchCheck x cfg e;
       Some (case r of
               Inl _ \<Rightarrow> []
             | Inr _ \<Rightarrow>
                 (case mget channels (cf_ChannelID cfg) of
                    None \<Rightarrow> [RecordNoChannel rid (cf_ChannelID cfg) e]
                  | Some ch \<Rightarrow>
                      if ch_RequestType ch \<noteq> ''flashduty'' \<and> ch_RequestType ch \<noteq> ''pagerduty'' \<and>
                         mget templates (cf_TemplateID cfg) = None
                      then [RecordNoTemplate rid (ch_Name ch) e] else [SendBy rid cfg ch e]))
     }"

fun notify_configs_actions ::
  "env \<Rightarrow> (int, notify_channel) gomap \<Rightarrow> (int, string) gomap \<Rightarrow> int \<Rightarrow> event \<Rightarrow> notify_config list \<Rightarrow> notify_action list option"
where
  "notify_configs_actions x channels templates rid e [] = Some []"
| "notify_configs_actions x channels templates rid e (cfg # cfgs) =
     do {
       as \<leftarrow> notify_config_action x channels templates rid e cfg;
       bs \<leftarrow> notify_configs_actions x channels templates rid e cfgs;
       Some (as @ bs)
     }"

definition notify_rule_actions ::
  "alert_ctx \<Rightarrow> int \<Rightarrow> (int, event_pipeline) gomap \<Rightarrow> (int, notify_rule) gomap stat_cache \<Rightarrow> (int, notify_channel) gomap
     \<Rightarrow> (int, string) gomap \<Rightarrow> event \<Rightarrow> int \<Rightarrow> notify_action list option"
where
  "notify_rule_actions ac now pipelines rules channels templates origin rid =
     (case NotifyRuleCache_Get rules rid of
        None \<Rightarrow> Some []
      | Some rule \<Rightarrow>
          (if \<not> nf_Enable rule then Some []
           else do {
             (ev, t) \<leftarrow> HandleEventPipeline ac now pipelines rid ''notify_rule'' (nf_PipelineConfigs rule)
                          (origin\<lparr>e_NotifyRuleId := rid, e_NotifyRuleName := nf_Name rule\<rparr>);
             (case ev of
                None \<Rightarrow> Some (case pt_drop t of None \<Rightarrow> [] | Some pid \<Rightarrow> [RecordDropped rid pid origin])
              | Some e \<Rightarrow>
                  if shouldSkipNotify (Some e) then Some []
                  else notify_configs_actions (ac_env ac) channels templates rid e (nf_NotifyConfigs rule))
           }))"

fun notify_rules_actions ::
  "alert_ctx \<Rightarrow> int \<Rightarrow> (int, event_pipeline) gomap \<Rightarrow> (int, notify_rule) gomap stat_cache \<Rightarrow> (int, notify_channel) gomap
     \<Rightarrow> (int, string) gomap \<Rightarrow> event \<Rightarrow> int list \<Rightarrow> notify_action list option"
where
  "notify_rules_actions ac now pipelines rules channels templates origin [] = Some []"
| "notify_rules_actions ac now pipelines rules channels templates origin (rid # rids) =
     do {
       as \<leftarrow> notify_rule_actions ac now pipelines rules channels templates origin rid;
       bs \<leftarrow> notify_rules_actions ac now pipelines rules channels templates origin rids;
       Some (as @ bs)
     }"

definition HandleEventWithNotifyRule ::
  "alert_ctx \<Rightarrow> int \<Rightarrow> (int, event_pipeline) gomap \<Rightarrow> (int, notify_rule) gomap stat_cache \<Rightarrow> (int, notify_channel) gomap
     \<Rightarrow> (int, string) gomap \<Rightarrow> event \<Rightarrow> notify_action list option"
where
  "HandleEventWithNotifyRule ac now pipelines rules channels templates origin =
     notify_rules_actions ac now pipelines rules channels templates origin (e_NotifyRuleIds origin)"

section \<open>Lemmas\<close>

lemma week_match_iff:
  "week_match tt w st et ds \<longleftrightarrow> w \<in> set ds \<and> inside_range tt st et"
  by (induction ds) auto

lemma inside_range_window:
  assumes "s < 1440" and "e \<le> 1440" and "m < 1440"
  shows "inside_range (hhmm m) (hhmm s) (hhmm e) \<longleftrightarrow> in_window s e m"
proof -
  have b: "s < 6000" "e < 6000" "m < 6000" using assms by auto
  show ?thesis
    unfolding inside_range_def hhmm_2359 [OF b(2)]
      hhmm_less [OF b(1,2)] hhmm_less [OF b(3,1)] hhmm_less [OF b(2,1)] hhmm_le [OF b(2,3)]
    by (auto simp: in_window_def)
qed

text \<open>A time range as the form writes it: weekdays, first minute, end minute.\<close>

definition mk_range :: "int list \<times> nat \<times> nat \<Rightarrow> time_ranges" where
  "mk_range r = (case r of (ws, s, e) \<Rightarrow> \<lparr>tr_Start = hhmm s, tr_End = hhmm e, tr_Week = ws\<rparr>)"

definition range_ok :: "int list \<times> nat \<times> nat \<Rightarrow> bool" where
  "range_ok r = (case r of (ws, s, e) \<Rightarrow> s < 1440 \<and> e \<le> 1440)"

lemma ranges_match_windows:
  assumes "list_all range_ok rs" and "m < 1440"
  shows "ranges_match (hhmm m) w (map mk_range rs) \<longleftrightarrow> list_ex (\<lambda>(ws, s, e). w \<in> set ws \<and> in_window s e m) rs"
  using assms
  by (induction rs) (auto simp: mk_range_def range_ok_def week_match_iff inside_range_window)

lemma MatchCheck_ok:
  assumes "NotifyRuleMatchCheck x cfg e = Some (Inr u)"
  shows "e_Severity e \<in> set (cf_Severities cfg)"
  using assms by (auto simp: NotifyRuleMatchCheck_def Let_def list_ex_iff split: if_split_asm bind_splits)

lemma notify_config_action_sends:
  assumes "notify_config_action x channels templates rid e c = Some as" and "SendBy rid' cfg ch e' \<in> set as"
  shows "rid' = rid \<and> e' = e \<and> cfg = c \<and> NotifyRuleMatchCheck x cfg e = Some (Inr ()) \<and>
    mget channels (cf_ChannelID cfg) = Some ch"
  using assms
  by (auto simp: notify_config_action_def split: bind_splits sum.split_asm option.split_asm if_split_asm)

lemma notify_configs_actions_sends:
  assumes "notify_configs_actions x channels templates rid e cfgs = Some as" and "SendBy rid' cfg ch e' \<in> set as"
  shows "rid' = rid \<and> e' = e \<and> cfg \<in> set cfgs \<and> NotifyRuleMatchCheck x cfg e = Some (Inr ()) \<and>
    mget channels (cf_ChannelID cfg) = Some ch"
  using assms
proof (induction cfgs arbitrary: as)
  case Nil
  then show ?case by simp
next
  case (Cons c cfgs)
  obtain as1 as2 where one: "notify_config_action x channels templates rid e c = Some as1"
    and rest: "notify_configs_actions x channels templates rid e cfgs = Some as2" and "as = as1 @ as2"
    using Cons.prems(1) by (auto split: bind_splits)
  then consider "SendBy rid' cfg ch e' \<in> set as1" | "SendBy rid' cfg ch e' \<in> set as2" using Cons.prems(2) by auto
  then show ?case
  proof cases
    case 1
    from notify_config_action_sends [OF one this] show ?thesis by auto
  next
    case 2
    then show ?thesis using Cons.IH [OF rest] by simp
  qed
qed

lemma notify_rules_actions_sends:
  assumes "notify_rules_actions ac now pipelines rules channels templates origin rids = Some as" and "a \<in> set as"
  shows "\<exists>rid bs. rid \<in> set rids \<and> notify_rule_actions ac now pipelines rules channels templates origin rid = Some bs \<and> a \<in> set bs"
  using assms
proof (induction rids arbitrary: as)
  case Nil
  then show ?case by simp
next
  case (Cons r rids)
  obtain bs cs where bs: "notify_rule_actions ac now pipelines rules channels templates origin r = Some bs"
    and cs: "notify_rules_actions ac now pipelines rules channels templates origin rids = Some cs" and "as = bs @ cs"
    using Cons.prems(1) by (auto split: bind_splits)
  then consider "a \<in> set bs" | "a \<in> set cs" using Cons.prems(2) by auto
  then show ?case
  proof cases
    case 1
    with bs show ?thesis by auto
  next
    case 2
    with Cons.IH [OF cs] show ?thesis by auto
  qed
qed

section \<open>Properties\<close>

text \<open>
  C30. The time ranges of a notification configuration are windows of minutes: an event is turned away
  for its time exactly when there are ranges and none of those for its weekday contains its minute.
\<close>

theorem notify_ranges_are_windows:
  assumes "list_all range_ok rs"
  shows "NotifyRuleMatchCheck x (cfg\<lparr>cf_TimeRanges := map mk_range rs\<rparr>) e = Some (Inl TimeFilter) \<longleftrightarrow>
    rs \<noteq> [] \<and> \<not> list_ex (\<lambda>(ws, s, e'). Weekday (x_Local x) (e_TriggerTime e) \<in> set ws \<and>
                            in_window s e' (minute_of_day (x_Local x) (e_TriggerTime e))) rs"
  using ranges_match_windows [OF assms minute_of_day_less]
  by (auto simp: NotifyRuleMatchCheck_def Format_15_04_def Let_def split: bind_splits sum.split_asm if_split_asm)

theorem notify_ranges_witness:
  "NotifyRuleMatchCheck sample_env
     (\<lparr>cf_ChannelID = 1, cf_TemplateID = 1, cf_Params = [], cf_Severities = [2], cf_TimeRanges = [], cf_LabelKeys = [],
       cf_Attributes = []\<rparr>\<lparr>cf_TimeRanges := map mk_range [([4], 540, 1080)]\<rparr>) sample_event = Some (Inl TimeFilter)"
  by (subst notify_ranges_are_windows)
    (simp_all add: range_ok_def in_window_def minute_of_day_def local_secs_def sample_env_def)

text \<open>
  C31. An event is sent only by an enabled notification rule that it names, through a configuration of
  the rule whose filters it passes, on an existing channel, with a severity the configuration
  lists (so never through one that lists none), and a recovery only where recoveries are wanted.
\<close>

theorem sends_only_where_the_rule_matches:
  assumes "HandleEventWithNotifyRule ac now pipelines rules channels templates origin = Some as"
    and "SendBy rid cfg ch e \<in> set as"
  shows "rid \<in> set (e_NotifyRuleIds origin) \<and>
    (\<exists>rule. NotifyRuleCache_Get rules rid = Some rule \<and> nf_Enable rule \<and> cfg \<in> set (nf_NotifyConfigs rule)) \<and>
    NotifyRuleMatchCheck (ac_env ac) cfg e = Some (Inr ()) \<and> mget channels (cf_ChannelID cfg) = Some ch \<and>
    e_Severity e \<in> set (cf_Severities cfg) \<and> \<not> (e_IsRecovered e \<and> e_NotifyRecovered e = 0)"
proof -
  obtain rid' bs where rid': "rid' \<in> set (e_NotifyRuleIds origin)"
    and bs: "notify_rule_actions ac now pipelines rules channels templates origin rid' = Some bs"
      "SendBy rid cfg ch e \<in> set bs"
    using notify_rules_actions_sends [OF assms(1)[unfolded HandleEventWithNotifyRule_def] assms(2)] by blast
  then obtain rule e1 where "NotifyRuleCache_Get rules rid' = Some rule" "nf_Enable rule"
    "\<not> shouldSkipNotify (Some e1)"
    "notify_configs_actions (ac_env ac) channels templates rid' e1 (nf_NotifyConfigs rule) = Some bs"
    by (auto simp: notify_rule_actions_def split: option.split_asm if_split_asm bind_splits)
  with rid' notify_configs_actions_sends [OF this(4) bs(2)] MatchCheck_ok [of "ac_env ac" cfg e "()"] show ?thesis
    by (auto simp: shouldSkipNotify_def)
qed

definition sample_cfg :: "int list \<Rightarrow> notify_config" where
  "sample_cfg sevs = \<lparr>cf_ChannelID = 1, cf_TemplateID = 1, cf_Params = [], cf_Severities = sevs, cf_TimeRanges = [],
     cf_LabelKeys = [], cf_Attributes = []\<rparr>"

definition sample_notify_rules :: "(int, notify_rule) gomap stat_cache" where
  "sample_notify_rules = Set_cache [(9, \<lparr>nf_ID = 9, nf_Name = ''on call'', nf_Enable = True, nf_UserGroupIds = [],
     nf_PipelineConfigs = [], nf_NotifyConfigs = [sample_cfg [2], sample_cfg []]\<rparr>)] 1 1 (New_cache [])"

theorem sends_witness:
  "\<exists>as e. HandleEventWithNotifyRule sample_ac 0 [] sample_notify_rules
        [(1, \<lparr>ch_ID = 1, ch_Name = ''mail'', ch_Ident = ''email'', ch_RequestType = ''smtp''\<rparr>)] [(1, ''t'')]
        (sample_event\<lparr>e_NotifyRuleIds := [9]\<rparr>) = Some as \<and>
     SendBy 9 (sample_cfg [2]) \<lparr>ch_ID = 1, ch_Name = ''mail'', ch_Ident = ''email'', ch_RequestType = ''smtp''\<rparr> e \<in> set as \<and>
     e_Severity e \<in> set (cf_Severities (sample_cfg [2]))"
proof -
  let ?ch = "\<lparr>ch_ID = 1, ch_Name = ''mail'', ch_Ident = ''email'', ch_RequestType = ''smtp''\<rparr>"
  let ?e = "FillTagsMap (FE2DB (ac_ma_ann sample_ac) (ac_ma_cfg sample_ac)
      (sample_event\<lparr>e_NotifyRuleIds := [9], e_NotifyRuleId := 9, e_NotifyRuleName := ''on call''\<rparr>))"
  have run: "HandleEventWithNotifyRule sample_ac 0 [] sample_notify_rules [(1, ?ch)] [(1, ''t'')]
      (sample_event\<lparr>e_NotifyRuleIds := [9]\<rparr>) = Some [SendBy 9 (sample_cfg [2]) ?ch ?e]"
    by (simp add: HandleEventWithNotifyRule_def notify_rule_actions_def NotifyRuleCache_Get_def sample_notify_rules_def
        Set_cache_def HandleEventPipeline_none shouldSkipNotify_def FillTagsMap_def FE2DB_def notify_config_action_def
        NotifyRuleMatchCheck_def sample_cfg_def filters_match_def Let_def)
  show ?thesis using sends_only_where_the_rule_matches [OF run] run by fastforce
qed

end
