(* ===== verification/Event_Persist.thy ===== *)
theory Event_Persist
  imports Alert_Types "HOL-Library.Monad_Syntax"
begin

text \<open>
  The two event tables: the history record of \<^verbatim>\<open>models/alert_his_event.go\<close> with its conversions, and
  \<open>EventPersist\<close>, which writes every event to the history and keeps the table of active alerts.

  The database is the content of the two tables and the next identifier; \<open>db_faults\<close> says which of the
  four statements fails, and a statement that fails changes nothing.
\<close>

record alert_his_event =
  hi_Id :: int
  hi_IsRecovered :: int
  hi_Cate :: string
  hi_Cluster :: string
  hi_DatasourceId :: int
  hi_GroupId :: int
  hi_GroupName :: string
  hi_Hash :: string
  hi_RuleId :: int
  hi_RuleName :: string
  hi_RuleProd :: string
  hi_RuleAlgo :: string
  hi_RuleNote :: string
  hi_Severity :: int
  hi_PromForDuration :: int
  hi_PromQl :: string
  hi_PromEvalInterval :: int
  hi_RuleConfig :: string
  hi_RuleConfigJson :: goval
  hi_Callbacks :: string
  hi_CallbacksJSON :: "string list"
  hi_RunbookUrl :: string
  hi_NotifyRecovered :: int
  hi_NotifyChannels :: string
  hi_NotifyChannelsJSON :: "string list"
  hi_NotifyGroups :: string
  hi_NotifyGroupsJSON :: "string list"
  hi_Annotations :: string
  hi_AnnotationsJSON :: "(string, string) gomap"
  hi_TargetIdent :: string
  hi_TargetNote :: string
  hi_TriggerTime :: int
  hi_TriggerValue :: string
  hi_Tags :: string
  hi_TagsJSON :: "string list"
  hi_OriginalTags :: string
  hi_OriginalTagsJSON :: "string list"
  hi_RecoverTime :: int
  hi_LastEvalTime :: int
  hi_NotifyCurNumber :: int
  hi_FirstTriggerTime :: int
  hi_NotifyRuleIds :: "int list"

definition ToHis :: "event \<Rightarrow> alert_his_event" where
  "ToHis e =
     \<lparr>hi_Id = 0, hi_IsRecovered = (if e_IsRecovered e then 1 else 0), hi_Cate = e_Cate e, hi_Cluster = e_Cluster e,
      hi_DatasourceId = e_DatasourceId e, hi_GroupId = e_GroupId e, hi_GroupName = e_GroupName e, hi_Hash = e_Hash e,
      hi_RuleId = e_RuleId e, hi_RuleName = e_RuleName e, hi_RuleProd = e_RuleProd e, hi_RuleAlgo = e_RuleAlgo e,
      hi_RuleNote = e_RuleNote e, hi_Severity = e_Severity e, hi_PromForDuration = e_PromForDuration e,
      hi_PromQl = e_PromQl e, hi_PromEvalInterval = e_PromEvalInterval e, hi_RuleConfig = e_RuleConfig e,
      hi_RuleConfigJson = e_RuleConfigJson e, hi_Callbacks = e_Callbacks e, hi_CallbacksJSON = [],
      hi_RunbookUrl = e_RunbookUrl e, hi_NotifyRecovered = e_NotifyRecovered e, hi_NotifyChannels = e_NotifyChannels e,
      hi_NotifyChannelsJSON = [], hi_NotifyGroups = e_NotifyGroups e, hi_NotifyGroupsJSON = [],
      hi_Annotations = e_Annotations e, hi_AnnotationsJSON = e_AnnotationsJSON e, hi_TargetIdent = e_TargetIdent e,
      hi_TargetNote = e_TargetNote e, hi_TriggerTime = e_TriggerTime e, hi_TriggerValue = e_TriggerValue e,
      hi_Tags = e_Tags e, hi_TagsJSON = [], hi_OriginalTags = e_OriginalTags e, hi_OriginalTagsJSON = [],
      hi_RecoverTime = (if e_IsRecovered e then e_LastEvalTime e else 0), hi_LastEvalTime = e_LastEvalTime e,
      hi_NotifyCurNumber = e_NotifyCurNumber e, hi_FirstTriggerTime = e_FirstTriggerTime e,
      hi_NotifyRuleIds = e_NotifyRuleIds e\<rparr>"

definition His_DB2FE ::
  "(string \<Rightarrow> (string, string) gomap option) \<Rightarrow> (string \<Rightarrow> goval option) \<Rightarrow> alert_his_event \<Rightarrow> alert_his_event"
where
  "His_DB2FE un_ann un_cfg e0 =
     (let e = e0\<lparr>hi_NotifyChannelsJSON := Fields (hi_NotifyChannels e0), hi_NotifyGroupsJSON := Fields (hi_NotifyGroups e0),
                 hi_CallbacksJSON := Fields (hi_Callbacks e0), hi_TagsJSON := Split (hi_Tags e0) '',,'',
                 hi_OriginalTagsJSON := Split (hi_OriginalTags e0) '',,''\<rparr>;
          e1 = (if hi_Annotations e \<noteq> [] then
                  (case decode_annotations un_ann (hi_Annotations e) (hi_AnnotationsJSON e) of
                     None \<Rightarrow> e\<lparr>hi_AnnotationsJSON := [(''error'', hi_Annotations e)]\<rparr>
                   | Some m \<Rightarrow> e\<lparr>hi_AnnotationsJSON := m\<rparr>)
                else e)
      in case un_cfg (hi_RuleConfig e1) of None \<Rightarrow> e1 | Some c \<Rightarrow> e1\<lparr>hi_RuleConfigJson := c\<rparr>)"

text \<open>\<open>ToCur\<close>: the list of trigger values becomes the trigger value.\<close>

definition ToCur :: "alert_his_event \<Rightarrow> event" where
  "ToCur h =
     SetTagsMap (zero_event
       \<lparr>e_Id := hi_Id h, e_Cate := hi_Cate h, e_Cluster := hi_Cluster h, e_DatasourceId := hi_DatasourceId h,
        e_GroupId := hi_GroupId h, e_GroupName := hi_GroupName h, e_Hash := hi_Hash h, e_RuleId := hi_RuleId h,
        e_RuleName := hi_RuleName h, e_RuleProd := hi_RuleProd h, e_RuleAlgo := hi_RuleAlgo h, e_RuleNote := hi_RuleNote h,
        e_Severity := hi_Severity h, e_PromForDuration := hi_PromForDuration h, e_PromQl := hi_PromQl h,
        e_PromEvalInterval := hi_PromEvalInterval h, e_RuleConfig := hi_RuleConfig h, e_RuleConfigJson := hi_RuleConfigJson h,
        e_Callbacks := hi_Callbacks h, e_RunbookUrl := hi_RunbookUrl h, e_NotifyRecovered := hi_NotifyRecovered h,
        e_NotifyChannels := hi_NotifyChannels h, e_NotifyGroups := hi_NotifyGroups h, e_Annotations := hi_Annotations h,
        e_AnnotationsJSON := hi_AnnotationsJSON h, e_TargetIdent := hi_TargetIdent h, e_TargetNote := hi_TargetNote h,
        e_TriggerTime := hi_TriggerTime h, e_TriggerValue := hi_TriggerValue h, e_Tags := hi_Tags h,
        e_TagsJSON := Split (hi_Tags h) '',,'', e_OriginalTags := hi_OriginalTags h, e_LastEvalTime := hi_LastEvalTime h,
        e_NotifyCurNumber := hi_NotifyCurNumber h, e_FirstTriggerTime := hi_FirstTriggerTime h,
        e_IsRecovered := (hi_IsRecovered h = 1), e_TriggerValues := hi_TriggerValue h, e_CallbacksJSON := hi_CallbacksJSON h,
        e_NotifyChannelsJSON := hi_NotifyChannelsJSON h, e_NotifyGroupsJSON := hi_NotifyGroupsJSON h,
        e_OriginalTagsJSON := hi_OriginalTagsJSON h, e_NotifyRuleIds := hi_NotifyRuleIds h\<rparr>)"

section \<open>The tables\<close>

record event_db =
  db_cur :: "event list"
  db_his :: "alert_his_event list"
  db_id :: int

record db_faults =
  ft_exists :: bool
  ft_his :: bool
  ft_del :: bool
  ft_cur :: bool

datatype persist_error = CheckExistsFailed | AddHisFailed | DelCurFailed | AddCurFailed

definition AlertCurEventExists :: "string \<Rightarrow> event_db \<Rightarrow> bool" where
  "AlertCurEventExists h db \<longleftrightarrow> list_ex (\<lambda>r. e_Hash r = h) (db_cur db)"

definition AlertCurEventDelByHash :: "string \<Rightarrow> event_db \<Rightarrow> event_db" where
  "AlertCurEventDelByHash h db = db\<lparr>db_cur := filter (\<lambda>r. e_Hash r \<noteq> h) (db_cur db)\<rparr>"

definition Add_cur :: "event \<Rightarrow> event_db \<Rightarrow> event_db" where
  "Add_cur e db = db\<lparr>db_cur := db_cur db @ [e]\<rparr>"

text \<open>The database gives a new history row the next identifier.\<close>

definition Add_his :: "alert_his_event \<Rightarrow> event_db \<Rightarrow> int \<times> event_db" where
  "Add_his h db = (db_id db, db\<lparr>db_his := db_his db @ [h\<lparr>hi_Id := db_id db\<rparr>], db_id := db_id db + 1\<rparr>)"

definition EventPersist :: "db_faults \<Rightarrow> event \<Rightarrow> event_db \<Rightarrow> persist_error option \<times> event \<times> event_db" where
  "EventPersist ft event db =
     (if ft_exists ft then (Some CheckExistsFailed, event, db)
      else let has = AlertCurEventExists (e_Hash event) db in
      if ft_his ft then (Some AddHisFailed, event, db)
      else let (hid, db1) = Add_his (ToHis event) db; event1 = event\<lparr>e_Id := hid\<rparr> in
      if has then
        (if ft_del ft then (Some DelCurFailed, event, db1)
         else let db2 = AlertCurEventDelByHash (e_Hash event) db1 in
              if \<not> e_IsRecovered event \<and> hid > 0
              then (if ft_cur ft then (Some AddCurFailed, event1, db2) else (None, event1, Add_cur event1 db2))
              else (None, event1, db2))
      else if e_IsRecovered event then (None, event1, db1)
      else if hid > 0 then (if ft_cur ft then (Some AddCurFailed, event1, db1) else (None, event1, Add_cur event1 db1))
      else (None, event1, db1))"

section \<open>Lemmas\<close>

definition db_ok :: "event_db \<Rightarrow> bool" where
  "db_ok db \<longleftrightarrow> distinct (map e_Hash (db_cur db)) \<and> db_id db > 0 \<and>
     list_all (\<lambda>h. hi_Id h < db_id db) (db_his db) \<and> distinct (map hi_Id (db_his db))"

lemma Add_his_ok: "db_ok db \<Longrightarrow> db_ok (snd (Add_his h db))"
  by (auto simp: Add_his_def db_ok_def list_all_iff)

lemma Del_ok: "db_ok db \<Longrightarrow> db_ok (AlertCurEventDelByHash h db)"
  by (simp add: AlertCurEventDelByHash_def db_ok_def distinct_map_filter)

lemma Add_cur_ok: "db_ok db \<Longrightarrow> \<not> AlertCurEventExists (e_Hash e) db \<Longrightarrow> db_ok (Add_cur e db)"
  by (auto simp: Add_cur_def db_ok_def AlertCurEventExists_def list_ex_iff)

lemma exists_simps [simp]:
  "AlertCurEventExists k (AlertCurEventDelByHash h db) \<longleftrightarrow> k \<noteq> h \<and> AlertCurEventExists k db"
  "AlertCurEventExists k (snd (Add_his r db)) \<longleftrightarrow> AlertCurEventExists k db"
  by (auto simp: AlertCurEventDelByHash_def AlertCurEventExists_def Add_his_def list_ex_iff)

lemma EventPersist_ok:
  assumes "db_ok db"
  shows "db_ok (snd (snd (EventPersist ft e db)))"
  using assms Add_his_ok [of db "ToHis e"] Del_ok [of "snd (Add_his (ToHis e) db)" "e_Hash e"]
    exists_simps(2) [of "e_Hash e" "ToHis e" db]
  by (auto simp: EventPersist_def Let_def split_beta simp del: exists_simps(2) intro!: Add_cur_ok)

text \<open>What a statement sequence without faults leaves in the tables.\<close>

definition no_faults :: db_faults where
  "no_faults = \<lparr>ft_exists = False, ft_his = False, ft_del = False, ft_cur = False\<rparr>"

lemma EventPersist_no_faults:
  assumes "db_ok db"
  shows "EventPersist no_faults e db =
    (None, e\<lparr>e_Id := db_id db\<rparr>,
     db\<lparr>db_cur := filter (\<lambda>r. e_Hash r \<noteq> e_Hash e) (db_cur db) @ (if e_IsRecovered e then [] else [e\<lparr>e_Id := db_id db\<rparr>]),
        db_his := db_his db @ [(ToHis e)\<lparr>hi_Id := db_id db\<rparr>], db_id := db_id db + 1\<rparr>)"
proof -
  have "filter (\<lambda>r. e_Hash r \<noteq> e_Hash e) (db_cur db) = db_cur db" if "\<not> AlertCurEventExists (e_Hash e) db"
    using that by (auto simp: AlertCurEventExists_def list_ex_iff filter_id_conv)
  then show ?thesis
    using assms by (auto simp: EventPersist_def no_faults_def Add_his_def AlertCurEventDelByHash_def Add_cur_def db_ok_def Let_def)
qed

text \<open>The active alert of a hash, and the last event of a list with that hash.\<close>

definition active :: "event_db \<Rightarrow> string \<Rightarrow> event option" where
  "active db h = find (\<lambda>r. e_Hash r = h) (db_cur db)"

definition persist_all :: "event list \<Rightarrow> event_db \<Rightarrow> event_db" where
  "persist_all es db = fold (\<lambda>e d. snd (snd (EventPersist no_faults e d))) es db"

lemma find_filter_other: "k \<noteq> h \<Longrightarrow> find (\<lambda>r. f r = k) (filter (\<lambda>r. f r \<noteq> h) xs) = find (\<lambda>r. f r = k) xs"
  by (induction xs) auto

lemma find_filter_same: "find (\<lambda>r. f r = h) (filter (\<lambda>r. f r \<noteq> h) xs) = None"
  by (induction xs) auto

lemma find_append: "find P (xs @ ys) = (case find P xs of None \<Rightarrow> find P ys | Some a \<Rightarrow> Some a)"
  by (induction xs) auto

lemma active_step:
  assumes "db_ok db"
  shows "active (snd (snd (EventPersist no_faults e db))) k =
    (if k = e_Hash e then (if e_IsRecovered e then None else Some (e\<lparr>e_Id := db_id db\<rparr>)) else active db k)"
  by (auto simp: EventPersist_no_faults [OF assms] active_def find_append find_filter_same find_filter_other split: option.split)

section \<open>Properties\<close>

text \<open>
  Whatever statements fail, in any sequence of events, the table of active alerts has at most one
  row for an alert and the history has no identifier twice.
\<close>

theorem active_table_one_row_per_alert:
  assumes "db_ok db"
  shows "db_ok (fold (\<lambda>(ft, e) d. snd (snd (EventPersist ft e d))) run db)"
  using assms by (induction run arbitrary: db) (auto simp: EventPersist_ok)

text \<open>
  C32. Without faults the table of active alerts holds, for every alert, its last event if that was a
  firing one and nothing if it was a recovery, and every event is in the history in order.
\<close>

theorem active_table_is_the_last_event:
  assumes "db_ok db" and "db_cur db = []" and "db_his db = []"
  shows "map_option (\<lambda>r. r\<lparr>e_Id := 0\<rparr>) (active (persist_all es db) h) =
      (case find (\<lambda>e. e_Hash e = h) (rev es) of
         None \<Rightarrow> None | Some e \<Rightarrow> if e_IsRecovered e then None else Some (e\<lparr>e_Id := 0\<rparr>)) \<and>
    map (\<lambda>r. r\<lparr>hi_Id := 0\<rparr>) (db_his (persist_all es db)) = map ToHis es"
proof (induction es rule: rev_induct)
  case Nil
  then show ?case using assms by (simp add: persist_all_def active_def)
next
  case (snoc e es)
  have ok: "db_ok (persist_all es db)"
    unfolding persist_all_def using assms(1) by (induction es arbitrary: db) (auto simp: EventPersist_ok)
  have "(ToHis e)\<lparr>hi_Id := 0\<rparr> = ToHis e" by (simp add: ToHis_def)
  then show ?case
    using snoc active_step [OF ok, of e h] by (auto simp: persist_all_def EventPersist_no_faults [OF ok[unfolded persist_all_def]])
qed

definition empty_db :: event_db where
  "empty_db = \<lparr>db_cur = [], db_his = [], db_id = 1\<rparr>"

lemma empty_db_ok: "db_ok empty_db"
  by (simp add: db_ok_def empty_db_def)

theorem one_row_witness:
  "db_ok (fold (\<lambda>(ft, e) d. snd (snd (EventPersist ft e d)))
     [(no_faults, sample_event), (no_faults\<lparr>ft_cur := True\<rparr>, sample_event), (no_faults, sample_event)] empty_db)"
  by (rule active_table_one_row_per_alert [OF empty_db_ok])

theorem last_event_witness:
  "active (persist_all [sample_event, sample_event\<lparr>e_IsRecovered := True\<rparr>] empty_db) ''h1'' = None"
  using active_table_is_the_last_event [OF empty_db_ok, where es = "[sample_event, sample_event\<lparr>e_IsRecovered := True\<rparr>]"
      and h = "''h1''"]
  by (simp add: empty_db_def)

end
