(* ===== verification/Ibex.thy ===== *)
theory Ibex
  imports Memsto
begin

text \<open>
  Self-healing tasks started by alerts: \<^verbatim>\<open>alert/sender/ibex.go\<close>, the template record of
  \<^verbatim>\<open>models/task_tpl.go\<close> and its cache \<^verbatim>\<open>memsto/task_tpl_cache.go\<close>.

  The task store of package \<^verbatim>\<open>ibex\<close> is the record \<open>ibex_api\<close>: what its calls answer. Errors are
  \<open>None\<close> there.
\<close>

section \<open>Records\<close>

record task_tpl =
  tt_Id :: int
  tt_GroupId :: int
  tt_Title :: string
  tt_Batch :: int
  tt_Tolerance :: int
  tt_Timeout :: int
  tt_Pause :: string
  tt_Script :: string
  tt_Args :: string
  tt_Account :: string
  tt_AuthLevel :: int
  tt_UpdateBy :: string

record task_form =
  fm_Title :: string
  fm_Account :: string
  fm_Batch :: int
  fm_Tolerance :: int
  fm_Timeout :: int
  fm_Pause :: string
  fm_Script :: string
  fm_Args :: string
  fm_Stdin :: string
  fm_Action :: string
  fm_Creator :: string
  fm_AuthLevel :: int
  fm_SystemCaller :: string
  fm_Hosts :: "string list"
  fm_AlertTriggered :: bool

record task_meta =
  tm_Title :: string
  tm_Account :: string
  tm_Batch :: int
  tm_Tolerance :: int
  tm_Timeout :: int
  tm_Pause :: string
  tm_Script :: string
  tm_Args :: string
  tm_Stdin :: string
  tm_Creator :: string
  tm_SystemCaller :: string

record ibex_api =
  ib_CacheNil :: bool
  ib_DBNil :: bool
  ib_CleanFields :: "task_meta \<Rightarrow> task_meta option"
  ib_HandleFH :: "string \<Rightarrow> task_meta \<Rightarrow> task_meta"
  ib_Create :: "task_meta \<Rightarrow> int option"
  ib_IdGet :: "int option"
  ib_Cache :: "int \<Rightarrow> task_meta \<Rightarrow> string \<Rightarrow> bool"
  ib_Save :: "task_meta \<Rightarrow> string list \<Rightarrow> string \<Rightarrow> int option"
  ib_RecordAdd :: "int \<Rightarrow> bool"
  ib_MarshalTags :: "(string, string) gomap \<Rightarrow> string"

record ibex_ctx =
  ix_api :: ibex_api
  ix_IsCenter :: bool
  ix_ord :: "int list \<Rightarrow> int list"
  ix_tpls :: "(int, task_tpl) gomap stat_cache"
  ix_targets :: "(string, target) gomap stat_cache"
  ix_users :: user_cache

datatype ibex_error =
    NoSuchTpl
  | NoPermission
  | CacheNil
  | HostsEmpty
  | CleanFieldsFailed
  | IdGetFailed
  | TaskCacheFailed
  | SaveFailed

text \<open>A task that was handed out: its identifier, hosts and content.\<close>

record task_started =
  ts_id :: int
  ts_hosts :: "string list"
  ts_meta :: task_meta

section \<open>The template cache\<close>

definition syncTaskTpl ::
  "(int \<times> int, task_tpl list) poll \<Rightarrow> (int, task_tpl) gomap stat_cache \<Rightarrow> sync_outcome \<times> (int, task_tpl) gomap stat_cache"
where
  "syncTaskTpl q c = sync_body (by_id tt_Id) (\<lambda>lst. length (by_id tt_Id lst)) q c"

definition TaskTplCache_Get :: "(int, task_tpl) gomap stat_cache \<Rightarrow> int \<Rightarrow> task_tpl option" where
  "TaskTplCache_Get c i = mget (sc_data c) i"

interpretation task_tpl_cache: polled_cache syncTaskTpl cache_view "\<lambda>rows. Some (by_id tt_Id rows)"
  by unfold_locales (simp add: syncTaskTpl_def sync_body_refines)

section \<open>Starting a task\<close>

definition IsAdmin :: "user \<Rightarrow> bool" where
  "IsAdmin u \<longleftrightarrow> list_ex (\<lambda>r. r = ''Admin'') (u_RolesLst u)"

definition CanDoIbex :: "ibex_ctx \<Rightarrow> string \<Rightarrow> task_tpl \<Rightarrow> string \<Rightarrow> bool" where
  "CanDoIbex ix username tpl host =
     (case GetByUsername (ix_ord ix) (ix_users ix) username of
        Some u \<Rightarrow>
          if IsAdmin u then True
          else (case TargetCache_Get (ix_targets ix) host of None \<Rightarrow> False | Some t \<Rightarrow> MatchGroupId t [tt_GroupId tpl])
      | None \<Rightarrow> (case TargetCache_Get (ix_targets ix) host of None \<Rightarrow> False | Some t \<Rightarrow> MatchGroupId t [tt_GroupId tpl]))"

fun cleanHosts :: "string list \<Rightarrow> string list" where
  "cleanHosts [] = []"
| "cleanHosts (h # hs) =
     (let item = TrimSpace h in
      if item = [] then cleanHosts hs
      else if HasPrefix item ''#'' then cleanHosts hs
      else item # cleanHosts hs)"

definition meta_of_form :: "task_form \<Rightarrow> task_meta" where
  "meta_of_form f =
     \<lparr>tm_Title = fm_Title f, tm_Account = fm_Account f, tm_Batch = fm_Batch f, tm_Tolerance = fm_Tolerance f,
      tm_Timeout = fm_Timeout f, tm_Pause = fm_Pause f, tm_Script = fm_Script f, tm_Args = fm_Args f,
      tm_Stdin = fm_Stdin f, tm_Creator = fm_Creator f, tm_SystemCaller = fm_SystemCaller f\<rparr>"

text \<open>
  On an edge site a task started by an alert is put into the cache of the site; without a connection
  to the database its identifier comes from that cache too.
\<close>

definition TaskAdd :: "ibex_api \<Rightarrow> task_form \<Rightarrow> bool \<Rightarrow> ibex_error + task_started" where
  "TaskAdd api f isCenter =
     (if ib_CacheNil api then Inl CacheNil
      else case cleanHosts (fm_Hosts f) of
             [] \<Rightarrow> Inl HostsEmpty
           | h # hs \<Rightarrow>
               (case ib_CleanFields api (meta_of_form f) of
                  None \<Rightarrow> Inl CleanFieldsFailed
                | Some m0 \<Rightarrow>
                    (let m = ib_HandleFH api h m0 in
                     if \<not> isCenter \<and> fm_AlertTriggered f then
                       (case (case ib_Create api m of Some i \<Rightarrow> Some i | None \<Rightarrow> ib_IdGet api) of
                          None \<Rightarrow> Inl IdGetFailed
                        | Some i \<Rightarrow>
                            if ib_Cache api i m h then Inr \<lparr>ts_id = i, ts_hosts = [h], ts_meta = m\<rparr> else Inl TaskCacheFailed)
                     else
                       (case ib_Save api m (h # hs) (fm_Action f) of
                          None \<Rightarrow> Inl SaveFailed
                        | Some i \<Rightarrow> Inr \<lparr>ts_id = i, ts_hosts = h # hs, ts_meta = m\<rparr>))))"

definition ibex_tags :: "event \<Rightarrow> (string, string) gomap" where
  "ibex_tags e =
     mput ''is_recovered'' (bool_text (e_IsRecovered e))
       (mput ''alert_trigger_value'' (e_TriggerValue e)
         (mput ''alert_severity'' (Itoa (e_Severity e)) (tags_to_map (e_TagsJSON e) [])))"

definition task_form_of :: "task_tpl \<Rightarrow> string \<Rightarrow> string \<Rightarrow> string \<Rightarrow> task_form" where
  "task_form_of tpl host args stdin =
     \<lparr>fm_Title = tt_Title tpl @ '' FH: '' @ host, fm_Account = tt_Account tpl, fm_Batch = tt_Batch tpl,
      fm_Tolerance = tt_Tolerance tpl, fm_Timeout = tt_Timeout tpl, fm_Pause = tt_Pause tpl, fm_Script = tt_Script tpl,
      fm_Args = (if args \<noteq> [] then args else tt_Args tpl), fm_Stdin = stdin, fm_Action = ''start'',
      fm_Creator = tt_UpdateBy tpl, fm_AuthLevel = tt_AuthLevel tpl, fm_SystemCaller = [], fm_Hosts = [host],
      fm_AlertTriggered = True\<rparr>"

text \<open>
  The answer: the error, or the task with the information whether its record was written; an error
  of that last statement does not stop the task.
\<close>

definition CallIbex :: "ibex_ctx \<Rightarrow> int \<Rightarrow> string \<Rightarrow> event \<Rightarrow> string \<Rightarrow> ibex_error + task_started \<times> bool" where
  "CallIbex ix i host e args =
     (case TaskTplCache_Get (ix_tpls ix) i of
        None \<Rightarrow> Inl NoSuchTpl
      | Some tpl \<Rightarrow>
          (if \<not> CanDoIbex ix (tt_UpdateBy tpl) tpl host then Inl NoPermission
           else case TaskAdd (ix_api ix) (task_form_of tpl host args (ib_MarshalTags (ix_api ix) (ibex_tags e))) (ix_IsCenter ix) of
                  Inl err \<Rightarrow> Inl err
                | Inr t \<Rightarrow> Inr (t, ib_RecordAdd (ix_api ix) (ts_id t))))"

text \<open>
  A callback address of the form \<^verbatim>\<open>${ibex}/<template>/<host>\<close>; \<open>None\<close> where nothing is started and no
  template is looked up.
\<close>

definition handleIbex :: "ibex_ctx \<Rightarrow> string \<Rightarrow> event \<Rightarrow> (ibex_error + task_started \<times> bool) option" where
  "handleIbex ix url e =
     (if ib_DBNil (ix_api ix) \<and> ix_IsCenter ix then None
      else let arr = Split url ''/'';
               idstr = (if length arr > 1 then arr ! 1 else []);
               host0 = (if length arr > 2 then arr ! 2 else [])
           in case ParseInt idstr of
                None \<Rightarrow> None
              | Some i \<Rightarrow>
                  (let host1 = (if host0 = [] then e_TargetIdent e else host0);
                       host = (if host1 = [] then (case mget (e_TagsMap e) ''ident'' of Some v \<Rightarrow> v | None \<Rightarrow> []) else host1)
                   in if host = [] then None else Some (CallIbex ix i host e [])))"

definition Ibex_CallBack :: "ibex_ctx \<Rightarrow> string \<Rightarrow> event \<Rightarrow> (ibex_error + task_started \<times> bool) option" where
  "Ibex_CallBack ix url e =
     (if url = [] then None else if e_IsRecovered e then None else handleIbex ix url e)"

section \<open>The tasks of a rule\<close>

text \<open>
  \<open>HandleIbex\<close> of \<^verbatim>\<open>alert/dispatch/dispatch.go\<close>; a template entry that is null in the rule configuration
  is \<open>None\<close>, on which the loop panics.
\<close>

record rule_tpl =
  rt_TplId :: int
  rt_Host :: "string list"

fun ibex_loop :: "ibex_ctx \<Rightarrow> event \<Rightarrow> rule_tpl option list \<Rightarrow> (ibex_error + task_started \<times> bool) list option" where
  "ibex_loop ix e [] = Some []"
| "ibex_loop ix e (None # ts) = None"
| "ibex_loop ix e (Some t # ts) =
     (case ibex_loop ix e ts of
        None \<Rightarrow> None
      | Some rest \<Rightarrow>
          Some ((if rt_TplId t = 0 then []
                 else if rt_Host t = [] then [CallIbex ix (rt_TplId t) (e_TargetIdent e) e []]
                 else map (\<lambda>h. CallIbex ix (rt_TplId t) h e []) (rt_Host t)) @ rest))"

definition HandleIbex ::
  "ibex_ctx \<Rightarrow> (string \<Rightarrow> rule_tpl option list) \<Rightarrow> alert_rule \<Rightarrow> event \<Rightarrow> (ibex_error + task_started \<times> bool) list option"
where
  "HandleIbex ix un_tpls rule e = (if e_IsRecovered e then Some [] else ibex_loop ix e (un_tpls (r_RuleConfig rule)))"

section \<open>Lemmas\<close>

definition may_run :: "ibex_ctx \<Rightarrow> task_tpl \<Rightarrow> string \<Rightarrow> bool" where
  "may_run ix tpl host \<longleftrightarrow>
     (\<exists>u. u \<in> snd ` set (uc_users (ix_users ix)) \<and> u_Username u = tt_UpdateBy tpl \<and> ''Admin'' \<in> set (u_RolesLst u)) \<or>
     (\<exists>t. TargetCache_Get (ix_targets ix) host = Some t \<and> tt_GroupId tpl \<in> set (t_GroupIds t))"

lemma GetByUsername_SomeD:
  assumes "range_order ord" and "GetByUsername ord c n = Some u"
  shows "u_Username u = n" and "u \<in> snd ` set (uc_users c)"
proof -
  obtain k where k: "k \<in> set (ord (mkeys (uc_users c)))" and u: "u = the (mget (uc_users c) k)" and "u_Username u = n"
    using assms(2) nth_mem by (auto simp: GetByUsername_def find_Some_iff) blast
  then show "u_Username u = n" by simp
  have "mhas (uc_users c) k" using k assms(1) by (simp add: set_range_order in_mkeys_iff)
  then have "(k, u) \<in> set (uc_users c)" using u by (auto simp: mhas_def dest: map_of_SomeD)
  then show "u \<in> snd ` set (uc_users c)" by force
qed

lemma CanDoIbex_may_run:
  "range_order (ix_ord ix) \<Longrightarrow> CanDoIbex ix (tt_UpdateBy tpl) tpl host \<Longrightarrow> may_run ix tpl host"
  by (auto simp: CanDoIbex_def may_run_def IsAdmin_def MatchGroupId_def list_ex_iff
      dest: GetByUsername_SomeD split: option.split_asm if_split_asm)

lemma cleanHosts_single: "cleanHosts [h] = (if TrimSpace h = [] \<or> HasPrefix (TrimSpace h) ''#'' then [] else [TrimSpace h])"
  by (simp add: Let_def)

lemma TaskAdd_started:
  assumes "TaskAdd api (task_form_of tpl host args stdin) isCenter = Inr t"
  shows "ts_hosts t = [TrimSpace host]"
    and "\<exists>m. ib_CleanFields api (meta_of_form (task_form_of tpl host args stdin)) = Some m \<and> ts_meta t = ib_HandleFH api (TrimSpace host) m"
  using assms
  by (auto simp: TaskAdd_def task_form_of_def cleanHosts_single Let_def
      split: if_split_asm option.split_asm list.split_asm)

text \<open>
  A started task runs a template on a host: the template may be run there, its hosts are the host with
  surrounding blanks removed, and its content is that of the template, with the editor of the template as
  creator, after the two passes of the task store over it.
\<close>

definition runs_template :: "ibex_ctx \<Rightarrow> int \<Rightarrow> string \<Rightarrow> task_started \<Rightarrow> bool" where
  "runs_template ix i host t \<longleftrightarrow>
     (\<exists>tpl m0 m. TaskTplCache_Get (ix_tpls ix) i = Some tpl \<and> may_run ix tpl host \<and> ts_hosts t = [TrimSpace host] \<and>
        tm_Script m0 = tt_Script tpl \<and> tm_Args m0 = tt_Args tpl \<and> tm_Account m0 = tt_Account tpl \<and> tm_Creator m0 = tt_UpdateBy tpl \<and>
        tm_Title m0 = tt_Title tpl @ '' FH: '' @ host \<and> tm_Timeout m0 = tt_Timeout tpl \<and> tm_Batch m0 = tt_Batch tpl \<and>
        tm_Tolerance m0 = tt_Tolerance tpl \<and> tm_Pause m0 = tt_Pause tpl \<and>
        ib_CleanFields (ix_api ix) m0 = Some m \<and> ts_meta t = ib_HandleFH (ix_api ix) (TrimSpace host) m)"

lemma CallIbex_started:
  assumes "range_order (ix_ord ix)" and "CallIbex ix i host e [] = Inr (t, w)"
  shows "runs_template ix i host t"
proof -
  obtain tpl where tpl: "TaskTplCache_Get (ix_tpls ix) i = Some tpl" and can: "CanDoIbex ix (tt_UpdateBy tpl) tpl host"
    and add: "TaskAdd (ix_api ix) (task_form_of tpl host [] (ib_MarshalTags (ix_api ix) (ibex_tags e))) (ix_IsCenter ix) = Inr t"
    using assms(2) by (auto simp: CallIbex_def split: option.split_asm if_split_asm sum.split_asm)
  let ?m0 = "meta_of_form (task_form_of tpl host [] (ib_MarshalTags (ix_api ix) (ibex_tags e)))"
  obtain m where "ib_CleanFields (ix_api ix) ?m0 = Some m" "ts_meta t = ib_HandleFH (ix_api ix) (TrimSpace host) m"
    using TaskAdd_started(2) [OF add] by blast
  with TaskAdd_started(1) [OF add] tpl CanDoIbex_may_run [OF assms(1) can] show ?thesis
    unfolding runs_template_def
    by (intro exI [of _ tpl] exI [of _ ?m0] exI [of _ m]) (simp add: meta_of_form_def task_form_of_def)
qed

text \<open>The template and the host that a callback address names, and those that the configuration of a rule names.\<close>

definition asked_by_url :: "string \<Rightarrow> event \<Rightarrow> int \<Rightarrow> string \<Rightarrow> bool" where
  "asked_by_url url e i host \<longleftrightarrow>
     length (Split url ''/'') > 1 \<and> ParseInt (Split url ''/'' ! 1) = Some i \<and> host \<noteq> [] \<and>
     (if length (Split url ''/'') > 2 \<and> Split url ''/'' ! 2 \<noteq> [] then host = Split url ''/'' ! 2
      else host = e_TargetIdent e \<or> e_TargetIdent e = [] \<and> mget (e_TagsMap e) ''ident'' = Some host)"

definition asked_by_rule :: "rule_tpl option list \<Rightarrow> event \<Rightarrow> int \<Rightarrow> string \<Rightarrow> bool" where
  "asked_by_rule entries e i host \<longleftrightarrow> i \<noteq> 0 \<and>
     (\<exists>t. Some t \<in> set entries \<and> rt_TplId t = i \<and> (if rt_Host t = [] then host = e_TargetIdent e else host \<in> set (rt_Host t)))"

lemma ibex_loop_calls:
  assumes "ibex_loop ix e ts = Some rs" and "r \<in> set rs"
  shows "\<exists>i host. asked_by_rule ts e i host \<and> r = CallIbex ix i host e []"
  using assms
proof (induction ix e ts arbitrary: rs rule: ibex_loop.induct)
  case (3 ix e t ts)
  obtain rest where rest: "ibex_loop ix e ts = Some rest" using "3.prems"(1) by (auto split: option.split_asm)
  show ?case
  proof (cases "r \<in> set rest")
    case True
    with "3.IH" [OF rest] show ?thesis unfolding asked_by_rule_def by (metis list.set_intros(2))
  next
    case False
    with "3.prems" rest have "rt_TplId t \<noteq> 0" "\<exists>h. r = CallIbex ix (rt_TplId t) h e [] \<and>
        (if rt_Host t = [] then h = e_TargetIdent e else h \<in> set (rt_Host t))"
      by (auto split: if_split_asm)
    then show ?thesis unfolding asked_by_rule_def by (metis list.set_intros(1))
  qed
qed simp_all

lemma Ibex_CallBack_call:
  assumes "Ibex_CallBack ix url e = Some r"
  shows "\<not> e_IsRecovered e \<and> (\<exists>i host. asked_by_url url e i host \<and> r = CallIbex ix i host e [])"
proof -
  have "ParseInt [] = None" by (simp add: ParseInt_def)
  with assms show ?thesis
    unfolding Ibex_CallBack_def handleIbex_def asked_by_url_def Let_def
    by (fastforce split: if_split_asm option.split_asm)
qed

section \<open>Properties\<close>

text \<open>
  C14. A task that an alert starts runs the cached template that the callback address or the rule names,
  on the one host named there, with the script, the arguments and the account of that template; and only if
  the last editor of this template is an administrator or the host is a known machine in the group of the
  template. A recovery starts none.
\<close>

theorem tasks_start_with_permission:
  assumes "range_order (ix_ord ix)"
  shows "(Ibex_CallBack ix url e = Some (Inr (t, w)) \<longrightarrow>
      \<not> e_IsRecovered e \<and> (\<exists>i host. asked_by_url url e i host \<and> runs_template ix i host t)) \<and>
    (HandleIbex ix un_tpls rule e = Some rs \<and> Inr (t, w) \<in> set rs \<longrightarrow>
      \<not> e_IsRecovered e \<and> (\<exists>i host. asked_by_rule (un_tpls (r_RuleConfig rule)) e i host \<and> runs_template ix i host t))"
proof (intro conjI impI)
  assume run: "Ibex_CallBack ix url e = Some (Inr (t, w))"
  from Ibex_CallBack_call [OF run] show "\<not> e_IsRecovered e" ..
  from Ibex_CallBack_call [OF run] CallIbex_started [OF assms]
  show "\<exists>i host. asked_by_url url e i host \<and> runs_template ix i host t" by metis
next
  assume run: "HandleIbex ix un_tpls rule e = Some rs \<and> Inr (t, w) \<in> set rs"
  then show live: "\<not> e_IsRecovered e" by (auto simp: HandleIbex_def)
  with run have "ibex_loop ix e (un_tpls (r_RuleConfig rule)) = Some rs" "Inr (t, w) \<in> set rs" by (simp_all add: HandleIbex_def)
  from ibex_loop_calls [OF this] CallIbex_started [OF assms]
  show "\<exists>i host. asked_by_rule (un_tpls (r_RuleConfig rule)) e i host \<and> runs_template ix i host t" by metis
qed

definition sample_ix :: ibex_ctx where
  "sample_ix = \<lparr>ix_api = \<lparr>ib_CacheNil = False, ib_DBNil = False, ib_CleanFields = Some, ib_HandleFH = (\<lambda>h m. m),
       ib_Create = (\<lambda>m. Some 5), ib_IdGet = Some 6, ib_Cache = (\<lambda>i m h. True), ib_Save = (\<lambda>m hs a. Some 7),
       ib_RecordAdd = (\<lambda>i. True), ib_MarshalTags = (\<lambda>m. [])\<rparr>,
     ix_IsCenter = True, ix_ord = (\<lambda>ks. ks),
     ix_tpls = Set_cache [(3, \<lparr>tt_Id = 3, tt_GroupId = 8, tt_Title = ''restart'', tt_Batch = 0, tt_Tolerance = 0,
       tt_Timeout = 30, tt_Pause = [], tt_Script = ''x'', tt_Args = [], tt_Account = ''root'', tt_AuthLevel = 0,
       tt_UpdateBy = ''bob''\<rparr>)] 1 1 (New_cache []),
     ix_targets = Set_cache [(''web1'', \<lparr>t_Ident = ''web1'', t_Note = [], t_GroupId = 8, t_GroupIds = [8], t_GroupNames = [],
       t_EngineName = [], t_TagsMap = [], t_HostIp = [], t_BeatTime = 0, t_CpuNum = 0, t_Offset = 0\<rparr>)] 1 1 (New_cache []),
     ix_users = \<lparr>uc_statTotal = 0, uc_statLastUpdated = 0, uc_configsTotal = 0, uc_configsLastUpdated = 0, uc_users = []\<rparr>\<rparr>"

theorem tasks_start_witness:
  "\<exists>t w. Ibex_CallBack sample_ix ''${ibex}/3/web1'' sample_event = Some (Inr (t, w)) \<and> ts_hosts t = [TrimSpace ''web1''] \<and>
     (\<exists>i host. asked_by_url ''${ibex}/3/web1'' sample_event i host \<and> runs_template sample_ix i host t)"
proof -
  have eq: "Ibex_CallBack sample_ix ''${ibex}/3/web1'' sample_event =
      Some (Inr (\<lparr>ts_id = 7, ts_hosts = [''web1''],
        ts_meta = meta_of_form (task_form_of (the (mget (sc_data (ix_tpls sample_ix)) 3)) ''web1'' [] [])\<rparr>, True))"
    by (simp add: Ibex_CallBack_def handleIbex_def CallIbex_def sample_ix_def Set_cache_def New_cache_def TaskTplCache_Get_def
        CanDoIbex_def GetByUsername_def TargetCache_Get_def MatchGroupId_def TaskAdd_def task_form_of_def Let_def
        ParseInt_def is_digit_def TrimSpace_def is_space_def HasPrefix_def sample_event_def GenerateNewEvent_def UpdateEvent_def zero_event_def mkeys_def Split.simps)
  have ord: "range_order (ix_ord sample_ix)" by (simp add: sample_ix_def)
  from tasks_start_with_permission [OF ord, THEN conjunct1, THEN mp, OF eq] show ?thesis
    unfolding eq by (auto simp: TrimSpace_def is_space_def)
qed

end
