(* ===== verification/Consume.thy ===== *)
theory Consume
  imports Subscribe Notify_Target Notify_Rule Event_Persist Ibex
begin

text \<open>
  Consumption of the event queue: \<open>consumeOne\<close> and its steps (\<^verbatim>\<open>alert/dispatch/consume.go\<close>), the
  templates of an event (\<open>ParseRule\<close> and \<open>ParseURL\<close> of \<^verbatim>\<open>models/alert_cur_event.go\<close>), and the dispatch of an event
  to its own receivers and to the subscriptions (\<^verbatim>\<open>alert/dispatch/dispatch.go\<close>).

  A goroutine that the dispatch starts is a \<open>dispatch_task\<close> of the answer; \<open>Send\<close> computes what such a
  task does. \<open>None\<close> is a panic. \<open>consumer\<close> holds the caches and what the code outside answers: the
  template engines (\<open>Inl\<close> an error), the query of the recovery value, the central site.
\<close>

datatype query_answer = NoClient | QueryError string | QueryEmpty | QueryValue string

record consumer =
  co_ac :: alert_ctx
  co_tmpl_ann :: "string \<Rightarrow> event \<Rightarrow> string + string"
  co_tmpl :: "string \<Rightarrow> event \<Rightarrow> string + string"
  co_query :: "int \<Rightarrow> string \<Rightarrow> query_answer"
  co_un_cfg :: "string \<Rightarrow> goval option"
  co_post :: "event \<Rightarrow> int" \<comment> \<open>the identifier the central site answers with, 0 on an error\<close>
  co_rules :: "(int, alert_rule) gomap stat_cache"
  co_subs :: "(int, alert_subscribe list) gomap stat_cache"
  co_mutes :: "(int, alert_mute list) gomap stat_cache"
  co_userGroups :: "(int, user_group) gomap stat_cache"
  co_webhooks :: "webhook list"

section \<open>Templates of an event\<close>

definition ann_defs :: string where
  "ann_defs = ''{{$labels := .TagsMap}}'' @ ''{{$value := .TriggerValue}}''"

definition rule_defs :: string where
  "rule_defs = ''{{$labels := .TagsMap}}'' @ ''{{$value := .TriggerValue}}'' @ ''{{$annotations := .AnnotationsJSON}}''"

text \<open>
  One annotation. The template sees the event with the annotations rendered so far, so the order in
  which the map is visited is observable.
\<close>

definition render_annotation :: "consumer \<Rightarrow> string \<Rightarrow> event \<Rightarrow> event" where
  "render_annotation co k e =
     (let v = (case mget (e_AnnotationsJSON e) k of Some v \<Rightarrow> v | None \<Rightarrow> []) in
      case co_tmpl_ann co (ann_defs @ v) e of
        Inl err \<Rightarrow> e\<lparr>e_AnnotationsJSON := mput k (''failed to parse annotations: '' @ err) (e_AnnotationsJSON e)\<rparr>
      | Inr body \<Rightarrow> e\<lparr>e_AnnotationsJSON := mput k body (e_AnnotationsJSON e)\<rparr>)"

definition ParseRule :: "consumer \<Rightarrow> string \<Rightarrow> event \<Rightarrow> string option \<times> event" where
  "ParseRule co field e =
     (let f = TrimSpace (GetField e field) in
      if f = [] then (None, e)
      else if field = ''annotations'' then
        (let e1 = (case decode_annotations (ac_un_ann (co_ac co)) (e_Annotations e) (e_AnnotationsJSON e) of
                     None \<Rightarrow> e\<lparr>e_AnnotationsJSON := [(''error'', e_Annotations e)]\<rparr>
                   | Some m \<Rightarrow> e\<lparr>e_AnnotationsJSON := m\<rparr>);
             e2 = fold (render_annotation co) (ac_ord (co_ac co) (mkeys (e_AnnotationsJSON e1))) e1
         in (None, e2\<lparr>e_Annotations := ac_ma_ann (co_ac co) (e_AnnotationsJSON e2)\<rparr>))
      else case co_tmpl co (rule_defs @ f) e of
             Inl err \<Rightarrow> (Some err, e)
           | Inr body \<Rightarrow>
               (let e1 = (if field = ''rule_name'' then e\<lparr>e_RuleName := body\<rparr> else e)
                in (None, if field = ''rule_note'' then e1\<lparr>e_RuleNote := body\<rparr> else e1)))"

definition ParseURL :: "consumer \<Rightarrow> event \<Rightarrow> string \<Rightarrow> string" where
  "ParseURL co e url =
     (let f = TrimSpace url in
      if f = [] then url
      else case co_tmpl co (rule_defs @ f) e of Inl _ \<Rightarrow> url | Inr body \<Rightarrow> body)"

section \<open>Steps before the notification\<close>

definition put_annotation :: "consumer \<Rightarrow> string \<Rightarrow> string \<Rightarrow> event \<Rightarrow> event" where
  "put_annotation co k v e =
     (let m = mput k v (e_AnnotationsJSON e)
      in e\<lparr>e_AnnotationsJSON := m, e_Annotations := ac_ma_ann (co_ac co) m\<rparr>)"

definition queryRecoveryVal :: "consumer \<Rightarrow> event \<Rightarrow> event" where
  "queryRecoveryVal co e =
     (if \<not> e_IsRecovered e then e
      else case mget (e_AnnotationsJSON e) ''recovery_promql'' of
             None \<Rightarrow> e
           | Some p \<Rightarrow>
               (let promql = TrimSpace p in
                if promql = [] then e
                else case co_query co (e_DatasourceId e) promql of
                       NoClient \<Rightarrow> e
                     | QueryError err \<Rightarrow> put_annotation co ''recovery_promql_error'' (''promql:'' @ promql @ '' error:'' @ err) e
                     | QueryEmpty \<Rightarrow>
                         put_annotation co ''recovery_promql_error'' (''promql:'' @ promql @ '' error:'' @ ''result is empty'') e
                     | QueryValue v \<Rightarrow> put_annotation co ''recovery_value'' v e))"

definition persist :: "consumer \<Rightarrow> db_faults \<Rightarrow> event \<Rightarrow> event_db \<Rightarrow> event \<times> event_db" where
  "persist co ft e db =
     (if e_Status e \<noteq> 0 then (e, db)
      else if \<not> ac_IsCenter (co_ac co) then
        (let e1 = snd (DB2FE (ac_un_ann (co_ac co)) (co_un_cfg co) e) in (e1\<lparr>e_Id := co_post co e1\<rparr>, db))
      else snd (EventPersist ft e db))"

fun mute_note :: "int \<Rightarrow> alert_mute list \<Rightarrow> string" where
  "mute_note muteId [] = []"
| "mute_note muteId (m # ms) = (if m_Id m = muteId then m_Note m else mute_note muteId ms)"

definition muteRuleName :: "consumer \<Rightarrow> int \<Rightarrow> int \<Rightarrow> string" where
  "muteRuleName co groupId muteId =
     (if muteId = 0 then ''-''
      else let note = (case AlertMuteCache_Gets (co_mutes co) groupId of None \<Rightarrow> [] | Some ms \<Rightarrow> mute_note muteId ms)
           in if note \<noteq> [] then note @ ''(id='' @ Itoa muteId @ '')'' else ''id='' @ Itoa muteId)"

record notification_record =
  no_EventId :: int
  no_SubId :: int
  no_Channel :: string
  no_Status :: int
  no_Target :: string
  no_Details :: string

definition recordNotifyMuted :: "consumer \<Rightarrow> event \<Rightarrow> notification_record option" where
  "recordNotifyMuted co e =
     (if e_Id e = 0 then None
      else let muteName = muteRuleName co (e_GroupId e) (e_MuteId e);
               detail = (if e_IsRecovered e
                         then ''recovery notification suppressed by notify-only mute rule '' @ muteName @ '', recovery event still recorded''
                         else ''notification suppressed by notify-only mute rule '' @ muteName @ '', event still recorded'')
           in Some \<lparr>no_EventId = e_Id e, no_SubId = e_SubRuleId e, no_Channel = ''mute'', no_Status = 3,
                    no_Target = ''id='' @ Itoa (e_MuteId e), no_Details = detail\<rparr>)"

section \<open>Dispatch\<close>

datatype dispatch_task =
    NotifyRuleTask event \<comment> \<open>\<open>HandleEventWithNotifyRule\<close>\<close>
  | StaticGlobalWebhook event
  | SendTask alert_rule event notify_target bool \<comment> \<open>\<open>Send\<close>\<close>

function HandleEventNotify :: "consumer \<Rightarrow> event \<Rightarrow> bool \<Rightarrow> dispatch_task list option"
  and handleSubs :: "consumer \<Rightarrow> event \<Rightarrow> alert_subscribe list \<Rightarrow> dispatch_task list option"
  and handleSub :: "consumer \<Rightarrow> alert_subscribe \<Rightarrow> event \<Rightarrow> dispatch_task list option"
where
  "HandleEventNotify co e isSubscribe =
     (if e_IsRecovered e \<and> e_NotifyRecovered e = 0 then Some [NotifyRuleTask e]
      else let ts = NotifyRuleTask e # (if \<not> isSubscribe then [StaticGlobalWebhook e] else [])
           in case AlertRuleCache_Get (co_rules co) (e_RuleId e) of
                None \<Rightarrow> Some ts
              | Some rule \<Rightarrow>
                  (let ts1 = ts @ [SendTask rule e (build_target (co_userGroups co) (co_webhooks co) isSubscribe e) isSubscribe]
                   in if \<not> isSubscribe
                      then map_option (\<lambda>us. ts1 @ us) (handleSubs co e (collectSubscribes (co_subs co) e))
                      else Some ts1))"
| "handleSubs co e [] = Some []"
| "handleSubs co e (sub # subs) =
     do {
       as \<leftarrow> handleSub co sub e;
       bs \<leftarrow> handleSubs co e subs;
       Some (as @ bs)
     }"
| "handleSub co sub e =
     do {
       ok \<leftarrow> subMatches (ac_env (co_ac co)) sub e;
       if \<not> ok then Some []
       else HandleEventNotify co ((ModifyEvent sub e)\<lparr>e_SubRuleId := s_Id sub\<rparr>) True
     }"
  by pat_completeness auto

text \<open>The event of a subscription is not dispatched to subscriptions again.\<close>

termination
  by (relation "measures [\<lambda>x. case x of Inl (co, e, b) \<Rightarrow> if b then 0 else 3
                                     | Inr (Inl (co, e, subs)) \<Rightarrow> 2 | Inr (Inr y) \<Rightarrow> 1,
                          \<lambda>x. case x of Inr (Inl (co, e, subs)) \<Rightarrow> length subs | _ \<Rightarrow> 0]") auto

text \<open>The events that the hook for suppressed notifications is called on.\<close>

fun cleanup_subs :: "consumer \<Rightarrow> event \<Rightarrow> alert_subscribe list \<Rightarrow> event list option" where
  "cleanup_subs co e [] = Some []"
| "cleanup_subs co e (sub # subs) =
     do {
       ok \<leftarrow> subMatches (ac_env (co_ac co)) sub e;
       es \<leftarrow> cleanup_subs co e subs;
       Some (if \<not> ok then es else ModifyEvent sub e # es)
     }"

definition CleanupNotifyMuted :: "consumer \<Rightarrow> event \<Rightarrow> event list option" where
  "CleanupNotifyMuted co e =
     (if \<not> e_IsRecovered e then Some [e]
      else map_option (\<lambda>es. e # es) (cleanup_subs co e (collectSubscribes (co_subs co) e)))"

section \<open>Consuming one event\<close>

datatype consume_effect =
    is_MutedRecord: MutedRecord notification_record
  | MutedHook event
  | is_Spawn: Spawn dispatch_task

text \<open>The event as it is when it is persisted.\<close>

definition prepare_event :: "consumer \<Rightarrow> event \<Rightarrow> event" where
  "prepare_event co e =
     (let e1 = (case ParseRule co ''rule_name'' e of
                  (Some err, e') \<Rightarrow> e'\<lparr>e_RuleName := ''failed to parse rule name: '' @ err\<rparr>
                | (None, e') \<Rightarrow> e');
          e2 = (case ParseRule co ''annotations'' e1 of
                  (Some err, e') \<Rightarrow>
                    (let a = ''failed to parse annotations: '' @ err
                     in e'\<lparr>e_Annotations := a, e_AnnotationsJSON := mput ''error'' a (e_AnnotationsJSON e')\<rparr>)
                | (None, e') \<Rightarrow> e');
          e3 = queryRecoveryVal co e2
      in case ParseRule co ''rule_note'' e3 of
           (Some err, e') \<Rightarrow> e'\<lparr>e_RuleNote := ''failed to parse rule note: '' @ err\<rparr>
         | (None, e') \<Rightarrow> e')"

definition consumeOne ::
  "consumer \<Rightarrow> db_faults \<Rightarrow> event \<Rightarrow> event_db \<Rightarrow> (event \<times> event_db \<times> consume_effect list) option"
where
  "consumeOne co ft event db =
     (let (e, db1) = persist co ft (prepare_event co event) db
      in if e_NotifyMuted e = 1 then
           map_option (\<lambda>hooks. (e, db1, (case recordNotifyMuted co e of None \<Rightarrow> [] | Some r \<Rightarrow> [MutedRecord r]) @ map MutedHook hooks))
             (CleanupNotifyMuted co e)
         else map_option (\<lambda>ts. (e, db1, map Spawn ts)) (HandleEventNotify co e False))"

text \<open>
  A batch popped from the queue, in the order in which the goroutines of its events run; nil entries
  are skipped.
\<close>

fun consume ::
  "consumer \<Rightarrow> (db_faults \<times> event option) list \<Rightarrow> event_db \<Rightarrow> (event_db \<times> consume_effect list) option"
where
  "consume co [] db = Some (db, [])"
| "consume co ((ft, None) # es) db = consume co es db"
| "consume co ((ft, Some e) # es) db =
     do {
       (e', db1, fx) \<leftarrow> consumeOne co ft e db;
       (db2, gx) \<leftarrow> consume co es db1;
       Some (db2, fx @ gx)
     }"

section \<open>Lemmas\<close>

text \<open>What preparing and persisting an event leave alone.\<close>

definition same_notice :: "event \<Rightarrow> event \<Rightarrow> bool" where
  "same_notice e e' \<longleftrightarrow> e_NotifyMuted e' = e_NotifyMuted e \<and> e_Status e' = e_Status e \<and> e_IsRecovered e' = e_IsRecovered e \<and>
     e_Hash e' = e_Hash e \<and> e_RuleId e' = e_RuleId e \<and> e_NotifyRuleIds e' = e_NotifyRuleIds e \<and> e_MuteId e' = e_MuteId e"

lemma same_notice_trans: "same_notice a b \<Longrightarrow> same_notice b c \<Longrightarrow> same_notice a c"
  by (simp add: same_notice_def)

lemma same_notice_fold: "same_notice e (fold (render_annotation co) ks e)"
proof (induction ks arbitrary: e)
  case Nil
  show ?case by (simp add: same_notice_def)
next
  case (Cons k ks)
  have "same_notice e (render_annotation co k e)"
    by (simp add: render_annotation_def same_notice_def Let_def split: sum.split)
  then show ?case using Cons by (auto intro: same_notice_trans)
qed

lemma same_notice_ParseRule: "same_notice e (snd (ParseRule co field e))"
proof -
  have ann: "same_notice e (case decode_annotations f (e_Annotations e) (e_AnnotationsJSON e) of
       None \<Rightarrow> e\<lparr>e_AnnotationsJSON := [(''error'', e_Annotations e)]\<rparr> | Some m \<Rightarrow> e\<lparr>e_AnnotationsJSON := m\<rparr>)" for f
    by (simp add: same_notice_def split: option.split)
  have upd: "same_notice e e1 \<Longrightarrow> same_notice e (e1\<lparr>e_Annotations := a\<rparr>)" for e1 a by (simp add: same_notice_def)
  show ?thesis
    unfolding ParseRule_def Let_def
    by (auto simp: same_notice_def [of e e] same_notice_def [of e "e_RuleName_update _ _"] same_notice_def [of e "e_RuleNote_update _ _"]
        split: sum.split intro!: upd same_notice_trans [OF ann same_notice_fold])
qed

lemma same_notice_query: "same_notice e (queryRecoveryVal co e)"
  by (simp add: queryRecoveryVal_def put_annotation_def same_notice_def Let_def split: option.split query_answer.split)

lemma same_notice_prepare: "same_notice e (prepare_event co e)"
proof -
  have fin: "same_notice e (case ParseRule co f e' of (Some err, e2) \<Rightarrow> g err e2 | (None, e2) \<Rightarrow> e2)"
    if "same_notice e e'" and "\<And>err e2. same_notice e e2 \<Longrightarrow> same_notice e (g err e2)" for f e' g
    using same_notice_trans [OF that(1) same_notice_ParseRule [of e' co f]] that(2)
    by (auto split: prod.split option.split)
  show ?thesis
    unfolding prepare_event_def Let_def
    by (intro fin same_notice_trans [OF _ same_notice_query]) (simp_all add: same_notice_def)
qed

lemma same_notice_DB2FE: "same_notice e (snd (DB2FE f g e))"
  by (simp add: DB2FE_def same_notice_def Let_def split: option.split)

lemma EventPersist_event: "fst (snd (EventPersist ft e db)) = e \<or> (\<exists>i. fst (snd (EventPersist ft e db)) = e\<lparr>e_Id := i\<rparr>)"
  by (auto simp: EventPersist_def Let_def split_beta)

lemma same_notice_persist: "same_notice e (fst (persist co ft e db))"
  using EventPersist_event [of ft e db] same_notice_DB2FE [of e "ac_un_ann (co_ac co)" "co_un_cfg co"]
  by (auto simp: persist_def Let_def same_notice_def)

text \<open>The events that the notification rules get.\<close>

definition rule_events :: "dispatch_task list \<Rightarrow> event list" where
  "rule_events ts = concat (map (\<lambda>t. case t of NotifyRuleTask e \<Rightarrow> [e] | _ \<Rightarrow> []) ts)"

lemma rule_events_simps [simp]:
  "rule_events [] = []" "rule_events (NotifyRuleTask e # ts) = e # rule_events ts"
  "rule_events (StaticGlobalWebhook e # ts) = rule_events ts" "rule_events (SendTask r e t b # ts) = rule_events ts"
  "rule_events (as @ bs) = rule_events as @ rule_events bs"
  by (simp_all add: rule_events_def)

lemmas dispatch_rec [simp del] = HandleEventNotify.simps

lemma HandleEventNotify_first: "HandleEventNotify co e b = Some ts \<Longrightarrow> \<exists>rest. ts = NotifyRuleTask e # rest"
  unfolding dispatch_rec by (auto simp: Let_def split: if_split_asm option.split_asm)

lemma sub_notify: "\<exists>ts. HandleEventNotify co e True = Some ts \<and> rule_events ts = [e]"
  by (subst dispatch_rec) (simp add: Let_def split: option.split)

lemma ModifyEvent_sub_id: "(ModifyEvent sub e)\<lparr>e_SubRuleId := i, e_SubRuleId := e_SubRuleId e\<rparr> = ModifyEvent sub e"
  by (simp add: ModifyEvent_def Let_def)

lemma handleSubs_cleanup:
  "map_option (\<lambda>ts. map (\<lambda>e'. e'\<lparr>e_SubRuleId := e_SubRuleId e\<rparr>) (rule_events ts)) (handleSubs co e subs) = cleanup_subs co e subs"
proof (induction subs)
  case Nil
  show ?case by simp
next
  case (Cons sub subs)
  obtain ts where ts0: "HandleEventNotify co ((ModifyEvent sub e)\<lparr>e_SubRuleId := s_Id sub\<rparr>) True = Some ts"
    and ts1: "rule_events ts = [(ModifyEvent sub e)\<lparr>e_SubRuleId := s_Id sub\<rparr>]"
    using sub_notify by blast
  have one: "handleSub co sub e = map_option (\<lambda>ok. if ok then ts else []) (subMatches (ac_env (co_ac co)) sub e)"
    unfolding handleSub.simps ts0 by (cases "subMatches (ac_env (co_ac co)) sub e") simp_all
  have ts: "map (\<lambda>e'. e'\<lparr>e_SubRuleId := e_SubRuleId e\<rparr>) (rule_events ts) = [ModifyEvent sub e]"
    unfolding ts1 list.map ModifyEvent_sub_id ..
  show ?case
    unfolding handleSubs.simps cleanup_subs.simps one Cons.IH [symmetric]
    using ts by (cases "subMatches (ac_env (co_ac co)) sub e"; cases "handleSubs co e subs") simp_all
qed

section \<open>Properties\<close>

text \<open>
  C11. Every consumed event is persisted before anything is decided about it, and then either recorded as
  suppressed or dispatched, never both. An event that a notify-only mute rule hit starts no notification of any kind, for itself or
  for a subscription, and its first effect is the notification record of the mute rule, unless it could not be
  stored and has no number. Any other event is dispatched, starting with its notification rules, and
  leaves no record of suppression. At the center and without database faults the event has a new
  row of the history, with the number that the record names, and the active table holds it exactly if it is firing.
\<close>

theorem muted_event_is_recorded_not_sent:
  assumes "consumeOne co ft event db = Some (e, db', fx)"
  shows "(if e_NotifyMuted event = 1
      then (\<nexists>t. Spawn t \<in> set fx) \<and> length (filter is_MutedRecord fx) \<le> 1 \<and>
        (e_Id e \<noteq> 0 \<longrightarrow> (\<exists>r rest. fx = MutedRecord r # rest \<and> no_EventId r = e_Id e \<and> no_Channel r = ''mute'' \<and>
           no_Status r = 3 \<and> no_Target r = ''id='' @ Itoa (e_MuteId event)))
      else (\<exists>rest. fx = Spawn (NotifyRuleTask e) # rest) \<and> (\<forall>x \<in> set fx. is_Spawn x)) \<and>
    (ft = no_faults \<and> e_Status event = 0 \<and> ac_IsCenter (co_ac co) \<and> db_ok db \<longrightarrow>
      e_Id e \<noteq> 0 \<and> db_his db' = db_his db @ [(ToHis (prepare_event co event))\<lparr>hi_Id := e_Id e\<rparr>] \<and>
      active db' (e_Hash event) = (if e_IsRecovered event then None else Some e))"
proof -
  let ?p = "persist co ft (prepare_event co event) db"
  have e: "e = fst ?p" and db': "db' = snd ?p"
    using assms by (auto simp: consumeOne_def split_beta Let_def split: if_split_asm)
  have same: "same_notice event e" unfolding e by (rule same_notice_trans [OF same_notice_prepare same_notice_persist])
  then have mute: "e_NotifyMuted e = e_NotifyMuted event" "e_MuteId e = e_MuteId event" by (simp_all add: same_notice_def)
  have half: "if e_NotifyMuted event = 1
      then (\<nexists>t. Spawn t \<in> set fx) \<and> length (filter is_MutedRecord fx) \<le> 1 \<and>
        (e_Id e \<noteq> 0 \<longrightarrow> (\<exists>r rest. fx = MutedRecord r # rest \<and> no_EventId r = e_Id e \<and> no_Channel r = ''mute'' \<and>
           no_Status r = 3 \<and> no_Target r = ''id='' @ Itoa (e_MuteId event)))
      else (\<exists>rest. fx = Spawn (NotifyRuleTask e) # rest) \<and> (\<forall>x \<in> set fx. is_Spawn x)"
  proof (cases "e_NotifyMuted event = 1")
    case True
    then obtain hooks where fx: "fx = (case recordNotifyMuted co e of None \<Rightarrow> [] | Some r \<Rightarrow> [MutedRecord r]) @ map MutedHook hooks"
      using assms mute(1) unfolding e by (auto simp: consumeOne_def split_beta Let_def)
    have "filter is_MutedRecord (map MutedHook hooks) = []" by (simp add: filter_empty_conv)
    with True fx mute(2) show ?thesis by (auto simp: recordNotifyMuted_def Let_def split: if_split_asm)
  next
    case False
    then obtain ts where ts: "HandleEventNotify co e False = Some ts" and fx: "fx = map Spawn ts"
      using assms mute(1) unfolding e by (auto simp: consumeOne_def split_beta Let_def)
    from HandleEventNotify_first [OF ts] fx False show ?thesis by auto
  qed
  have "e_Id e \<noteq> 0 \<and> db_his db' = db_his db @ [(ToHis (prepare_event co event))\<lparr>hi_Id := e_Id e\<rparr>] \<and>
      active db' (e_Hash event) = (if e_IsRecovered event then None else Some e)"
    if "ft = no_faults" "e_Status event = 0" "ac_IsCenter (co_ac co)" "db_ok db"
  proof -
    have prep: "same_notice event (prepare_event co event)" by (rule same_notice_prepare)
    have p: "?p = snd (EventPersist no_faults (prepare_event co event) db)"
      using prep that(1-3) by (simp add: persist_def same_notice_def)
    note ev = EventPersist_no_faults [OF that(4), of "prepare_event co event"]
    show ?thesis
      using prep that(4) active_step [OF that(4), of "prepare_event co event" "e_Hash event"]
      unfolding e db' p ev by (simp add: same_notice_def db_ok_def)
  qed
  with half show ?thesis by blast
qed

text \<open>
  C12. For a recovery whose notification is suppressed, the hook is called at least on the events that
  the dispatch would have handed to the notification rules, up to the number of the subscription, which
  only the dispatch sets. Where the rule is still cached and notifies recoveries they are the same events in the
  same order, that of the rule and one for each matching subscription, and the two paths panic alike.
\<close>

theorem cleanup_covers_the_dispatched_rules:
  assumes "e_IsRecovered e"
  shows "(CleanupNotifyMuted co e = Some hooks \<longrightarrow>
      (\<exists>ts. HandleEventNotify co e False = Some ts \<and> (\<lambda>e'. e'\<lparr>e_SubRuleId := e_SubRuleId e\<rparr>) ` set (rule_events ts) \<subseteq> set hooks)) \<and>
    (e_NotifyRecovered e \<noteq> 0 \<and> AlertRuleCache_Get (co_rules co) (e_RuleId e) \<noteq> None \<longrightarrow>
      CleanupNotifyMuted co e =
        map_option (\<lambda>ts. map (\<lambda>e'. e'\<lparr>e_SubRuleId := e_SubRuleId e\<rparr>) (rule_events ts)) (HandleEventNotify co e False))"
proof -
  have eq: "CleanupNotifyMuted co e =
      map_option (\<lambda>ts. map (\<lambda>e'. e'\<lparr>e_SubRuleId := e_SubRuleId e\<rparr>) (rule_events ts)) (HandleEventNotify co e False)"
    if "e_NotifyRecovered e \<noteq> 0" "AlertRuleCache_Get (co_rules co) (e_RuleId e) \<noteq> None"
    using assms that
    by (subst dispatch_rec)
      (auto simp: CleanupNotifyMuted_def handleSubs_cleanup [symmetric] option.map_comp comp_def)
  have "\<exists>ts. HandleEventNotify co e False = Some ts \<and> (\<lambda>e'. e'\<lparr>e_SubRuleId := e_SubRuleId e\<rparr>) ` set (rule_events ts) \<subseteq> set hooks"
    if run: "CleanupNotifyMuted co e = Some hooks"
  proof (cases "e_NotifyRecovered e \<noteq> 0 \<and> AlertRuleCache_Get (co_rules co) (e_RuleId e) \<noteq> None")
    case True
    then show ?thesis using eq run by (cases "HandleEventNotify co e False") auto
  next
    case False
    then have "\<exists>ts. HandleEventNotify co e False = Some ts \<and> rule_events ts = [e]"
      using assms by (subst dispatch_rec) (auto simp: Let_def)
    moreover have "e \<in> set hooks" using run assms by (auto simp: CleanupNotifyMuted_def)
    ultimately show ?thesis by auto
  qed
  with eq show ?thesis by blast
qed

section \<open>Examples\<close>

definition sample_consumer :: consumer where
  "sample_consumer = \<lparr>co_ac = sample_ac, co_tmpl_ann = (\<lambda>t e. Inr t), co_tmpl = (\<lambda>t e. Inr t), co_query = (\<lambda>d q. NoClient),
     co_un_cfg = (\<lambda>s. None), co_post = (\<lambda>e. 0), co_rules = Set_cache [(1, sample_rule)] 1 1 (New_cache []),
     co_subs = Set_cache [(1, [sample_sub [1]])] 1 1 (New_cache []), co_mutes = New_cache [],
     co_userGroups = New_cache [], co_webhooks = []\<rparr>"

lemma consume_muted_firing:
  assumes "e_NotifyMuted e = 1" and "\<not> e_IsRecovered e"
  shows "\<exists>r. consumeOne co ft e db = Some r"
proof -
  let ?e = "fst (persist co ft (prepare_event co e) db)"
  have "same_notice e ?e" by (rule same_notice_trans [OF same_notice_prepare same_notice_persist])
  with assms show ?thesis
    by (auto simp: consumeOne_def CleanupNotifyMuted_def Let_def split_beta same_notice_def)
qed

theorem muted_recorded_witness:
  "\<exists>e db' r rest. consumeOne sample_consumer no_faults (sample_event\<lparr>e_NotifyMuted := 1\<rparr>) empty_db = Some (e, db', MutedRecord r # rest) \<and>
     (\<nexists>t. Spawn t \<in> set rest) \<and> no_EventId r = e_Id e \<and> active db' ''h1'' = Some e"
proof -
  let ?ev = "sample_event\<lparr>e_NotifyMuted := 1\<rparr>"
  obtain e db' fx where run: "consumeOne sample_consumer no_faults ?ev empty_db = Some (e, db', fx)"
    using consume_muted_firing [of ?ev sample_consumer no_faults empty_db] by (auto simp: split_paired_Ex)
  have "e_Status ?ev = 0" by (simp add: sample_event_def GenerateNewEvent_def UpdateEvent_def zero_event_def)
  moreover have "ac_IsCenter (co_ac sample_consumer)" by (simp add: sample_consumer_def sample_ac_def)
  ultimately show ?thesis
    using muted_event_is_recorded_not_sent [OF run] empty_db_ok run by auto
qed

theorem cleanup_covers_witness:
  "let e = sample_event\<lparr>e_IsRecovered := True, e_NotifyRecovered := 1\<rparr>
   in CleanupNotifyMuted sample_consumer e = Some [e, ModifyEvent (sample_sub [1]) e]"
proof -
  let ?e = "sample_event\<lparr>e_IsRecovered := True, e_NotifyRecovered := 1\<rparr>"
  let ?m = "(ModifyEvent (sample_sub [1]) ?e)\<lparr>e_SubRuleId := 5\<rparr>"
  have rule: "AlertRuleCache_Get (co_rules sample_consumer) (e_RuleId ?e) = Some sample_rule"
    by (simp add: AlertRuleCache_Get_def sample_consumer_def Set_cache_def)
  have subs: "collectSubscribes (co_subs sample_consumer) ?e = [sample_sub [1]]"
    by (simp add: collectSubscribes_def SubscribeCache_Get_def sample_consumer_def Set_cache_def)
  have ok: "subMatches (ac_env (co_ac sample_consumer)) (sample_sub [1]) ?e = Some True"
    by (simp add: subMatches_def sample_sub_def IsDisabled_def MatchCluster_def MatchProd_def MatchCate_def
        sample_event_def GenerateNewEvent_def UpdateEvent_def zero_event_def)
  have sub5: "s_Id (sample_sub [1]) = 5" by (simp add: sample_sub_def)
  obtain ts where "HandleEventNotify sample_consumer ?m True = Some ts" and "rule_events ts = [?m]"
    using sub_notify by blast
  then have "\<exists>ts. HandleEventNotify sample_consumer ?e False = Some ts \<and> rule_events ts = [?e, ?m]"
    by (subst dispatch_rec) (simp add: rule [simplified] subs ok sub5 Let_def)
  then show ?thesis
    unfolding Let_def using cleanup_covers_the_dispatched_rules [of ?e sample_consumer] rule ModifyEvent_sub_id [where e = ?e and sub = "sample_sub [1]"]
    by auto
qed

end
