(* ===== verification/Persist_Race.thy ===== *)
theory Persist_Race
  imports Event_Persist
begin

text \<open>
  The consumer runs \<open>EventPersist\<close> of every popped event in a goroutine of its own, with no lock and no
  transaction around its four statements (\<^verbatim>\<open>alert/dispatch/consume.go\<close>, \<open>consume\<close>). Here the statements
  are steps that the goroutines interleave: a goroutine is where it stands in \<open>EventPersist\<close>.

  A single goroutine computes \<open>EventPersist\<close>. Goroutines of different alerts keep the tables
  well-formed in any interleaving; two goroutines of one alert need not.
\<close>

datatype persist_pc =
    PStart event
  | PChecked bool event
  | PDelete int event
  | PInsert event
  | PDone "persist_error option" event

definition after_delete :: "int \<Rightarrow> event \<Rightarrow> persist_pc" where
  "after_delete hid e =
     (if \<not> e_IsRecovered e \<and> hid > 0 then PInsert (e\<lparr>e_Id := hid\<rparr>) else PDone None (e\<lparr>e_Id := hid\<rparr>))"

inductive persist_step :: "event_db \<Rightarrow> persist_pc \<Rightarrow> event_db \<Rightarrow> persist_pc \<Rightarrow> bool" where
  check: "persist_step db (PStart e) db (PChecked (AlertCurEventExists (e_Hash e) db) e)"
| check_fails: "persist_step db (PStart e) db (PDone (Some CheckExistsFailed) e)"
| history: "Add_his (ToHis e) db = (hid, db') \<Longrightarrow>
    persist_step db (PChecked has e) db' (if has then PDelete hid e else after_delete hid e)"
| history_fails: "persist_step db (PChecked has e) db (PDone (Some AddHisFailed) e)"
| delete: "persist_step db (PDelete hid e) (AlertCurEventDelByHash (e_Hash e) db) (after_delete hid e)"
| delete_fails: "persist_step db (PDelete hid e) db (PDone (Some DelCurFailed) e)"
| insert: "persist_step db (PInsert e) (Add_cur e db) (PDone None e)"
| insert_fails: "persist_step db (PInsert e) db (PDone (Some AddCurFailed) e)"

inductive_cases PStart_step: "persist_step db (PStart e) db' pc"
inductive_cases PChecked_step: "persist_step db (PChecked has e) db' pc"
inductive_cases PDelete_step: "persist_step db (PDelete hid e) db' pc"
inductive_cases PInsert_step: "persist_step db (PInsert e) db' pc"
inductive_cases PDone_step: "persist_step db (PDone r e) db' pc"

text \<open>The goroutines of a batch; one of them makes a step.\<close>

inductive race_step :: "event_db \<times> persist_pc list \<Rightarrow> event_db \<times> persist_pc list \<Rightarrow> bool" where
  "i < length pcs \<Longrightarrow> persist_step db (pcs ! i) db' pc \<Longrightarrow> race_step (db, pcs) (db', pcs[i := pc])"

inductive_cases race_stepE: "race_step (db, pcs) s"

abbreviation race :: "event_db \<times> persist_pc list \<Rightarrow> event_db \<times> persist_pc list \<Rightarrow> bool" where
  "race \<equiv> race_step\<^sup>*\<^sup>*"

declare rtranclp.rtrancl_into_rtrancl [trans]

section \<open>One goroutine\<close>

text \<open>The outcomes of a goroutine that runs to its end undisturbed.\<close>

inductive finishes :: "event_db \<Rightarrow> persist_pc \<Rightarrow> event_db \<Rightarrow> persist_error option \<Rightarrow> event \<Rightarrow> bool" where
  finished: "finishes db (PDone r e) db r e"
| continue: "persist_step db pc db1 pc1 \<Longrightarrow> finishes db1 pc1 db' r e \<Longrightarrow> finishes db pc db' r e"

inductive_simps finishes_PStart_step: "finishes db (PStart e) db' r e'"
inductive_simps finishes_PChecked_step: "finishes db (PChecked has e) db' r e'"
inductive_simps finishes_PDelete_step: "finishes db (PDelete hid e) db' r e'"
inductive_simps finishes_PInsert_step: "finishes db (PInsert e) db' r e'"
inductive_simps finishes_PDone_step: "finishes db (PDone r0 e) db' r e'"

inductive_simps persist_step_simps:
  "persist_step db (PStart e) db' pc" "persist_step db (PChecked has e) db' pc" "persist_step db (PDelete hid e) db' pc"
  "persist_step db (PInsert e) db' pc" "persist_step db (PDone r e) db' pc"

lemma finishes_PDone: "finishes db (PDone r0 e) db' r e' \<longleftrightarrow> r = r0 \<and> e' = e \<and> db' = db"
  by (auto simp: finishes_PDone_step persist_step_simps)

lemma finishes_PInsert:
  "finishes db (PInsert e) db' r e' \<longleftrightarrow> e' = e \<and> (r = None \<and> db' = Add_cur e db \<or> r = Some AddCurFailed \<and> db' = db)"
  by (auto simp: finishes_PInsert_step persist_step_simps finishes_PDone conj_disj_distribR ex_disj_distrib)

lemma finishes_after_delete:
  "finishes db (after_delete hid e) db' r e' \<longleftrightarrow> e' = e\<lparr>e_Id := hid\<rparr> \<and>
     (r = None \<and> db' = (if \<not> e_IsRecovered e \<and> hid > 0 then Add_cur (e\<lparr>e_Id := hid\<rparr>) db else db) \<or>
      r = Some AddCurFailed \<and> db' = db \<and> \<not> e_IsRecovered e \<and> hid > 0)"
  by (auto simp: after_delete_def finishes_PInsert finishes_PDone)

lemma finishes_PDelete:
  "finishes db (PDelete hid e) db' r e' \<longleftrightarrow>
     finishes (AlertCurEventDelByHash (e_Hash e) db) (after_delete hid e) db' r e' \<or>
     r = Some DelCurFailed \<and> e' = e \<and> db' = db"
  by (subst finishes_PDelete_step) (auto simp: persist_step_simps finishes_PDone conj_disj_distribR ex_disj_distrib)

lemma finishes_PChecked:
  "finishes db (PChecked has e) db' r e' \<longleftrightarrow>
     finishes (snd (Add_his (ToHis e) db)) (if has then PDelete (fst (Add_his (ToHis e) db)) e else after_delete (fst (Add_his (ToHis e) db)) e)
       db' r e' \<or>
     r = Some AddHisFailed \<and> e' = e \<and> db' = db"
  by (subst finishes_PChecked_step) (auto simp: persist_step_simps finishes_PDone prod_eq_iff conj_disj_distribR ex_disj_distrib)

lemma finishes_PStart:
  "finishes db (PStart e) db' r e' \<longleftrightarrow>
     finishes db (PChecked (AlertCurEventExists (e_Hash e) db) e) db' r e' \<or> r = Some CheckExistsFailed \<and> e' = e \<and> db' = db"
  by (subst finishes_PStart_step) (auto simp: persist_step_simps finishes_PDone conj_disj_distribR ex_disj_distrib)

text \<open>The fault that an outcome tells of.\<close>

definition fault_of :: "persist_error option \<Rightarrow> db_faults" where
  "fault_of r =
     \<lparr>ft_exists = (r = Some CheckExistsFailed), ft_his = (r = Some AddHisFailed), ft_del = (r = Some DelCurFailed),
      ft_cur = (r = Some AddCurFailed)\<rparr>"

lemma finishes_iff_EventPersist:
  "finishes db (PStart e) db' r e' \<longleftrightarrow> (\<exists>ft. EventPersist ft e db = (r, e', db'))" (is "?lhs \<longleftrightarrow> ?rhs")
proof
  assume ?lhs
  then have "EventPersist (fault_of r) e db = (r, e', db')"
    unfolding finishes_PStart finishes_PChecked
    by (auto simp: EventPersist_def fault_of_def Let_def split_beta finishes_PDelete finishes_after_delete split: if_split_asm)
  then show ?rhs ..
next
  assume ?rhs
  then obtain ft where "EventPersist ft e db = (r, e', db')" ..
  then show ?lhs
    unfolding finishes_PStart finishes_PChecked
    by (auto simp: EventPersist_def Let_def split_beta finishes_PDelete finishes_after_delete split: if_split_asm)
qed

lemma race_single: "race (db, [pc]) (db', [PDone r e]) \<longleftrightarrow> finishes db pc db' r e"
proof
  assume "race (db, [pc]) (db', [PDone r e])"
  then show "finishes db pc db' r e"
  proof (induction "(db, [pc])" arbitrary: db pc rule: converse_rtranclp_induct)
    case base
    show ?case by (rule finished)
  next
    case (step t)
    then show ?case by (auto elim!: race_stepE intro: continue)
  qed
next
  assume "finishes db pc db' r e"
  then show "race (db, [pc]) (db', [PDone r e])"
  proof induction
    case (continue db pc db1 pc1 db' r e)
    then have "race_step (db, [pc]) (db1, [pc1])" using race_step.intros [of 0 "[pc]"] by force
    then show ?case using continue.IH by (rule converse_rtranclp_into_rtranclp)
  qed simp
qed

section \<open>Goroutines of different alerts\<close>

fun pc_hash :: "persist_pc \<Rightarrow> string" where
  "pc_hash (PStart e) = e_Hash e"
| "pc_hash (PChecked has e) = e_Hash e"
| "pc_hash (PDelete hid e) = e_Hash e"
| "pc_hash (PInsert e) = e_Hash e"
| "pc_hash (PDone r e) = e_Hash e"

text \<open>A goroutine that goes on to insert without a delete relies on the alert being absent.\<close>

fun relies_absent :: "persist_pc \<Rightarrow> bool" where
  "relies_absent (PChecked has e) = (\<not> has)"
| "relies_absent (PInsert e) = True"
| "relies_absent _ = False"

definition race_inv :: "event_db \<Rightarrow> persist_pc list \<Rightarrow> bool" where
  "race_inv db pcs \<longleftrightarrow> db_ok db \<and> distinct (map pc_hash pcs) \<and>
     (\<forall>pc \<in> set pcs. relies_absent pc \<longrightarrow> \<not> AlertCurEventExists (pc_hash pc) db)"

lemma pc_hash_after_delete [simp]: "pc_hash (after_delete hid e) = e_Hash e"
  by (simp add: after_delete_def)

lemma relies_after_delete: "relies_absent (after_delete hid e) \<longleftrightarrow> \<not> e_IsRecovered e \<and> hid > 0"
  by (simp add: after_delete_def)

lemma Exists_Add_cur: "AlertCurEventExists k (Add_cur e db) \<longleftrightarrow> k = e_Hash e \<or> AlertCurEventExists k db"
  by (auto simp: AlertCurEventExists_def Add_cur_def list_ex_iff)

lemma step_keeps_hash: "persist_step db pc db' pc' \<Longrightarrow> pc_hash pc' = pc_hash pc"
  by (cases rule: persist_step.cases) auto

text \<open>A step touches the active rows of its own alert only, and keeps what it relies on.\<close>

lemma step_own_alert:
  assumes "persist_step db pc db' pc'" and "k \<noteq> pc_hash pc"
  shows "AlertCurEventExists k db' \<longleftrightarrow> AlertCurEventExists k db"
  using assms exists_simps(2) [of k]
  by (cases rule: persist_step.cases) (auto simp: Exists_Add_cur simp del: exists_simps(2), (metis snd_conv)+)

lemma step_keeps_db:
  assumes "persist_step db pc db' pc'" and "db_ok db" and "relies_absent pc \<longrightarrow> \<not> AlertCurEventExists (pc_hash pc) db"
  shows "db_ok db' \<and> (relies_absent pc' \<longrightarrow> \<not> AlertCurEventExists (pc_hash pc') db')"
  using assms
proof (cases rule: persist_step.cases)
  case (history e hid has)
  then have "db_ok db'" and "AlertCurEventExists k db' \<longleftrightarrow> AlertCurEventExists k db" for k
    using Add_his_ok [OF assms(2), of "ToHis e"] exists_simps(2) [of k "ToHis e" db] by simp_all
  with history assms(3) show ?thesis by auto
next
  case (delete hid e)
  with Del_ok [OF assms(2)] show ?thesis by auto
next
  case (insert e)
  with Add_cur_ok [OF assms(2), of e] assms(3) show ?thesis by auto
qed (use assms in auto)

lemma race_inv_step:
  assumes "race_step (db, pcs) (db', pcs')" and "race_inv db pcs"
  shows "race_inv db' pcs'"
proof -
  obtain i pc where i: "i < length pcs" and st: "persist_step db (pcs ! i) db' pc" and pcs': "pcs' = pcs[i := pc]"
    using assms(1) by (auto elim: race_stepE)
  have rel: "\<forall>q \<in> set pcs. relies_absent q \<longrightarrow> \<not> AlertCurEventExists (pc_hash q) db" and ok: "db_ok db"
    and dis: "distinct (map pc_hash pcs)"
    using assms(2) by (auto simp: race_inv_def)
  have own: "db_ok db' \<and> (relies_absent pc \<longrightarrow> \<not> AlertCurEventExists (pc_hash pc) db')"
    using step_keeps_db [OF st ok] rel i by simp
  have "map pc_hash pcs' = map pc_hash pcs"
    unfolding pcs' map_update step_keeps_hash [OF st] using i by (metis list_update_id nth_map)
  moreover have "\<not> AlertCurEventExists (pc_hash (pcs' ! j)) db'" if "j < length pcs'" "relies_absent (pcs' ! j)" for j
  proof (cases "j = i")
    case True
    with own that i show ?thesis by (simp add: pcs')
  next
    case False
    with that have q: "pcs' ! j = pcs ! j" and j: "j < length pcs" by (simp_all add: pcs')
    have "pc_hash (pcs ! j) \<noteq> pc_hash (pcs ! i)" using dis i j False nth_eq_iff_index_eq [OF dis, of j i] by simp
    with step_own_alert [OF st] rel that q j show ?thesis by simp
  qed
  ultimately show ?thesis using own dis by (auto simp: race_inv_def in_set_conv_nth)
qed

lemma first_steps: "persist_step d p d' p' \<Longrightarrow> race_step (d, p # qs) (d', p' # qs)"
  using race_step.intros [of 0 "p # qs"] by force

lemma second_steps: "persist_step d q d' q' \<Longrightarrow> race_step (d, p # q # qs) (d', p # q' # qs)"
  using race_step.intros [of 1 "p # q # qs"] by force

lemma check_empty: "persist_step empty_db (PStart e) empty_db (PChecked False e)"
  using check [of empty_db e] by (simp add: AlertCurEventExists_def empty_db_def)

lemma history_firing:
  assumes "\<not> e_IsRecovered e" and "db_id db > 0"
  shows "persist_step db (PChecked False e) (snd (Add_his (ToHis e) db)) (PInsert (e\<lparr>e_Id := db_id db\<rparr>))"
  using history [of e db "db_id db" "snd (Add_his (ToHis e) db)" False] assms
  by (simp add: prod_eq_iff after_delete_def Add_his_def)

section \<open>Properties\<close>

text \<open>
  The function \<open>EventPersist\<close> is the sequential semantics of its statements: a goroutine that runs alone
  ends with exactly the outcomes that \<open>EventPersist\<close> has for some choice of failing statements.
\<close>

theorem alone_is_EventPersist:
  "race (db, [PStart e]) (db', [PDone r e']) \<longleftrightarrow> (\<exists>ft. EventPersist ft e db = (r, e', db'))"
  by (simp add: race_single finishes_iff_EventPersist)

text \<open>
  C13. Events of different alerts may be persisted at the same time: in every state of every interleaving,
  with any statements failing, the active table has at most one row for an alert.
\<close>

theorem different_alerts_do_not_disturb:
  assumes "race (db, map PStart es) (db', pcs)" and "db_ok db" and "distinct (map e_Hash es)"
  shows "db_ok db'"
proof -
  have start: "race_inv db (map PStart es)" using assms(2,3) by (auto simp: race_inv_def comp_def)
  have "race_inv db' pcs"
    using assms(1)
  proof (induction "(db', pcs)" arbitrary: db' pcs rule: rtranclp_induct)
    case base
    show ?case by (rule start)
  next
    case (step s)
    obtain db1 pcs1 where "s = (db1, pcs1)" by (cases s)
    with step show ?case by (auto intro: race_inv_step)
  qed
  then show ?thesis by (simp add: race_inv_def)
qed

text \<open>
  Two firing events of one alert persisted at the same time can both find the alert absent, and
  then leave two active rows for it, without any error.
\<close>

theorem same_alert_twice_leaves_two_rows:
  assumes "e_Hash e1 = e_Hash e2" and "\<not> e_IsRecovered e1" and "\<not> e_IsRecovered e2"
  shows "\<exists>db e1' e2'. race (empty_db, [PStart e1, PStart e2]) (db, [PDone None e1', PDone None e2']) \<and>
    map e_Hash (db_cur db) = [e_Hash e1, e_Hash e1]"
proof -
  let ?d1 = "snd (Add_his (ToHis e1) empty_db)" and ?a = "e1\<lparr>e_Id := db_id empty_db\<rparr>"
  let ?d2 = "Add_cur ?a ?d1"
  let ?d3 = "snd (Add_his (ToHis e2) ?d2)" and ?b = "e2\<lparr>e_Id := db_id ?d2\<rparr>"
  have pos: "db_id empty_db > 0" "db_id ?d2 > 0" by (simp_all add: Add_his_def empty_db_def Add_cur_def)
  have "race (empty_db, [PStart e1, PStart e2]) (empty_db, [PChecked False e1, PStart e2])"
    by (rule r_into_rtranclp [of race_step, OF first_steps [OF check_empty]])
  also have "race_step (empty_db, [PChecked False e1, PStart e2]) (empty_db, [PChecked False e1, PChecked False e2])"
    by (rule second_steps [OF check_empty])
  also have "race_step (empty_db, [PChecked False e1, PChecked False e2]) (?d1, [PInsert ?a, PChecked False e2])"
    by (rule first_steps [OF history_firing [OF assms(2) pos(1)]])
  also have "race_step (?d1, [PInsert ?a, PChecked False e2]) (?d2, [PDone None ?a, PChecked False e2])"
    by (rule first_steps [OF insert])
  also have "race_step (?d2, [PDone None ?a, PChecked False e2]) (?d3, [PDone None ?a, PInsert ?b])"
    by (rule second_steps [OF history_firing [OF assms(3) pos(2)]])
  also have "race_step (?d3, [PDone None ?a, PInsert ?b]) (Add_cur ?b ?d3, [PDone None ?a, PDone None ?b])"
    by (rule second_steps [OF insert])
  finally have "race (empty_db, [PStart e1, PStart e2]) (Add_cur ?b ?d3, [PDone None ?a, PDone None ?b])" .
  moreover have "map e_Hash (db_cur (Add_cur ?b ?d3)) = [e_Hash e1, e_Hash e1]"
    using assms(1) by (simp add: Add_cur_def Add_his_def empty_db_def)
  ultimately show ?thesis by (intro exI conjI)
qed

text \<open>Two alerts, and one alert twice.\<close>

theorem different_alerts_witness:
  "let a = sample_event\<lparr>e_Id := db_id empty_db\<rparr>; d1 = snd (Add_his (ToHis sample_event) empty_db);
       other = PStart (sample_event\<lparr>e_Hash := ''h2''\<rparr>)
   in race (empty_db, [PStart sample_event, other]) (Add_cur a d1, [PDone None a, other]) \<and> db_ok (Add_cur a d1)"
proof -
  let ?a = "sample_event\<lparr>e_Id := db_id empty_db\<rparr>" and ?d1 = "snd (Add_his (ToHis sample_event) empty_db)"
  let ?o = "PStart (sample_event\<lparr>e_Hash := ''h2''\<rparr>)"
  have firing: "\<not> e_IsRecovered sample_event" "db_id empty_db > 0" by (simp_all add: empty_db_def)
  have "race (empty_db, [PStart sample_event, ?o]) (empty_db, [PChecked False sample_event, ?o])"
    by (rule r_into_rtranclp [of race_step, OF first_steps [OF check_empty]])
  also have "race_step (empty_db, [PChecked False sample_event, ?o]) (?d1, [PInsert ?a, ?o])"
    by (rule first_steps [OF history_firing [OF firing]])
  also have "race_step (?d1, [PInsert ?a, ?o]) (Add_cur ?a ?d1, [PDone None ?a, ?o])"
    by (rule first_steps [OF insert])
  finally have run: "race (empty_db, map PStart [sample_event, sample_event\<lparr>e_Hash := ''h2''\<rparr>]) (Add_cur ?a ?d1, [PDone None ?a, ?o])"
    by simp
  from different_alerts_do_not_disturb [OF this empty_db_ok] run show ?thesis by (simp add: Let_def)
qed

theorem two_rows_witness:
  "\<exists>db e1' e2'. race (empty_db, [PStart sample_event, PStart (sample_event\<lparr>e_TriggerTime := 1060\<rparr>)]) (db, [PDone None e1', PDone None e2']) \<and>
     map e_Hash (db_cur db) = [''h1'', ''h1'']"
  using same_alert_twice_leaves_two_rows [of sample_event "sample_event\<lparr>e_TriggerTime := 1060\<rparr>"] by simp

end
