(* ===== verification/Naming.thy ===== *)
theory Naming
  imports Memsto "HOL-Library.Monad_Syntax"
begin

text \<open>
  Which engine instance evaluates which rule: the hash rings of \<^verbatim>\<open>alert/naming/hashring.go\<close>, the
  heartbeat that rebuilds them (\<^verbatim>\<open>alert/naming/heartbeat.go\<close>), the leader (\<^verbatim>\<open>alert/naming/leader.go\<close>) and the
  table of instances (\<^verbatim>\<open>models/alerting_engine.go\<close>), which the instances of a cluster share.

  The ring itself is the package \<^verbatim>\<open>consistent\<close>: a ring is the list of nodes added to it, in order, and the
  parameter \<open>cget\<close> is its \<open>Get\<close>, where \<open>None\<close> is the error of an empty circle. The theorems use that \<open>Get\<close> answers with
  a node, the same in whatever order the nodes of the cluster were added (\<open>ring_lookup\<close>).
\<close>

section \<open>Hash rings\<close>

type_synonym hash_rings = "(string, string list) gomap"

definition HostDatasource :: int where
  "HostDatasource = 99999999"

definition NewConsistentHashRing :: "string list \<Rightarrow> string list" where
  "NewConsistentHashRing nodes = nodes"

definition Ring_Set :: "string \<Rightarrow> string list \<Rightarrow> hash_rings \<Rightarrow> hash_rings" where
  "Ring_Set datasourceId r m = mput datasourceId r m"

definition Ring_Del :: "string \<Rightarrow> hash_rings \<Rightarrow> hash_rings" where
  "Ring_Del datasourceId m = mdel datasourceId m"

definition Ring_Clear :: "string \<Rightarrow> hash_rings \<Rightarrow> hash_rings" where
  "Ring_Clear engineName m = filter (\<lambda>(k, r). k = engineName) m"

definition RebuildConsistentHashRing :: "string \<Rightarrow> string list \<Rightarrow> hash_rings \<Rightarrow> hash_rings" where
  "RebuildConsistentHashRing datasourceId nodes m = Ring_Set datasourceId nodes m"

text \<open>A ring that is missing is created empty.\<close>

definition GetNode ::
  "(string list \<Rightarrow> string \<Rightarrow> string option) \<Rightarrow> string \<Rightarrow> string \<Rightarrow> hash_rings \<Rightarrow> string option \<times> hash_rings"
where
  "GetNode cget datasourceId pk m =
     (let m1 = (if mhas m datasourceId then m else mput datasourceId (NewConsistentHashRing []) m)
      in (cget (the (mget m1 datasourceId)) pk, m1))"

definition IsHit ::
  "(string list \<Rightarrow> string \<Rightarrow> string option) \<Rightarrow> string \<Rightarrow> string \<Rightarrow> string \<Rightarrow> hash_rings \<Rightarrow> bool \<times> hash_rings"
where
  "IsHit cget datasourceId pk currentNode m =
     (case GetNode cget datasourceId pk m of
        (None, m1) \<Rightarrow> (False, m1)
      | (Some node, m1) \<Rightarrow> (node = currentNode, m1))"

definition Members :: "string \<Rightarrow> hash_rings \<Rightarrow> string list" where
  "Members datasourceId m = (case mget m datasourceId of None \<Rightarrow> [] | Some r \<Rightarrow> sort (remdups r))"

section \<open>The table of instances\<close>

record alerting_engine =
  ae_Instance :: string
  ae_EngineCluster :: string
  ae_DatasourceId :: int
  ae_Clock :: int

type_synonym engines = "alerting_engine list"

definition same_engine :: "string \<Rightarrow> string \<Rightarrow> int \<Rightarrow> alerting_engine \<Rightarrow> bool" where
  "same_engine inst cluster ds r \<longleftrightarrow> ae_Instance r = inst \<and> ae_EngineCluster r = cluster \<and> ae_DatasourceId r = ds"

definition AlertingEngineHeartbeatWithCluster :: "int \<Rightarrow> string \<Rightarrow> string \<Rightarrow> int \<Rightarrow> engines \<Rightarrow> engines" where
  "AlertingEngineHeartbeatWithCluster now inst cluster ds t =
     (if \<not> list_ex (same_engine inst cluster ds) t
      then t @ [\<lparr>ae_Instance = inst, ae_EngineCluster = cluster, ae_DatasourceId = ds, ae_Clock = now\<rparr>]
      else map (\<lambda>r. if same_engine inst cluster ds r then r\<lparr>ae_Clock := now\<rparr> else r) t)"

definition AlertingEngineGetsInstances :: "(alerting_engine \<Rightarrow> bool) \<Rightarrow> engines \<Rightarrow> string list" where
  "AlertingEngineGetsInstances P t = sort (map ae_Instance (filter P t))"

definition DeleteInactiveInstances :: "int \<Rightarrow> engines \<Rightarrow> engines" where
  "DeleteInactiveInstances now t = filter (\<lambda>r. \<not> ae_Clock r < now - 600) t"

section \<open>The heartbeat\<close>

text \<open>
  One instance: its configuration, and what it remembers. \<open>nc_remote\<close> is what the central site answers to
  an edge instance; the table is that of the central site.
\<close>

record naming_config =
  nc_Endpoint :: string
  nc_EngineName :: string
  nc_IsCenter :: bool
  nc_remote :: "int \<Rightarrow> unit + string list"
  nc_remote_name :: "unit + string list"

record naming =
  nm_rings :: hash_rings
  nm_localss :: "(int, string) gomap"
  nm_localHostServers :: "(string, string) gomap"

text \<open>The statements that fail in one heartbeat.\<close>

record hb_faults =
  hf_beat :: "int \<Rightarrow> bool"
  hf_active :: "int \<Rightarrow> bool"
  hf_host :: bool

definition ActiveServers :: "naming_config \<Rightarrow> hb_faults \<Rightarrow> int \<Rightarrow> engines \<Rightarrow> int \<Rightarrow> unit + string list" where
  "ActiveServers cfg ft now t ds =
     (if ds = -1 then Inl ()
      else if \<not> nc_IsCenter cfg then nc_remote cfg ds
      else if hf_active ft ds then Inl ()
      else Inr (AlertingEngineGetsInstances (\<lambda>r. ae_DatasourceId r = ds \<and> ae_Clock r > now - 30) t))"

definition ActiveServersByEngineName :: "naming_config \<Rightarrow> hb_faults \<Rightarrow> int \<Rightarrow> engines \<Rightarrow> unit + string list" where
  "ActiveServersByEngineName cfg ft now t =
     (if \<not> nc_IsCenter cfg then nc_remote_name cfg
      else if hf_host ft then Inl ()
      else Inr (AlertingEngineGetsInstances (\<lambda>r. ae_EngineCluster r = nc_EngineName cfg \<and> ae_Clock r > now - 30) t))"

definition beat :: "naming_config \<Rightarrow> hb_faults \<Rightarrow> int \<Rightarrow> int \<Rightarrow> engines \<Rightarrow> engines" where
  "beat cfg ft now ds t =
     (if hf_beat ft ds then t
      else AlertingEngineHeartbeatWithCluster now (nc_Endpoint cfg) (nc_EngineName cfg) ds t)"

definition beats :: "naming_config \<Rightarrow> hb_faults \<Rightarrow> int \<Rightarrow> int list \<Rightarrow> engines \<Rightarrow> engines" where
  "beats cfg ft now dsids t = (if dsids = [] then beat cfg ft now 0 t else fold (beat cfg ft now) dsids t)"

definition clear_local :: "naming_config \<Rightarrow> int list \<Rightarrow> naming \<Rightarrow> naming" where
  "clear_local cfg dsids n =
     (if dsids = [] then n\<lparr>nm_rings := Ring_Clear (nc_EngineName cfg) (nm_rings n), nm_localss := []\<rparr> else n)"

definition refresh_ring :: "naming_config \<Rightarrow> hb_faults \<Rightarrow> int \<Rightarrow> engines \<Rightarrow> int \<Rightarrow> naming \<Rightarrow> naming" where
  "refresh_ring cfg ft now t ds n =
     (case ActiveServers cfg ft now t ds of
        Inl _ \<Rightarrow> n
      | Inr lst \<Rightarrow>
          (let servers = sort lst; newss = Join servers '' '' in
           if mget (nm_localss n) ds = Some newss then n
           else n\<lparr>nm_rings := RebuildConsistentHashRing (Itoa ds) servers (nm_rings n), nm_localss := mput ds newss (nm_localss n)\<rparr>))"

definition drop_gone :: "int list \<Rightarrow> naming \<Rightarrow> naming" where
  "drop_gone dsids n =
     fold (\<lambda>ds n. if ds \<in> set dsids then n
                  else n\<lparr>nm_localss := mdel ds (nm_localss n), nm_rings := Ring_Del (Itoa ds) (nm_rings n)\<rparr>)
       (mkeys (nm_localss n)) n"

definition refresh_host :: "naming_config \<Rightarrow> hb_faults \<Rightarrow> int \<Rightarrow> engines \<Rightarrow> naming \<Rightarrow> naming" where
  "refresh_host cfg ft now t n =
     (case ActiveServersByEngineName cfg ft now t of
        Inl _ \<Rightarrow> n
      | Inr lst \<Rightarrow>
          (let servers = sort lst; newss = Join servers '' '' in
           if mget (nm_localHostServers n) (nc_EngineName cfg) = Some newss then n
           else n\<lparr>nm_rings := RebuildConsistentHashRing (nc_EngineName cfg) servers (nm_rings n),
                  nm_localHostServers := mput (nc_EngineName cfg) newss (nm_localHostServers n)\<rparr>))"

text \<open>The data sources of the engine come from the database; \<open>Inl\<close> is an error, on which nothing happens.\<close>

definition heartbeat ::
  "naming_config \<Rightarrow> hb_faults \<Rightarrow> int \<Rightarrow> unit + int list \<Rightarrow> engines \<times> naming \<Rightarrow> engines \<times> naming"
where
  "heartbeat cfg ft now ids s =
     (case s of (t, n) \<Rightarrow>
        case ids of
          Inl _ \<Rightarrow> (t, n)
        | Inr dsids \<Rightarrow>
            (let t1 = beats cfg ft now dsids t;
                 n1 = clear_local cfg dsids n;
                 n2 = fold (refresh_ring cfg ft now t1) dsids n1;
                 n3 = drop_gone dsids n2;
                 t2 = beat cfg ft now HostDatasource t1
             in (t2, refresh_host cfg ft now t2 n3)))"

definition Heartbeats :: naming where
  "Heartbeats = \<lparr>nm_rings = [], nm_localss = [], nm_localHostServers = []\<rparr>"

definition IamLeader :: "naming_config \<Rightarrow> hb_faults \<Rightarrow> int \<Rightarrow> engines \<Rightarrow> bool" where
  "IamLeader cfg ft now t =
     (if \<not> nc_IsCenter cfg then False
      else case ActiveServersByEngineName cfg ft now t of
             Inl _ \<Rightarrow> False
           | Inr lst \<Rightarrow> (case sort lst of [] \<Rightarrow> False | s # _ \<Rightarrow> nc_Endpoint cfg = s))"

section \<open>Lemmas on the table\<close>

definition engine_row :: "naming_config \<Rightarrow> int \<Rightarrow> int \<Rightarrow> alerting_engine" where
  "engine_row cfg now ds =
     \<lparr>ae_Instance = nc_Endpoint cfg, ae_EngineCluster = nc_EngineName cfg, ae_DatasourceId = ds, ae_Clock = now\<rparr>"

definition own_row :: "naming_config \<Rightarrow> int set \<Rightarrow> alerting_engine \<Rightarrow> bool" where
  "own_row cfg D r \<longleftrightarrow> ae_Instance r = nc_Endpoint cfg \<and> ae_EngineCluster r = nc_EngineName cfg \<and> ae_DatasourceId r \<in> D"

definition no_hb_faults :: hb_faults where
  "no_hb_faults = \<lparr>hf_beat = (\<lambda>_. False), hf_active = (\<lambda>_. False), hf_host = False\<rparr>"

lemma set_beat:
  "set (beat cfg no_hb_faults now ds t) = {r \<in> set t. \<not> own_row cfg {ds} r} \<union> {engine_row cfg now ds}"
  by (auto simp: beat_def no_hb_faults_def AlertingEngineHeartbeatWithCluster_def own_row_def same_engine_def engine_row_def
      list_ex_iff image_iff split: if_split_asm)

lemma set_fold_beat:
  "set (fold (beat cfg no_hb_faults now) dsids t) =
     {r \<in> set t. \<not> own_row cfg (set dsids) r} \<union> engine_row cfg now ` set dsids"
proof (induction dsids arbitrary: t)
  case Nil
  show ?case by (simp add: own_row_def)
next
  case (Cons ds dsids)
  show ?case
    unfolding fold_Cons comp_apply Cons.IH set_beat by (auto simp: own_row_def engine_row_def)
qed

text \<open>What a heartbeat writes: the rows of its data sources and the one for host rules, with the present time.\<close>

lemma set_heartbeat_table:
  assumes "dsids \<noteq> []"
  shows "set (fst (heartbeat cfg no_hb_faults now (Inr dsids) (t, n))) =
    {r \<in> set t. \<not> own_row cfg (insert HostDatasource (set dsids)) r} \<union> engine_row cfg now ` insert HostDatasource (set dsids)"
  using assms by (auto simp: heartbeat_def Let_def beats_def set_beat set_fold_beat own_row_def engine_row_def)

section \<open>Lemmas on the rings\<close>

text \<open>
  What an instance remembers of a ring is the text of its nodes. Names of instances are addresses,
  without blanks, so the text determines the nodes. The name of the engine is not a number.
\<close>

definition ring_known :: "hash_rings \<Rightarrow> string \<Rightarrow> string \<Rightarrow> bool" where
  "ring_known m k s \<longleftrightarrow> (\<exists>r. mget m k = Some r \<and> s = Join r '' '' \<and> list_all plain_word r)"

definition naming_ok :: "naming_config \<Rightarrow> naming \<Rightarrow> bool" where
  "naming_ok cfg n \<longleftrightarrow> (\<forall>ds s. mget (nm_localss n) ds = Some s \<longrightarrow> ring_known (nm_rings n) (Itoa ds) s) \<and>
     (\<forall>s. mget (nm_localHostServers n) (nc_EngineName cfg) = Some s \<longrightarrow> ring_known (nm_rings n) (nc_EngineName cfg) s)"

definition engine_named :: "naming_config \<Rightarrow> bool" where
  "engine_named cfg \<longleftrightarrow> (\<forall>i. nc_EngineName cfg \<noteq> Itoa i)"

definition table_ok :: "engines \<Rightarrow> bool" where
  "table_ok t \<longleftrightarrow> list_all (\<lambda>r. plain_word (ae_Instance r)) t"

lemma ring_known_text:
  "ring_known m k (Join ws '' '') \<Longrightarrow> list_all plain_word ws \<Longrightarrow> mget m k = Some ws"
  by (auto simp: ring_known_def) (metis Fields_words)

lemma naming_ok_start: "naming_ok cfg Heartbeats"
  by (simp add: naming_ok_def Heartbeats_def)

lemma GetNode_naming_ok:
  "naming_ok cfg n \<Longrightarrow> naming_ok cfg (n\<lparr>nm_rings := snd (GetNode cget k pk (nm_rings n))\<rparr>)"
  by (fastforce simp: naming_ok_def ring_known_def GetNode_def Let_def mhas_def)

definition servers_for :: "int \<Rightarrow> engines \<Rightarrow> int \<Rightarrow> string list" where
  "servers_for now t ds = sort (map ae_Instance (filter (\<lambda>r. ae_DatasourceId r = ds \<and> ae_Clock r > now - 30) t))"

definition servers_of_engine :: "naming_config \<Rightarrow> int \<Rightarrow> engines \<Rightarrow> string list" where
  "servers_of_engine cfg now t =
     sort (map ae_Instance (filter (\<lambda>r. ae_EngineCluster r = nc_EngineName cfg \<and> ae_Clock r > now - 30) t))"

lemma active_servers_simps:
  assumes "nc_IsCenter cfg"
  shows "ds \<noteq> -1 \<Longrightarrow> ActiveServers cfg no_hb_faults now t ds = Inr (servers_for now t ds)"
    and "ActiveServersByEngineName cfg no_hb_faults now t = Inr (servers_of_engine cfg now t)"
  using assms
  by (simp_all add: ActiveServers_def ActiveServersByEngineName_def no_hb_faults_def AlertingEngineGetsInstances_def
      servers_for_def servers_of_engine_def)

lemma table_ok_servers:
  "table_ok t \<Longrightarrow> list_all plain_word (servers_for now t ds)"
  "table_ok t \<Longrightarrow> list_all plain_word (servers_of_engine cfg now t)"
  by (auto simp: table_ok_def servers_for_def servers_of_engine_def list_all_iff)

text \<open>Refreshing one ring: afterwards it has the active servers, and every other ring is as before.\<close>

lemma refresh_ring_step:
  assumes "naming_ok cfg n" and "table_ok t" and "engine_named cfg" and "nc_IsCenter cfg" and "ds \<noteq> -1"
  shows "naming_ok cfg (refresh_ring cfg no_hb_faults now t ds n)"
    and "mget (nm_rings (refresh_ring cfg no_hb_faults now t ds n)) (Itoa ds) = Some (servers_for now t ds)"
    and "k \<noteq> Itoa ds \<Longrightarrow> mget (nm_rings (refresh_ring cfg no_hb_faults now t ds n)) k = mget (nm_rings n) k"
    and "mget (nm_localss (refresh_ring cfg no_hb_faults now t ds n)) ds \<noteq> None"
proof -
  let ?s = "servers_for now t ds"
  have sorted: "sort ?s = ?s" by (simp add: servers_for_def sorted_sort_id)
  have plain: "list_all plain_word ?s" by (rule table_ok_servers [OF assms(2)])
  have known: "mget (nm_localss n) ds = Some (Join ?s '' '') \<Longrightarrow> mget (nm_rings n) (Itoa ds) = Some ?s"
    using assms(1) ring_known_text [OF _ plain] by (auto simp: naming_ok_def)
  note defs = refresh_ring_def active_servers_simps(1) [OF assms(4,5)] sorted Let_def RebuildConsistentHashRing_def Ring_Set_def
  show "naming_ok cfg (refresh_ring cfg no_hb_faults now t ds n)"
    using assms(1,3) plain by (auto simp: defs naming_ok_def ring_known_def engine_named_def)
  show "mget (nm_rings (refresh_ring cfg no_hb_faults now t ds n)) (Itoa ds) = Some ?s"
    using known by (simp add: defs)
  show "k \<noteq> Itoa ds \<Longrightarrow> mget (nm_rings (refresh_ring cfg no_hb_faults now t ds n)) k = mget (nm_rings n) k"
    by (simp add: defs)
  show "mget (nm_localss (refresh_ring cfg no_hb_faults now t ds n)) ds \<noteq> None" by (simp add: defs)
qed

lemma refresh_rings:
  assumes "naming_ok cfg n" and "table_ok t" and "engine_named cfg" and "nc_IsCenter cfg" and "-1 \<notin> set dsids"
  shows "naming_ok cfg (fold (refresh_ring cfg no_hb_faults now t) dsids n) \<and>
    (\<forall>ds. mget (nm_rings (fold (refresh_ring cfg no_hb_faults now t) dsids n)) (Itoa ds) =
       (if ds \<in> set dsids then Some (servers_for now t ds) else mget (nm_rings n) (Itoa ds)))"
  using assms(1,5)
proof (induction dsids arbitrary: n)
  case Nil
  then show ?case by simp
next
  case (Cons ds dsids)
  have ds: "ds \<noteq> -1" using Cons.prems(2) by auto
  note st = refresh_ring_step [OF Cons.prems(1) assms(2-4) ds, where now = now]
  from Cons.IH [OF st(1)] Cons.prems(2) show ?case using st(2) st(3) by (auto split: if_split_asm)
qed

lemma drop_gone_keeps:
  assumes "naming_ok cfg n" and "engine_named cfg"
  shows "naming_ok cfg (drop_gone dsids n) \<and>
    (\<forall>ds \<in> set dsids. mget (nm_rings (drop_gone dsids n)) (Itoa ds) = mget (nm_rings n) (Itoa ds))"
proof -
  let ?f = "\<lambda>ds n. if ds \<in> set dsids then n
      else n\<lparr>nm_localss := mdel ds (nm_localss n), nm_rings := Ring_Del (Itoa ds) (nm_rings n)\<rparr>"
  have step: "naming_ok cfg (?f ds n) \<and> (\<forall>d \<in> set dsids. mget (nm_rings (?f ds n)) (Itoa d) = mget (nm_rings n) (Itoa d))"
    if "naming_ok cfg n" for ds n
    using that assms(2) by (auto simp: naming_ok_def ring_known_def Ring_Del_def engine_named_def)
  have "naming_ok cfg (fold ?f ks n) \<and> (\<forall>d \<in> set dsids. mget (nm_rings (fold ?f ks n)) (Itoa d) = mget (nm_rings n) (Itoa d))" for ks
    using assms(1)
  proof (induction ks arbitrary: n)
    case (Cons k ks)
    from Cons.IH [of "?f k n"] step [OF Cons.prems, of k] show ?case by simp
  qed simp
  from this [of "mkeys (nm_localss n)"] show ?thesis unfolding drop_gone_def .
qed

lemma refresh_host_step:
  assumes "naming_ok cfg n" and "table_ok t" and "engine_named cfg" and "nc_IsCenter cfg"
  shows "naming_ok cfg (refresh_host cfg no_hb_faults now t n)"
    and "mget (nm_rings (refresh_host cfg no_hb_faults now t n)) (nc_EngineName cfg) = Some (servers_of_engine cfg now t)"
    and "mget (nm_rings (refresh_host cfg no_hb_faults now t n)) (Itoa ds) = mget (nm_rings n) (Itoa ds)"
proof -
  let ?s = "servers_of_engine cfg now t"
  have sorted: "sort ?s = ?s" by (simp add: servers_of_engine_def sorted_sort_id)
  have plain: "list_all plain_word ?s" by (rule table_ok_servers [OF assms(2)])
  have known: "mget (nm_localHostServers n) (nc_EngineName cfg) = Some (Join ?s '' '') \<Longrightarrow>
      mget (nm_rings n) (nc_EngineName cfg) = Some ?s"
    using assms(1) ring_known_text [OF _ plain] by (auto simp: naming_ok_def)
  have named: "Itoa i \<noteq> nc_EngineName cfg" for i using assms(3) by (metis engine_named_def)
  note defs = refresh_host_def active_servers_simps(2) [OF assms(4)] sorted Let_def RebuildConsistentHashRing_def Ring_Set_def
  show "naming_ok cfg (refresh_host cfg no_hb_faults now t n)"
    using assms(1) plain by (auto simp: defs naming_ok_def ring_known_def named)
  show "mget (nm_rings (refresh_host cfg no_hb_faults now t n)) (nc_EngineName cfg) = Some ?s"
    using known by (simp add: defs)
  show "mget (nm_rings (refresh_host cfg no_hb_faults now t n)) (Itoa ds) = mget (nm_rings n) (Itoa ds)"
    by (simp add: defs named)
qed

lemma table_ok_beat: "table_ok t \<Longrightarrow> plain_word (nc_Endpoint cfg) \<Longrightarrow> table_ok (beat cfg no_hb_faults now ds t)"
  unfolding table_ok_def list_all_iff set_beat by (auto simp: engine_row_def)

lemma table_ok_beats: "table_ok t \<Longrightarrow> plain_word (nc_Endpoint cfg) \<Longrightarrow> table_ok (fold (beat cfg no_hb_faults now) dsids t)"
  unfolding table_ok_def list_all_iff set_fold_beat by (auto simp: engine_row_def)

text \<open>A heartbeat without faults: the rings it leaves are the servers active in the table it leaves.\<close>

lemma heartbeat_rings:
  assumes "naming_ok cfg n" and "table_ok t" and "engine_named cfg" and "nc_IsCenter cfg" and "plain_word (nc_Endpoint cfg)"
    and "-1 \<notin> set dsids" and "dsids \<noteq> []"
    and "heartbeat cfg no_hb_faults now (Inr dsids) (t, n) = (t', n')"
  shows "naming_ok cfg n' \<and> table_ok t' \<and>
    (\<forall>ds \<in> set dsids. \<exists>r. mget (nm_rings n') (Itoa ds) = Some r \<and> set r = set (servers_for now t' ds)) \<and>
    mget (nm_rings n') (nc_EngineName cfg) = Some (servers_of_engine cfg now t')"
proof -
  let ?t1 = "fold (beat cfg no_hb_faults now) dsids t"
  let ?n2 = "fold (refresh_ring cfg no_hb_faults now ?t1) dsids n"
  have t': "t' = beat cfg no_hb_faults now HostDatasource ?t1"
    and n': "n' = refresh_host cfg no_hb_faults now t' (drop_gone dsids ?n2)"
    using assms(7,8) by (auto simp: heartbeat_def Let_def beats_def clear_local_def)
  have ok1: "table_ok ?t1" and ok': "table_ok t'"
    using table_ok_beats [OF assms(2,5)] table_ok_beat [OF _ assms(5)] t' by auto
  note rings = refresh_rings [OF assms(1) ok1 assms(3,4,6), of now]
  note kept = drop_gone_keeps [OF conjunct1 [OF rings] assms(3), of dsids]
  note host = refresh_host_step [OF conjunct1 [OF kept] ok' assms(3,4), of now]
  have "set (servers_for now ?t1 ds) = set (servers_for now t' ds)" if "ds \<in> set dsids" for ds
    unfolding servers_for_def set_sort set_map set_filter t' set_beat
    using that by (auto simp: set_fold_beat own_row_def engine_row_def image_iff)
  then have "\<forall>ds \<in> set dsids. \<exists>r. mget (nm_rings n') (Itoa ds) = Some r \<and> set r = set (servers_for now t' ds)"
    unfolding n' host(3) using kept rings by auto
  with host(1,2) ok' show ?thesis unfolding n' by blast
qed

section \<open>A cluster of instances\<close>

text \<open>
  The instances of one engine share the table and each keep their own rings; a step is the heartbeat
  of one of them at a time. \<open>base\<close> is their common configuration and \<open>D\<close> the data sources of the engine.
\<close>

type_synonym cluster = "engines \<times> (string \<Rightarrow> naming)"

definition cluster_step :: "naming_config \<Rightarrow> int list \<Rightarrow> string \<times> int \<Rightarrow> cluster \<Rightarrow> cluster" where
  "cluster_step base D x w =
     (case x of (ep, now) \<Rightarrow>
        case heartbeat (base\<lparr>nc_Endpoint := ep\<rparr>) no_hb_faults now (Inr D) (fst w, snd w ep) of
          (t', n') \<Rightarrow> (t', (snd w)(ep := n')))"

text \<open>What is assumed of a cluster, and what a step keeps: rows of other instances or engines are out of date.\<close>

definition cluster_conf :: "naming_config \<Rightarrow> int list \<Rightarrow> string list \<Rightarrow> bool" where
  "cluster_conf base D insts \<longleftrightarrow> insts \<noteq> [] \<and> list_all plain_word insts \<and> nc_IsCenter base \<and> engine_named base \<and>
     -1 \<notin> set D \<and> D \<noteq> []"

definition cluster_ok :: "naming_config \<Rightarrow> string list \<Rightarrow> int \<Rightarrow> cluster \<Rightarrow> bool" where
  "cluster_ok base insts T w \<longleftrightarrow> table_ok (fst w) \<and> list_all (\<lambda>ep. naming_ok base (snd w ep)) insts \<and>
     list_all (\<lambda>r. ae_Instance r \<in> set insts \<and> ae_EngineCluster r = nc_EngineName base \<or> ae_Clock r \<le> T - 30) (fst w)"

definition present :: "naming_config \<Rightarrow> int list \<Rightarrow> int \<Rightarrow> string set \<Rightarrow> engines \<Rightarrow> bool" where
  "present base D T S t \<longleftrightarrow> (\<forall>ep \<in> S. \<forall>ds \<in> insert HostDatasource (set D).
     \<exists>r \<in> set t. own_row (base\<lparr>nc_Endpoint := ep\<rparr>) {ds} r \<and> ae_Clock r \<ge> T)"

definition settled :: "naming_config \<Rightarrow> int list \<Rightarrow> string list \<Rightarrow> string set \<Rightarrow> (string \<Rightarrow> naming) \<Rightarrow> bool" where
  "settled base D insts S ns \<longleftrightarrow> (\<forall>ep \<in> S. \<forall>k \<in> insert (nc_EngineName base) (Itoa ` set D).
     \<exists>r. mget (nm_rings (ns ep)) k = Some r \<and> set r = set insts)"

lemma naming_ok_endpoint [simp]: "naming_ok (base\<lparr>nc_Endpoint := ep\<rparr>) n = naming_ok base n"
  by (simp add: naming_ok_def)

lemma engine_named_endpoint [simp]: "engine_named (base\<lparr>nc_Endpoint := ep\<rparr>) = engine_named base"
  by (simp add: engine_named_def)

lemma all_present_servers:
  assumes "cluster_ok base insts T (t, ns)" and "present base D T (set insts) t" and "T \<le> now" and "now < T + 30"
  shows "ds \<in> set D \<Longrightarrow> set (servers_for now t ds) = set insts"
    and "set (servers_of_engine (base\<lparr>nc_Endpoint := ep\<rparr>) now t) = set insts"
proof -
  have only: "ae_Instance r \<in> set insts" if "r \<in> set t" "ae_Clock r > now - 30" for r
    using assms(1,3) that by (auto simp: cluster_ok_def list_all_iff)
  have all: "\<exists>r \<in> set t. ae_Instance r = i \<and> ae_EngineCluster r = nc_EngineName base \<and> ae_DatasourceId r = ds \<and> ae_Clock r > now - 30"
    if "i \<in> set insts" "ds \<in> insert HostDatasource (set D)" for i ds
    using assms(2,4) that by (fastforce simp: present_def own_row_def)
  show "set (servers_for now t ds) = set insts" if "ds \<in> set D"
    using only all [of _ ds] that by (fastforce simp: servers_for_def)
  show "set (servers_of_engine (base\<lparr>nc_Endpoint := ep\<rparr>) now t) = set insts"
    using only all [of _ HostDatasource] by (fastforce simp: servers_of_engine_def)
qed

lemma cluster_step_ok:
  assumes "cluster_conf base D insts" and "cluster_ok base insts T w" and "ep \<in> set insts" and "T \<le> now" and "now < T + 30"
    and "cluster_step base D (ep, now) w = (t', ns')"
  shows "cluster_ok base insts T (t', ns')"
    and "present base D T S (fst w) \<Longrightarrow> present base D T (insert ep S) t'"
    and "present base D T (set insts) (fst w) \<Longrightarrow> settled base D insts S (snd w) \<Longrightarrow> settled base D insts (insert ep S) ns'"
proof -
  obtain t ns where w: "w = (t, ns)" by (cases w)
  let ?c = "base\<lparr>nc_Endpoint := ep\<rparr>"
  obtain n' where hb: "heartbeat ?c no_hb_faults now (Inr D) (t, ns ep) = (t', n')" and ns': "ns' = ns(ep := n')"
    using assms(6) by (auto simp: cluster_step_def w split: prod.split_asm)
  have D: "D \<noteq> []" "-1 \<notin> set D" and ep: "plain_word ep" and conf: "nc_IsCenter base" "engine_named base"
    using assms(1,3) by (auto simp: cluster_conf_def list_all_iff)
  have "naming_ok ?c n' \<and> table_ok t' \<and>
    (\<forall>ds \<in> set D. \<exists>r. mget (nm_rings n') (Itoa ds) = Some r \<and> set r = set (servers_for now t' ds)) \<and>
    mget (nm_rings n') (nc_EngineName ?c) = Some (servers_of_engine ?c now t')"
    by (rule heartbeat_rings [OF _ _ _ _ _ D(2,1) hb])
      (use assms(2,3) conf ep in \<open>simp_all add: cluster_ok_def w list_all_iff\<close>)
  then have rings: "naming_ok base n'" "table_ok t'"
    "\<forall>ds \<in> set D. \<exists>r. mget (nm_rings n') (Itoa ds) = Some r \<and> set r = set (servers_for now t' ds)"
    "mget (nm_rings n') (nc_EngineName base) = Some (servers_of_engine ?c now t')" by simp_all
  have tab: "set t' = {r \<in> set t. \<not> own_row ?c (insert HostDatasource (set D)) r} \<union> engine_row ?c now ` insert HostDatasource (set D)"
    using set_heartbeat_table [OF D(1), of ?c now t "ns ep"] hb by simp
  show ok: "cluster_ok base insts T (t', ns')"
    using assms(2,3) rings(1,2) unfolding cluster_ok_def list_all_iff w fst_conv snd_conv tab ns' by (auto simp: engine_row_def)
  have pres: "present base D T (insert ep S) t'" if P: "present base D T S (fst w)" for S
    unfolding present_def
  proof (intro ballI)
    fix e ds assume e: "e \<in> insert ep S" and ds: "ds \<in> insert HostDatasource (set D)"
    show "\<exists>r \<in> set t'. own_row (base\<lparr>nc_Endpoint := e\<rparr>) {ds} r \<and> T \<le> ae_Clock r"
    proof (cases "e = ep")
      case True
      then show ?thesis
        using ds assms(4) unfolding tab by (intro bexI [of _ "engine_row ?c now ds"]) (auto simp: own_row_def engine_row_def)
    next
      case False
      then obtain r where "r \<in> set t" "own_row (base\<lparr>nc_Endpoint := e\<rparr>) {ds} r" "T \<le> ae_Clock r"
        using P e ds unfolding present_def w by auto
      then show ?thesis using False unfolding tab by (intro bexI [of _ r]) (auto simp: own_row_def)
    qed
  qed
  then show "present base D T S (fst w) \<Longrightarrow> present base D T (insert ep S) t'" .
  show "settled base D insts (insert ep S) ns'" if "present base D T (set insts) (fst w)" and "settled base D insts S (snd w)"
  proof -
    have "present base D T (set insts) t'" using pres [OF that(1)] assms(3) by (simp add: insert_absorb)
    note servers = all_present_servers [OF ok this assms(4,5)]
    show ?thesis using that(2) rings(3,4) servers unfolding settled_def w snd_conv ns' by auto
  qed
qed

text \<open>A sequence of heartbeats in the interval; afterwards everyone who took part is in the table.\<close>

definition beats_in :: "int \<Rightarrow> string list \<Rightarrow> (string \<times> int) list \<Rightarrow> bool" where
  "beats_in T insts xs \<longleftrightarrow> list_all (\<lambda>(ep, now). ep \<in> set insts \<and> T \<le> now \<and> now < T + 30) xs"

lemma run_present:
  assumes "cluster_conf base D insts" and "cluster_ok base insts T w" and "beats_in T insts xs"
  shows "cluster_ok base insts T (fold (cluster_step base D) xs w) \<and>
    (present base D T S (fst w) \<longrightarrow> present base D T (S \<union> fst ` set xs) (fst (fold (cluster_step base D) xs w)))"
  using assms(2,3)
proof (induction xs arbitrary: w S)
  case Nil
  then show ?case by simp
next
  case (Cons x xs)
  obtain ep now where x: "x = (ep, now)" by (cases x)
  obtain t' ns' where st: "cluster_step base D (ep, now) w = (t', ns')" by (cases "cluster_step base D (ep, now) w")
  have ep: "ep \<in> set insts" "T \<le> now" "now < T + 30" and xs: "beats_in T insts xs"
    using Cons.prems(2) by (simp_all add: beats_in_def x)
  note step = cluster_step_ok [OF assms(1) Cons.prems(1) ep st]
  show ?case using Cons.IH [OF step(1) xs, of "insert ep S"] step(2) [of S] by (simp add: x st)
qed

lemma run_settled:
  assumes "cluster_conf base D insts" and "cluster_ok base insts T w" and "beats_in T insts xs"
    and "present base D T (set insts) (fst w)" and "settled base D insts S (snd w)"
  shows "settled base D insts (S \<union> fst ` set xs) (snd (fold (cluster_step base D) xs w))"
  using assms(2-5)
proof (induction xs arbitrary: w S)
  case Nil
  then show ?case by simp
next
  case (Cons x xs)
  obtain ep now where x: "x = (ep, now)" by (cases x)
  obtain t' ns' where st: "cluster_step base D (ep, now) w = (t', ns')" by (cases "cluster_step base D (ep, now) w")
  have ep: "ep \<in> set insts" "T \<le> now" "now < T + 30" and xs: "beats_in T insts xs"
    using Cons.prems(2) by (simp_all add: beats_in_def x)
  note step = cluster_step_ok [OF assms(1) Cons.prems(1) ep st]
  have "present base D T (set insts) t'" using step(2) [OF Cons.prems(3)] ep(1) by (simp add: insert_absorb)
  with Cons.IH [OF step(1) xs, of "insert ep S"] step(3) [OF Cons.prems(3,4)] show ?case by (simp add: x st)
qed

text \<open>
  What the package of the ring documents, for the nodes of one cluster: a lookup answers with a node, and
  does not depend on the order in which the nodes were added. (Two virtual nodes with the same
  checksum would make the order matter; the hypothesis excludes such names.)
\<close>

definition ring_lookup :: "(string list \<Rightarrow> string \<Rightarrow> string option) \<Rightarrow> string list \<Rightarrow> bool" where
  "ring_lookup cget insts \<longleftrightarrow> (\<forall>pk. \<exists>node \<in> set insts. \<forall>r. set r = set insts \<longrightarrow> cget r pk = Some node)"

lemma settled_one_hit:
  assumes "ring_lookup cget insts" and "settled base D insts (set insts) ns"
    and "k \<in> insert (nc_EngineName base) (Itoa ` set D)"
  shows "\<exists>!ep. ep \<in> set insts \<and> fst (IsHit cget k pk ep (nm_rings (ns ep)))"
proof -
  obtain node where node: "node \<in> set insts" "\<forall>r. set r = set insts \<longrightarrow> cget r pk = Some node"
    using assms(1) unfolding ring_lookup_def by blast
  have "fst (IsHit cget k pk ep (nm_rings (ns ep))) \<longleftrightarrow> ep = node" if ep: "ep \<in> set insts" for ep
  proof -
    obtain r where r: "mget (nm_rings (ns ep)) k = Some r" "set r = set insts"
      using assms(2,3) ep unfolding settled_def by blast
    then have "cget r pk = Some node" using node(2) by blast
    then show ?thesis using r(1) by (auto simp: IsHit_def GetNode_def mhas_def)
  qed
  with node(1) show ?thesis by auto
qed

text \<open>The first round brings everyone into the table, the second everyone into the rings of everyone.\<close>

lemma two_rounds_settle:
  assumes "cluster_conf base D insts" and "cluster_ok base insts T w"
    and "beats_in T insts round1" and "fst ` set round1 = set insts"
    and "beats_in T insts round2" and "fst ` set round2 = set insts"
  shows "settled base D insts (set insts) (snd (fold (cluster_step base D) (round1 @ round2) w))"
proof -
  let ?w = "fold (cluster_step base D) round1 w"
  have "present base D T {} (fst w)" by (simp add: present_def)
  then have ok: "cluster_ok base insts T ?w" and here: "present base D T (set insts) (fst ?w)"
    using run_present [OF assms(1-3), of "{}"] assms(4) by auto
  have "settled base D insts {} (snd ?w)" by (simp add: settled_def)
  from run_settled [OF assms(1) ok assms(5) here this] show ?thesis using assms(6) by simp
qed

section \<open>Properties\<close>

text \<open>
  C10. After every instance of a central cluster has sent two heartbeats within thirty seconds, none of which failed,
  every rule has exactly one instance: for each data source of the engine, and for host rules, exactly
  one live instance is hit by the number of the rule, whatever well-formed rings and table were there before,
  as long as the rows of instances that are gone are thirty seconds old.
\<close>

theorem every_rule_has_one_instance:
  assumes "ring_lookup cget insts" and "cluster_conf base D insts" and "cluster_ok base insts T w"
    and "beats_in T insts round1" and "fst ` set round1 = set insts"
    and "beats_in T insts round2" and "fst ` set round2 = set insts"
    and "k = nc_EngineName base \<or> (\<exists>ds. ds \<in> set D \<and> k = Itoa ds)"
  shows "\<exists>!ep. ep \<in> set insts \<and>
    fst (IsHit cget k (Itoa ruleId) ep (nm_rings (snd (fold (cluster_step base D) (round1 @ round2) w) ep)))"
  by (rule settled_one_hit [OF assms(1) two_rounds_settle [OF assms(2-7)]]) (use assms(8) in auto)

text \<open>Two fresh instances of an engine with one data source.\<close>

definition sample_ring :: "string list \<Rightarrow> string \<Rightarrow> string option" where
  "sample_ring r pk = (if r = [] then None else Some (Min (set r)))"

lemma sample_ring_lookup: "r \<noteq> [] \<Longrightarrow> ring_lookup sample_ring r"
proof -
  assume "r \<noteq> []"
  then have "Min (set r) \<in> set r" by (intro Min_in) auto
  then show ?thesis
    unfolding ring_lookup_def sample_ring_def by (intro allI bexI [of _ "Min (set r)"]) (auto simp flip: set_empty2)
qed

definition sample_naming :: naming_config where
  "sample_naming = \<lparr>nc_Endpoint = [], nc_EngineName = ''default'', nc_IsCenter = True, nc_remote = (\<lambda>_. Inl ()), nc_remote_name = Inl ()\<rparr>"

lemma default_not_number: "''default'' \<noteq> Itoa i"
proof
  assume "''default'' = Itoa i"
  then have "''default'' = utoa (nat i)" by (simp add: Itoa_def split: if_split_asm)
  then have "atou_acc 0 ''default'' = Some (nat i)" using atou_utoa [of "nat i"] by simp
  then show False by (simp add: is_digit_def)
qed

lemma sample_cluster:
  "cluster_conf sample_naming [4] [''a:1'', ''b:1'']"
  "cluster_ok sample_naming [''a:1'', ''b:1''] 100 ([], \<lambda>_. Heartbeats)"
  using default_not_number
  by (simp_all add: cluster_conf_def sample_naming_def engine_named_def plain_word_def is_space_def
      cluster_ok_def table_ok_def naming_ok_start)

theorem one_instance_witness:
  "\<exists>!ep. ep \<in> {''a:1'', ''b:1''} \<and>
     fst (IsHit sample_ring (Itoa 4) (Itoa 77) ep (nm_rings (snd (fold (cluster_step sample_naming [4])
       ([(''a:1'', 100), (''b:1'', 101)] @ [(''a:1'', 110), (''b:1'', 111)]) ([], \<lambda>_. Heartbeats)) ep)))"
proof -
  have k: "Itoa 4 = nc_EngineName sample_naming \<or> (\<exists>ds. ds \<in> set [4] \<and> Itoa 4 = Itoa ds)" by simp
  from every_rule_has_one_instance [OF sample_ring_lookup sample_cluster _ _ _ _ k,
      of "[(''a:1'', 100), (''b:1'', 101)]" "[(''a:1'', 110), (''b:1'', 111)]" 77]
  show ?thesis by (simp add: beats_in_def)
qed

end
