(* ===== verification/Datasource_Query.thy ===== *)
theory Datasource_Query
  imports Memsto
begin

text \<open>
  The data sources a rule runs on: \<open>GetDatasourceIDsByDatasourceQueries\<close> of \<^verbatim>\<open>models/alert_rule.go\<close> and the
  cache access of \<^verbatim>\<open>memsto/datasource_cache.go\<close>. The wildcard match on names (package \<^verbatim>\<open>match\<close>) is the
  parameter \<open>wild\<close>; a Go set is a map to unit.
\<close>

type_synonym id_set = "(int, unit) gomap"

text \<open>The numbers among the values; a fraction is cut off towards zero.\<close>

definition id_value :: "goval \<Rightarrow> int list" where
  "id_value v =
     (case v of
        VInt i \<Rightarrow> [i]
      | VFloat q \<Rightarrow> [if q < 0 then \<lceil>q\<rceil> else \<lfloor>q\<rfloor>]
      | _ \<Rightarrow> [])"

definition idValues :: "datasource_query \<Rightarrow> int list" where
  "idValues q = concat (map id_value (dq_Values q))"

definition name_matches :: "(string \<Rightarrow> string \<Rightarrow> bool) \<Rightarrow> datasource_query \<Rightarrow> string \<Rightarrow> bool" where
  "name_matches wild q dsName \<longleftrightarrow> list_ex (\<lambda>v. case v of VStr pat \<Rightarrow> wild dsName pat | _ \<Rightarrow> False) (dq_Values q)"

definition query_step ::
  "(string \<Rightarrow> string \<Rightarrow> bool) \<Rightarrow> (string, int) gomap \<Rightarrow> datasource_query \<Rightarrow> id_set \<Rightarrow> id_set"
where
  "query_step wild nameMap q curIDs =
     (if MatchType q = 0 then
        (if Op q = ''in'' then
           (if idValues q = [0] then fold (\<lambda>i. mput i ()) (mkeys curIDs) []
            else fold (\<lambda>i m. if mhas curIDs i then mput i () m else m) (idValues q) [])
         else if Op q = ''not in'' then fold mdel (idValues q) curIDs
         else [])
      else if MatchType q = 1 then
        (if Op q = ''in'' then
           fold (\<lambda>(dsName, dsID) m. if mhas curIDs dsID \<and> name_matches wild q dsName then mput dsID () m else m) nameMap []
         else if Op q = ''not in'' then
           fold (\<lambda>(dsName, dsID) m. if name_matches wild q dsName then mdel dsID m else m) nameMap curIDs
         else [])
      else if MatchType q = 2 then fold (\<lambda>i. mput i ()) (mkeys curIDs) []
      else [])"

fun query_steps ::
  "(string \<Rightarrow> string \<Rightarrow> bool) \<Rightarrow> (string, int) gomap \<Rightarrow> datasource_query list \<Rightarrow> id_set \<Rightarrow> id_set"
where
  "query_steps wild nameMap [] curIDs = curIDs"
| "query_steps wild nameMap (q # qs) curIDs =
     (let dsIDs = query_step wild nameMap q curIDs
      in if dsIDs = [] then dsIDs else query_steps wild nameMap qs dsIDs)"

definition GetDatasourceIDsByDatasourceQueries ::
  "(string \<Rightarrow> string \<Rightarrow> bool) \<Rightarrow> (int list \<Rightarrow> int list) \<Rightarrow> datasource_query list \<Rightarrow> (int, 'a) gomap \<Rightarrow> (string, int) gomap \<Rightarrow> int list"
where
  "GetDatasourceIDsByDatasourceQueries wild ord qs idMap nameMap =
     (if qs = [] then []
      else ord (mkeys (query_steps wild nameMap qs (fold (\<lambda>i. mput i ()) (mkeys idMap) []))))"

definition GetIDsByDsCateAndQueries ::
  "(string \<Rightarrow> string \<Rightarrow> bool) \<Rightarrow> (int list \<Rightarrow> int list) \<Rightarrow> ds_content stat_cache \<Rightarrow> string \<Rightarrow> datasource_query list \<Rightarrow> int list"
where
  "GetIDsByDsCateAndQueries wild ord c cate qs =
     GetDatasourceIDsByDatasourceQueries wild ord qs
       (case mget (dc_CateToIDs (sc_data c)) cate of None \<Rightarrow> [] | Some m \<Rightarrow> m)
       (case mget (dc_CateToNames (sc_data c)) cate of None \<Rightarrow> [] | Some m \<Rightarrow> m)"

section \<open>Lemmas\<close>

text \<open>The queries as filters: what one query asks of an identifier.\<close>

definition query_passes :: "(string \<Rightarrow> string \<Rightarrow> bool) \<Rightarrow> (string, int) gomap \<Rightarrow> datasource_query \<Rightarrow> int \<Rightarrow> bool" where
  "query_passes wild nameMap q i \<longleftrightarrow>
     (let named = (\<exists>n. (n, i) \<in> set nameMap \<and> name_matches wild q n) in
      if MatchType q = 0 then
        (if Op q = ''in'' then idValues q = [0] \<or> i \<in> set (idValues q)
         else if Op q = ''not in'' then i \<notin> set (idValues q) else False)
      else if MatchType q = 1 then
        (if Op q = ''in'' then named else if Op q = ''not in'' then \<not> named else False)
      else MatchType q = 2)"

lemma mhas_simps [simp]: "mhas (mput k v m) i \<longleftrightarrow> i = k \<or> mhas m i" "mhas (mdel k m) i \<longleftrightarrow> i \<noteq> k \<and> mhas m i" "\<not> mhas [] i"
  by (auto simp: mhas_def)

lemma mhas_fold_put: "mhas (fold (\<lambda>i. mput i ()) ks m) i \<longleftrightarrow> i \<in> set ks \<or> mhas m i"
  by (induction ks arbitrary: m) auto

lemma mhas_fold_pick: "mhas (fold (\<lambda>i m. if P i then mput i () m else m) ks m) i \<longleftrightarrow> (i \<in> set ks \<and> P i) \<or> mhas m i"
  by (induction ks arbitrary: m) auto

lemma mhas_fold_del: "mhas (fold mdel ks m) i \<longleftrightarrow> i \<notin> set ks \<and> mhas m i"
  by (induction ks arbitrary: m) auto

lemma mhas_fold_names:
  "mhas (fold (\<lambda>(n, d) m. if C d \<and> P n then mput d () m else m) nm m) i \<longleftrightarrow> (\<exists>n. (n, i) \<in> set nm \<and> C i \<and> P n) \<or> mhas m i"
  "mhas (fold (\<lambda>(n, d) m. if P n then mdel d m else m) nm m) i \<longleftrightarrow> \<not> (\<exists>n. (n, i) \<in> set nm \<and> P n) \<and> mhas m i"
proof -
  show "mhas (fold (\<lambda>(n, d) m. if C d \<and> P n then mput d () m else m) nm m) i \<longleftrightarrow> (\<exists>n. (n, i) \<in> set nm \<and> C i \<and> P n) \<or> mhas m i"
    by (induction nm arbitrary: m) (auto split: if_split_asm)
  show "mhas (fold (\<lambda>(n, d) m. if P n then mdel d m else m) nm m) i \<longleftrightarrow> \<not> (\<exists>n. (n, i) \<in> set nm \<and> P n) \<and> mhas m i"
    by (induction nm arbitrary: m) (auto split: if_split_asm)
qed

lemma mwf_folds:
  "mwf m \<Longrightarrow> mwf (fold (\<lambda>i. mput i ()) ks m)"
  "mwf m \<Longrightarrow> mwf (fold (\<lambda>i m. if P i then mput i () m else m) ks m)"
  "mwf m \<Longrightarrow> mwf (fold mdel ks m)"
  "mwf m \<Longrightarrow> mwf (fold (\<lambda>(n, d) m. if C d \<and> Q n then mput d () m else m) nm m)"
  "mwf m \<Longrightarrow> mwf (fold (\<lambda>(n, d) m. if Q n then mdel d m else m) nm m)"
proof -
  show "mwf m \<Longrightarrow> mwf (fold (\<lambda>i. mput i ()) ks m)" by (induction ks arbitrary: m) auto
  show "mwf m \<Longrightarrow> mwf (fold (\<lambda>i m. if P i then mput i () m else m) ks m)" by (induction ks arbitrary: m) auto
  show "mwf m \<Longrightarrow> mwf (fold mdel ks m)" by (induction ks arbitrary: m) auto
  show "mwf m \<Longrightarrow> mwf (fold (\<lambda>(n, d) m. if C d \<and> Q n then mput d () m else m) nm m)" by (induction nm arbitrary: m) auto
  show "mwf m \<Longrightarrow> mwf (fold (\<lambda>(n, d) m. if Q n then mdel d m else m) nm m)" by (induction nm arbitrary: m) auto
qed

lemma query_step_filters:
  "mhas (query_step wild nameMap q cur) i \<longleftrightarrow> mhas cur i \<and> query_passes wild nameMap q i"
  "mwf cur \<Longrightarrow> mwf (query_step wild nameMap q cur)"
  unfolding query_step_def
  by (auto simp: query_passes_def Let_def mhas_fold_put mhas_fold_pick mhas_fold_del mhas_fold_names in_mkeys_iff mwf_folds)

lemma query_steps_filter:
  "mhas (query_steps wild nameMap qs cur) i \<longleftrightarrow> mhas cur i \<and> (\<forall>q \<in> set qs. query_passes wild nameMap q i)"
proof (induction qs arbitrary: cur)
  case (Cons q qs)
  show ?case
  proof (cases "query_step wild nameMap q cur = []")
    case True
    then have "\<not> mhas (query_step wild nameMap q cur) i" by simp
    then show ?thesis using True query_step_filters(1) [of wild nameMap q cur i] by auto
  next
    case False
    then show ?thesis using Cons.IH query_step_filters(1) [of wild nameMap q cur i] by (auto simp: Let_def)
  qed
qed simp

lemma query_steps_wf: "mwf cur \<Longrightarrow> mwf (query_steps wild nameMap qs cur)"
  by (induction qs arbitrary: cur) (auto simp: Let_def query_step_filters(2))

section \<open>Properties\<close>

text \<open>
  C15. The queries of a rule select, without repetition, exactly the data sources of the category that pass every
  query, each taken as a filter on its own; a rule without queries selects none.
\<close>

theorem datasource_queries_are_filters:
  assumes "range_order ord"
  shows "distinct (GetDatasourceIDsByDatasourceQueries wild ord qs idMap nameMap) \<and>
    (i \<in> set (GetDatasourceIDsByDatasourceQueries wild ord qs idMap nameMap) \<longleftrightarrow>
      qs \<noteq> [] \<and> mhas idMap i \<and> list_all (\<lambda>q. query_passes wild nameMap q i) qs)"
proof -
  let ?r = "query_steps wild nameMap qs (fold (\<lambda>i. mput i ()) (mkeys idMap) [])"
  have "distinct (mkeys ?r)"
    using query_steps_wf [OF mwf_folds(1) [OF mwf_Nil], of wild nameMap qs "mkeys idMap"] by (simp add: mwf_def mkeys_def)
  then show ?thesis
    using assms by (auto simp: GetDatasourceIDsByDatasourceQueries_def distinct_range_order set_range_order in_mkeys_iff
        query_steps_filter mhas_fold_put list_all_iff)
qed

theorem datasource_queries_witness:
  "set (GetDatasourceIDsByDatasourceQueries (\<lambda>n p. n = p) rev
      [\<lparr>MatchType = 2, Op = ''in'', dq_Values = []\<rparr>, \<lparr>MatchType = 1, Op = ''not in'', dq_Values = [VStr ''b'']\<rparr>]
      [(1, ()), (2, ()), (3, ())] [(''a'', 1), (''b'', 2), (''c'', 3)]) = {1, 3}"
proof (rule set_eqI, goal_cases)
  case (1 i)
  show ?case
    unfolding datasource_queries_are_filters [OF range_order_rev, THEN conjunct2]
    by (simp add: query_passes_def name_matches_def mhas_def Let_def)
qed

end
