(* ===== verification/Scheduler.thy ===== *)
theory Scheduler
  imports Event_Process Naming Datasource_Query
begin

text \<open>
  Which workers an instance runs: the scheduler of alert rules (\<open>syncAlertRules\<close> of \<^verbatim>\<open>alert/eval/alert_rule.go\<close>, with
  \<open>NewAlertRuleWorker\<close> of \<^verbatim>\<open>alert/eval/eval.go\<close>) and that of recording rules (\<^verbatim>\<open>alert/record/scheduler.go\<close>,
  \<^verbatim>\<open>alert/record/prom_rule.go\<close>). Both compute the workers the instance wants from the caches and the hash rings, start
  those that are missing and stop those no longer wanted; this common part is \<open>reconcile\<close>.

  The cron package is the parameter \<open>sd_cron\<close>: the schedule of a pattern, as the function that gives the next time after
  a time, \<open>None\<close> where the pattern does not parse; \<open>sd_now\<close> is the time of the synchronisation. A worker with such a pattern has no schedule, and asking for its interval panics.
\<close>

section \<open>Starting and stopping\<close>

definition start_missing ::
  "('w \<Rightarrow> 'w) \<Rightarrow> (string list \<Rightarrow> string list) \<Rightarrow> (string, 'w) gomap \<Rightarrow> (string, 'w) gomap \<Rightarrow> (string, 'w) gomap \<times> string list"
where
  "start_missing prep ord wanted cur =
     fold (\<lambda>h (cur, started). if mhas cur h then (cur, started) else (mput h (prep (the (mget wanted h))) cur, started @ [h]))
       (ord (mkeys wanted)) (cur, [])"

definition stop_gone ::
  "(string list \<Rightarrow> string list) \<Rightarrow> (string, 'w) gomap \<Rightarrow> (string, 'w) gomap \<Rightarrow> (string, 'w) gomap \<times> string list"
where
  "stop_gone ord wanted cur =
     fold (\<lambda>h (cur, stopped). if mhas wanted h then (cur, stopped) else (mdel h cur, stopped @ [h])) (ord (mkeys cur)) (cur, [])"

definition reconcile ::
  "('w \<Rightarrow> 'w) \<Rightarrow> (string list \<Rightarrow> string list) \<Rightarrow> (string, 'w) gomap \<Rightarrow> (string, 'w) gomap
     \<Rightarrow> (string, 'w) gomap \<times> string list \<times> string list"
where
  "reconcile prep ord wanted cur =
     (let (cur1, started) = start_missing prep ord wanted cur;
          (cur2, stopped) = stop_gone ord wanted cur1
      in (cur2, started, stopped))"

section \<open>Workers of alert rules\<close>

record sched_ctx =
  sd_ac :: alert_ctx
  sd_Endpoint :: string
  sd_EngineName :: string
  sd_cget :: "string list \<Rightarrow> string \<Rightarrow> string option"
  sd_wild :: "string \<Rightarrow> string \<Rightarrow> bool"
  sd_cron :: "string \<Rightarrow> (int \<Rightarrow> int) option" \<comment> \<open>the schedule of a pattern: the next time after a time\<close>
  sd_now :: int
  sd_ord :: "string list \<Rightarrow> string list"
  sd_ordi :: "int list \<Rightarrow> int list"
  sd_curEvents :: "int \<Rightarrow> int \<Rightarrow> unit + event list" \<comment> \<open>the active events of a rule and a data source\<close>

record alert_rule_worker =
  aw_Rule :: alert_rule
  aw_DatasourceId :: int
  aw_Processor :: event_processor

definition getPromEvalInterval :: "int \<Rightarrow> (int \<Rightarrow> int) \<Rightarrow> int" where
  "getPromEvalInterval now next = (let next1 = next now; next2 = next next1 in next2 - next1)"

text \<open>
  The default pattern is written into the rule, which the processor of the worker shares.
\<close>

definition NewAlertRuleWorker :: "sched_ctx \<Rightarrow> alert_rule \<Rightarrow> int \<Rightarrow> event_processor \<Rightarrow> alert_rule_worker option" where
  "NewAlertRuleWorker sd rule dsId p =
     (let interval = (if r_PromEvalInterval rule \<le> 0 then 10 else r_PromEvalInterval rule);
          rule1 = (if r_CronPattern rule = [] then rule\<lparr>r_CronPattern := ''@every '' @ Itoa interval @ ''s''\<rparr> else rule)
      in case sd_cron sd (r_CronPattern rule1) of
           None \<Rightarrow> None
         | Some next \<Rightarrow>
             Some \<lparr>aw_Rule = rule1, aw_DatasourceId = dsId,
                   aw_Processor = p\<lparr>p_rule := rule1, p_PromEvalInterval := getPromEvalInterval (sd_now sd) next\<rparr>\<rparr>)"

definition Worker_Key :: "alert_rule_worker \<Rightarrow> string" where
  "Worker_Key w = RuleKey (aw_DatasourceId w) (r_Id (aw_Rule w))"

definition Worker_text :: "alert_rule_worker \<Rightarrow> string" where
  "Worker_text w =
     Itoa (r_Id (aw_Rule w)) @ ''_'' @ r_CronPattern (aw_Rule w) @ ''_'' @ r_RuleConfig (aw_Rule w) @ ''_'' @ Itoa (aw_DatasourceId w)"

definition Worker_Hash :: "env \<Rightarrow> alert_rule_worker \<Rightarrow> string" where
  "Worker_Hash x w = x_md5 x (Worker_text w)"

definition Prepare :: "sched_ctx \<Rightarrow> caches \<Rightarrow> alert_rule_worker \<Rightarrow> alert_rule_worker" where
  "Prepare sd cs w =
     w\<lparr>aw_Processor := RecoverAlertCurEventFromDb (sd_ac sd) cs (sd_curEvents sd (r_Id (aw_Rule w)) (aw_DatasourceId w)) (aw_Processor w)\<rparr>"

definition usable_datasource :: "caches \<Rightarrow> string \<Rightarrow> int \<Rightarrow> bool" where
  "usable_datasource cs ruleType dsId \<longleftrightarrow>
     (case DatasourceCache_GetById (cs_ds cs) dsId of
        None \<Rightarrow> False
      | Some ds \<Rightarrow> ds_PluginType ds = ruleType \<and> ds_Status ds = ''enabled'')"

text \<open>The loop over the data sources of a metric or log rule; the rings change where one is missing.\<close>

fun rule_workers ::
  "sched_ctx \<Rightarrow> caches \<Rightarrow> alert_rule \<Rightarrow> int list \<Rightarrow> hash_rings \<Rightarrow> (hash_rings \<times> alert_rule_worker list) option"
where
  "rule_workers sd cs rule [] rings = Some (rings, [])"
| "rule_workers sd cs rule (dsId # dsIds) rings =
     (case IsHit (sd_cget sd) (Itoa dsId) (Itoa (r_Id rule)) (sd_Endpoint sd) rings of
        (hit, rings1) \<Rightarrow>
          if \<not> hit then rule_workers sd cs rule dsIds rings1
          else if \<not> usable_datasource cs (GetRuleType rule) dsId then rule_workers sd cs rule dsIds rings1
          else do {
            w \<leftarrow> NewAlertRuleWorker sd rule dsId (NewProcessor (sd_EngineName sd) rule dsId cs 0);
            (rings2, ws) \<leftarrow> rule_workers sd cs rule dsIds rings1;
            Some (rings2, w # ws)
          })"

definition host_worker ::
  "sched_ctx \<Rightarrow> caches \<Rightarrow> alert_rule \<Rightarrow> hash_rings \<Rightarrow> (hash_rings \<times> alert_rule_worker list) option"
where
  "host_worker sd cs rule rings =
     (case IsHit (sd_cget sd) (sd_EngineName sd) (Itoa (r_Id rule)) (sd_Endpoint sd) rings of
        (hit, rings1) \<Rightarrow>
          if \<not> hit then Some (rings1, [])
          else do {
            w \<leftarrow> NewAlertRuleWorker sd rule 0 (NewProcessor (sd_EngineName sd) rule 0 cs 0);
            Some (rings1, [w])
          })"

definition external_processors :: "sched_ctx \<Rightarrow> caches \<Rightarrow> alert_rule \<Rightarrow> event_processor list" where
  "external_processors sd cs rule =
     map (\<lambda>dsId. NewProcessor (sd_EngineName sd) rule dsId cs 0)
       (filter (\<lambda>dsId. case DatasourceCache_GetById (cs_ds cs) dsId of None \<Rightarrow> False | Some ds \<Rightarrow> ds_Status ds = ''enabled'')
         (GetIDsByDsCateAndQueries (sd_wild sd) (sd_ordi sd) (cs_ds cs) (r_Cate rule) (r_DatasourceQueries rule)))"

fun wanted_workers ::
  "sched_ctx \<Rightarrow> caches \<Rightarrow> int list \<Rightarrow> hash_rings \<Rightarrow> (hash_rings \<times> alert_rule_worker list \<times> event_processor list) option"
where
  "wanted_workers sd cs [] rings = Some (rings, [], [])"
| "wanted_workers sd cs (rid # rids) rings =
     (case AlertRuleCache_Get (cs_rules cs) rid of
        None \<Rightarrow> wanted_workers sd cs rids rings
      | Some rule \<Rightarrow>
          (if IsPrometheusRule rule \<or> IsInnerRule rule then
             do {
               (rings1, ws) \<leftarrow> rule_workers sd cs rule
                 (GetIDsByDsCateAndQueries (sd_wild sd) (sd_ordi sd) (cs_ds cs) (r_Cate rule) (r_DatasourceQueries rule)) rings;
               (rings2, vs, es) \<leftarrow> wanted_workers sd cs rids rings1;
               Some (rings2, ws @ vs, es)
             }
           else if IsHostRule rule then
             do {
               (rings1, ws) \<leftarrow> host_worker sd cs rule rings;
               (rings2, vs, es) \<leftarrow> wanted_workers sd cs rids rings1;
               Some (rings2, ws @ vs, es)
             }
           else
             do {
               (rings2, vs, es) \<leftarrow> wanted_workers sd cs rids rings;
               Some (rings2, vs, external_processors sd cs rule @ es)
             }))"

record scheduler =
  sh_alertRules :: "(string, alert_rule_worker) gomap"
  sh_external :: "(string, event_processor) gomap"

text \<open>An external processor is replaced only when its hash changed.\<close>

definition update_external ::
  "sched_ctx \<Rightarrow> caches \<Rightarrow> (string, event_processor) gomap \<Rightarrow> (string, event_processor) gomap \<Rightarrow> (string, event_processor) gomap"
where
  "update_external sd cs wanted cur =
     (let new = fold (\<lambda>k m. let p = the (mget wanted k) in
                        case mget m k of
                          Some q \<Rightarrow> (if Processor_Hash (ac_env (sd_ac sd)) p = Processor_Hash (ac_env (sd_ac sd)) q then m
                                     else mput k (RecoverAlertCurEventFromDb (sd_ac sd) cs (sd_curEvents sd (r_Id (p_rule p)) (p_datasourceId p)) p) m)
                        | None \<Rightarrow> mput k (RecoverAlertCurEventFromDb (sd_ac sd) cs (sd_curEvents sd (r_Id (p_rule p)) (p_datasourceId p)) p) m)
                 (sd_ord sd (mkeys wanted)) cur
      in filter (\<lambda>(k, p). mhas wanted k) new)"

definition keyed :: "('w \<Rightarrow> string) \<Rightarrow> 'w list \<Rightarrow> (string, 'w) gomap" where
  "keyed h ws = fold (\<lambda>w. mput (h w) w) ws []"

definition syncAlertRules_workers ::
  "sched_ctx \<Rightarrow> caches \<Rightarrow> hash_rings \<times> scheduler \<Rightarrow> (hash_rings \<times> scheduler \<times> string list \<times> string list) option"
where
  "syncAlertRules_workers sd cs s =
     (case s of (rings, sh) \<Rightarrow>
        do {
          (rings1, ws, es) \<leftarrow> wanted_workers sd cs (GetRuleIds (sd_ordi sd) (cs_rules cs)) rings;
          (let (running, started, stopped) =
                 reconcile (Prepare sd cs) (sd_ord sd) (keyed (Worker_Hash (ac_env (sd_ac sd))) ws) (sh_alertRules sh)
           in Some (rings1, \<lparr>sh_alertRules = running,
                             sh_external = update_external sd cs (keyed Processor_Key es) (sh_external sh)\<rparr>, started, stopped))
        })"

section \<open>Workers of recording rules\<close>

record record_rule_context =
  rw_rule :: recording_rule
  rw_datasourceId :: int

definition NewRecordRuleContext :: "recording_rule \<Rightarrow> int \<Rightarrow> record_rule_context" where
  "NewRecordRuleContext rule dsId =
     \<lparr>rw_rule = (if rr_CronPattern rule = [] \<and> rr_PromEvalInterval rule \<noteq> 0
                 then rule\<lparr>rr_CronPattern := ''@every '' @ Itoa (rr_PromEvalInterval rule) @ ''s''\<rparr> else rule),
      rw_datasourceId = dsId\<rparr>"

definition Record_Key :: "record_rule_context \<Rightarrow> string" where
  "Record_Key w = ''record-'' @ Itoa (rw_datasourceId w) @ ''-'' @ Itoa (rr_Id (rw_rule w))"

definition Record_Hash :: "env \<Rightarrow> record_rule_context \<Rightarrow> string" where
  "Record_Hash x w =
     (let r = rw_rule w in
      x_md5 x (Itoa (rr_Id r) @ ''_'' @ rr_CronPattern r @ ''_'' @ rr_PromQl r @ ''_'' @ Itoa (rw_datasourceId w) @ ''_'' @
        rr_AppendTags r @ ''_'' @ rr_Name r))"

fun record_workers ::
  "sched_ctx \<Rightarrow> recording_rule \<Rightarrow> int list \<Rightarrow> hash_rings \<Rightarrow> hash_rings \<times> record_rule_context list"
where
  "record_workers sd rule [] rings = (rings, [])"
| "record_workers sd rule (dsId # dsIds) rings =
     (let (hit, rings1) = IsHit (sd_cget sd) (Itoa dsId) (Itoa (rr_Id rule)) (sd_Endpoint sd) rings;
          (rings2, ws) = record_workers sd rule dsIds rings1
      in (rings2, (if hit then [NewRecordRuleContext rule dsId] else []) @ ws))"

fun wanted_records ::
  "sched_ctx \<Rightarrow> ds_content stat_cache \<Rightarrow> (int, recording_rule) gomap stat_cache \<Rightarrow> int list \<Rightarrow> hash_rings
     \<Rightarrow> hash_rings \<times> record_rule_context list"
where
  "wanted_records sd ds rules [] rings = (rings, [])"
| "wanted_records sd ds rules (rid # rids) rings =
     (case mget (sc_data rules) rid of
        None \<Rightarrow> wanted_records sd ds rules rids rings
      | Some rule \<Rightarrow>
          (let (rings1, ws) = record_workers sd rule
                 (GetIDsByDsCateAndQueries (sd_wild sd) (sd_ordi sd) ds ''prometheus'' (rr_DatasourceQueries rule)) rings;
               (rings2, vs) = wanted_records sd ds rules rids rings1
           in (rings2, ws @ vs)))"

definition syncRecordRules ::
  "sched_ctx \<Rightarrow> ds_content stat_cache \<Rightarrow> (int, recording_rule) gomap stat_cache
     \<Rightarrow> hash_rings \<times> (string, record_rule_context) gomap
     \<Rightarrow> hash_rings \<times> (string, record_rule_context) gomap \<times> string list \<times> string list"
where
  "syncRecordRules sd ds rules s =
     (let (rings1, ws) = wanted_records sd ds rules (sd_ordi sd (mkeys (sc_data rules))) (fst s)
      in (rings1, reconcile (\<lambda>w. w) (sd_ord sd) (keyed (Record_Hash (ac_env (sd_ac sd))) ws) (snd s)))"

section \<open>The contract of a worker scheduler\<close>

text \<open>
  What running workers become when a set is wanted: a worker that is wanted and running is left alone,
  a wanted one that is missing is started, everything else is stopped.
\<close>

definition reconcile_spec :: "('w \<Rightarrow> 'w) \<Rightarrow> (string \<rightharpoonup> 'w) \<Rightarrow> (string \<rightharpoonup> 'w) \<Rightarrow> (string \<rightharpoonup> 'w)" where
  "reconcile_spec prep wanted cur =
     (\<lambda>h. case wanted h of None \<Rightarrow> None | Some w \<Rightarrow> (case cur h of Some v \<Rightarrow> Some v | None \<Rightarrow> Some (prep w)))"

locale worker_scheduler =
  fixes prep :: "'w \<Rightarrow> 'w"
    and ord :: "string list \<Rightarrow> string list"
    and run :: "(string, 'w) gomap \<Rightarrow> (string, 'w) gomap \<Rightarrow> (string, 'w) gomap \<times> string list \<times> string list"
  assumes running: "range_order ord \<Longrightarrow> mwf wanted \<Longrightarrow> mwf cur \<Longrightarrow> mget (fst (run wanted cur)) = reconcile_spec prep (mget wanted) (mget cur)"
    and running_wf: "range_order ord \<Longrightarrow> mwf wanted \<Longrightarrow> mwf cur \<Longrightarrow> mwf (fst (run wanted cur))"
    and started: "range_order ord \<Longrightarrow> mwf wanted \<Longrightarrow> mwf cur \<Longrightarrow>
      distinct (fst (snd (run wanted cur))) \<and> set (fst (snd (run wanted cur))) = {h. mhas wanted h \<and> \<not> mhas cur h}"
    and stopped: "range_order ord \<Longrightarrow> mwf wanted \<Longrightarrow> mwf cur \<Longrightarrow>
      distinct (snd (snd (run wanted cur))) \<and> set (snd (snd (run wanted cur))) = {h. mhas cur h \<and> \<not> mhas wanted h}"
begin

lemma running_keys: "range_order ord \<Longrightarrow> mwf wanted \<Longrightarrow> mwf cur \<Longrightarrow> mhas (fst (run wanted cur)) h \<longleftrightarrow> mhas wanted h"
  by (simp add: mhas_def running reconcile_spec_def split: option.split)

text \<open>A second run with the same keys wanted, whatever their workers, starts and stops nothing.\<close>

lemma second_run_idle:
  assumes ord: "range_order ord" and "mwf wanted" and "mwf cur" and "mwf wanted'" and "\<forall>h. mhas wanted' h \<longleftrightarrow> mhas wanted h"
  shows "snd (run wanted' (fst (run wanted cur))) = ([], [])"
    and "mget (fst (run wanted' (fst (run wanted cur)))) = mget (fst (run wanted cur))"
proof -
  let ?c = "fst (run wanted cur)"
  have wf: "mwf ?c" by (rule running_wf [OF ord assms(2,3)])
  have keys: "mhas ?c h \<longleftrightarrow> mhas wanted' h" for h using running_keys [OF ord assms(2,3)] assms(5) by simp
  then show "snd (run wanted' ?c) = ([], [])"
    using started [OF ord assms(4) wf] stopped [OF ord assms(4) wf] by (simp add: prod_eq_iff)
  have "reconcile_spec prep (mget wanted') (mget ?c) h = mget ?c h" for h
    using keys [of h] by (auto simp: reconcile_spec_def mhas_def split: option.split)
  then show "mget (fst (run wanted' ?c)) = mget ?c" unfolding running [OF ord assms(4) wf] ..
qed

end

lemma start_missing_spec:
  assumes "range_order ord" and "mwf wanted"
  shows "mget (fst (start_missing prep ord wanted cur)) h =
      (case mget cur h of Some v \<Rightarrow> Some v | None \<Rightarrow> map_option prep (mget wanted h))"
    and "mwf cur \<Longrightarrow> mwf (fst (start_missing prep ord wanted cur))"
    and "snd (start_missing prep ord wanted cur) = filter (\<lambda>h. \<not> mhas cur h) (ord (mkeys wanted))"
proof -
  let ?f = "\<lambda>h (cur, started). if mhas cur h then (cur, started) else (mput h (prep (the (mget wanted h))) cur, started @ [h])"
  have *: "(\<forall>h. mget (fst (fold ?f hs (c, st))) h =
        (case mget c h of Some v \<Rightarrow> Some v | None \<Rightarrow> if h \<in> set hs then Some (prep (the (mget wanted h))) else None)) \<and>
      (mwf c \<longrightarrow> mwf (fst (fold ?f hs (c, st)))) \<and>
      snd (fold ?f hs (c, st)) = st @ filter (\<lambda>h. \<not> mhas c h) hs" if "distinct hs" for hs c st
    using that
  proof (induction hs arbitrary: c st)
    case (Cons k hs)
    show ?case
    proof (cases "mhas c k")
      case True
      then show ?thesis using Cons by (auto simp: mhas_def split: option.split)
    next
      case False
      have "filter (\<lambda>h. \<not> mhas (mput k (prep (the (mget wanted k))) c) h) hs = filter (\<lambda>h. \<not> mhas c h) hs"
        using Cons.prems by (intro filter_cong) auto
      then show ?thesis using Cons False by (auto simp: mhas_def split: option.split)
    qed
  qed (auto split: option.split)
  have dis: "distinct (ord (mkeys wanted))" using assms by (simp add: distinct_range_order distinct_mkeys)
  have keys: "h \<in> set (ord (mkeys wanted)) \<longleftrightarrow> mhas wanted h" for h
    using assms(1) by (simp add: set_range_order in_mkeys_iff)
  note * = * [OF dis, of cur "[]"]
  show "mget (fst (start_missing prep ord wanted cur)) h =
      (case mget cur h of Some v \<Rightarrow> Some v | None \<Rightarrow> map_option prep (mget wanted h))"
    using * keys [of h] by (auto simp: start_missing_def mhas_def split: option.split)
  show "mwf cur \<Longrightarrow> mwf (fst (start_missing prep ord wanted cur))"
    and "snd (start_missing prep ord wanted cur) = filter (\<lambda>h. \<not> mhas cur h) (ord (mkeys wanted))"
    using * by (simp_all add: start_missing_def)
qed

lemma stop_gone_spec:
  assumes "range_order ord"
  shows "mget (fst (stop_gone ord wanted cur)) h = (if mhas wanted h then mget cur h else None)"
    and "mwf cur \<Longrightarrow> mwf (fst (stop_gone ord wanted cur))"
    and "snd (stop_gone ord wanted cur) = filter (\<lambda>h. \<not> mhas wanted h) (ord (mkeys cur))"
proof -
  let ?f = "\<lambda>h (cur, stopped). if mhas wanted h then (cur, stopped) else (mdel h cur, stopped @ [h])"
  have *: "(\<forall>h. mget (fst (fold ?f hs (c, st))) h = (if h \<in> set hs \<and> \<not> mhas wanted h then None else mget c h)) \<and>
      (mwf c \<longrightarrow> mwf (fst (fold ?f hs (c, st)))) \<and>
      snd (fold ?f hs (c, st)) = st @ filter (\<lambda>h. \<not> mhas wanted h) hs" for hs c st
    by (induction hs arbitrary: c st) auto
  have keys: "h \<in> set (ord (mkeys cur)) \<longleftrightarrow> mhas cur h"
    using assms by (simp add: set_range_order in_mkeys_iff)
  note * = * [of "ord (mkeys cur)" cur "[]"]
  show "mget (fst (stop_gone ord wanted cur)) h = (if mhas wanted h then mget cur h else None)"
    using * keys by (auto simp: stop_gone_def mhas_def)
  show "mwf cur \<Longrightarrow> mwf (fst (stop_gone ord wanted cur))"
    and "snd (stop_gone ord wanted cur) = filter (\<lambda>h. \<not> mhas wanted h) (ord (mkeys cur))"
    using * by (simp_all add: stop_gone_def)
qed

lemma reconcile_parts:
  "fst (reconcile prep ord wanted cur) = fst (stop_gone ord wanted (fst (start_missing prep ord wanted cur)))"
  "fst (snd (reconcile prep ord wanted cur)) = snd (start_missing prep ord wanted cur)"
  "snd (snd (reconcile prep ord wanted cur)) = snd (stop_gone ord wanted (fst (start_missing prep ord wanted cur)))"
  by (simp_all add: reconcile_def split_beta Let_def)

lemma reconcile_scheduler: "worker_scheduler prep ord (reconcile prep ord)"
proof
  fix wanted cur :: "(string, 'a) gomap"
  assume assms: "range_order ord" and wf: "mwf wanted" "mwf cur"
  note start = start_missing_spec [OF assms wf(1), where prep = prep and cur = cur] and stop = stop_gone_spec [OF assms]
  show "mget (fst (reconcile prep ord wanted cur)) = reconcile_spec prep (mget wanted) (mget cur)"
    by (rule ext) (simp add: reconcile_parts stop(1) start(1) reconcile_spec_def mhas_def split: option.split)
  show "mwf (fst (reconcile prep ord wanted cur))" using stop(2) start(2) wf(2) by (simp add: reconcile_parts)
  show "distinct (fst (snd (reconcile prep ord wanted cur))) \<and>
      set (fst (snd (reconcile prep ord wanted cur))) = {h. mhas wanted h \<and> \<not> mhas cur h}"
    using assms distinct_mkeys [OF wf(1)] unfolding reconcile_parts start(3)
    by (auto simp: distinct_range_order set_range_order in_mkeys_iff)
  have "distinct (ord (mkeys (fst (start_missing prep ord wanted cur))))"
    using assms distinct_mkeys [OF start(2) [OF wf(2)]] by (simp add: distinct_range_order)
  then show "distinct (snd (snd (reconcile prep ord wanted cur))) \<and>
      set (snd (snd (reconcile prep ord wanted cur))) = {h. mhas cur h \<and> \<not> mhas wanted h}"
    using assms start(1) unfolding reconcile_parts stop(3)
    by (auto simp: set_range_order in_mkeys_iff mhas_def split: option.split_asm)
qed

interpretation alert_workers: worker_scheduler "Prepare sd cs" "sd_ord sd" "reconcile (Prepare sd cs) (sd_ord sd)" for sd cs
  by (rule reconcile_scheduler)

interpretation record_workers: worker_scheduler "\<lambda>w. w" "sd_ord sd" "reconcile (\<lambda>w. w) (sd_ord sd)" for sd
  by (rule reconcile_scheduler)

section \<open>The wanted workers\<close>

text \<open>The nodes of a ring; looking a key up may create a ring but changes no nodes.\<close>

definition ring_view :: "hash_rings \<Rightarrow> string \<Rightarrow> string list" where
  "ring_view m k = (case mget m k of None \<Rightarrow> [] | Some r \<Rightarrow> r)"

definition hits :: "(string list \<Rightarrow> string \<Rightarrow> string option) \<Rightarrow> string list \<Rightarrow> string \<Rightarrow> string \<Rightarrow> bool" where
  "hits cget nodes pk ep \<longleftrightarrow> cget nodes pk = Some ep"

lemma IsHit_view:
  "fst (IsHit cget k pk ep m) \<longleftrightarrow> hits cget (ring_view m k) pk ep" "ring_view (snd (IsHit cget k pk ep m)) = ring_view m"
  by (auto simp: IsHit_def GetNode_def hits_def ring_view_def mhas_def Let_def NewConsistentHashRing_def fun_eq_iff
      split: option.split prod.split)

text \<open>The pairs of rule and data source that the rings assign to an instance.\<close>

definition rule_assigned :: "sched_ctx \<Rightarrow> caches \<Rightarrow> (string \<Rightarrow> string list) \<Rightarrow> alert_rule \<Rightarrow> int \<Rightarrow> bool" where
  "rule_assigned sd cs view rule dsId \<longleftrightarrow>
     (if IsPrometheusRule rule \<or> IsInnerRule rule then
        dsId \<in> set (GetIDsByDsCateAndQueries (sd_wild sd) (sd_ordi sd) (cs_ds cs) (r_Cate rule) (r_DatasourceQueries rule)) \<and>
        usable_datasource cs (GetRuleType rule) dsId \<and> hits (sd_cget sd) (view (Itoa dsId)) (Itoa (r_Id rule)) (sd_Endpoint sd)
      else IsHostRule rule \<and> dsId = 0 \<and> hits (sd_cget sd) (view (sd_EngineName sd)) (Itoa (r_Id rule)) (sd_Endpoint sd))"

definition worker_of :: "sched_ctx \<Rightarrow> caches \<Rightarrow> alert_rule \<Rightarrow> int \<Rightarrow> alert_rule_worker option" where
  "worker_of sd cs rule dsId = NewAlertRuleWorker sd rule dsId (NewProcessor (sd_EngineName sd) rule dsId cs 0)"

lemma worker_of_id: "worker_of sd cs rule dsId = Some w \<Longrightarrow> r_Id (aw_Rule w) = r_Id rule \<and> aw_DatasourceId w = dsId"
  by (auto simp: worker_of_def NewAlertRuleWorker_def Let_def split: option.split_asm)

lemma rule_workers_filter:
  "rule_workers sd cs rule dsIds m =
     (case those (map (worker_of sd cs rule)
        (filter (\<lambda>d. hits (sd_cget sd) (ring_view m (Itoa d)) (Itoa (r_Id rule)) (sd_Endpoint sd) \<and> usable_datasource cs (GetRuleType rule) d) dsIds)) of
        None \<Rightarrow> None
      | Some ws \<Rightarrow> Some (fold (\<lambda>d m. snd (IsHit (sd_cget sd) (Itoa d) (Itoa (r_Id rule)) (sd_Endpoint sd) m)) dsIds m, ws))"
proof (induction dsIds arbitrary: m)
  case (Cons d dsIds)
  obtain h m1 where hit: "IsHit (sd_cget sd) (Itoa d) (Itoa (r_Id rule)) (sd_Endpoint sd) m = (h, m1)"
    by (cases "IsHit (sd_cget sd) (Itoa d) (Itoa (r_Id rule)) (sd_Endpoint sd) m")
  have h: "h \<longleftrightarrow> hits (sd_cget sd) (ring_view m (Itoa d)) (Itoa (r_Id rule)) (sd_Endpoint sd)" and m1: "ring_view m1 = ring_view m"
    using IsHit_view [of "sd_cget sd" "Itoa d" "Itoa (r_Id rule)" "sd_Endpoint sd" m] by (simp_all add: hit)
  show ?case by (simp add: hit Cons.IH m1 h worker_of_def split: option.split)
qed simp

lemma fold_view: "ring_view (fold (\<lambda>d m. snd (IsHit cget (k d) pk ep m)) ds m) = ring_view m"
  by (induction ds arbitrary: m) (simp_all add: IsHit_view(2))

lemma rule_workers_view:
  assumes "rule_workers sd cs rule dsIds m = Some (m', ws)"
  shows "ring_view m' = ring_view m"
    and "ring_view n = ring_view m \<Longrightarrow> \<exists>n'. rule_workers sd cs rule dsIds n = Some (n', ws)"
  using assms unfolding rule_workers_filter by (auto simp: fold_view split: option.split_asm)

lemma host_worker_view:
  assumes "host_worker sd cs rule m = Some (m', ws)"
  shows "ring_view m' = ring_view m"
    and "ring_view n = ring_view m \<Longrightarrow> \<exists>n'. host_worker sd cs rule n = Some (n', ws)"
  using assms IsHit_view [of "sd_cget sd" "sd_EngineName sd" "Itoa (r_Id rule)" "sd_Endpoint sd"]
  by (auto simp: host_worker_def split_beta split: if_split_asm bind_splits)

lemma those_member:
  "those (map f xs) = Some ws \<Longrightarrow> w \<in> set ws \<longleftrightarrow> (\<exists>x \<in> set xs. f x = Some w)"
  by (induction xs arbitrary: ws) (auto split: option.split_asm)

text \<open>One rule of the loop.\<close>

definition rule_part :: "sched_ctx \<Rightarrow> caches \<Rightarrow> alert_rule \<Rightarrow> hash_rings \<Rightarrow> (hash_rings \<times> alert_rule_worker list) option" where
  "rule_part sd cs rule m =
     (if IsPrometheusRule rule \<or> IsInnerRule rule then
        rule_workers sd cs rule
          (GetIDsByDsCateAndQueries (sd_wild sd) (sd_ordi sd) (cs_ds cs) (r_Cate rule) (r_DatasourceQueries rule)) m
      else if IsHostRule rule then host_worker sd cs rule m else Some (m, []))"

lemma wanted_Cons:
  assumes "wanted_workers sd cs (rid # rids) m = Some (m', ws, es)" and "AlertRuleCache_Get (cs_rules cs) rid = Some rule"
  obtains m1 us vs es' where "rule_part sd cs rule m = Some (m1, us)" and "wanted_workers sd cs rids m1 = Some (m', vs, es')"
    and "ws = us @ vs"
  using assms by (auto simp: rule_part_def split: bind_splits if_split_asm)

lemma wanted_ConsI:
  assumes "AlertRuleCache_Get (cs_rules cs) rid = Some rule" and "rule_part sd cs rule m = Some (m1, us)"
    and "wanted_workers sd cs rids m1 = Some (m', vs, es)"
  shows "\<exists>es'. wanted_workers sd cs (rid # rids) m = Some (m', us @ vs, es')"
  using assms by (auto simp: rule_part_def split: if_split_asm)

lemma rule_part_spec:
  assumes "rule_part sd cs rule m = Some (m', us)"
  shows "ring_view m' = ring_view m"
    and "ring_view n = ring_view m \<Longrightarrow> \<exists>n'. rule_part sd cs rule n = Some (n', us)"
    and "w \<in> set us \<longleftrightarrow> (\<exists>d. rule_assigned sd cs (ring_view m) rule d \<and> worker_of sd cs rule d = Some w)"
    and "rule_assigned sd cs (ring_view m) rule d \<Longrightarrow> \<exists>w. worker_of sd cs rule d = Some w"
proof -
  show "ring_view m' = ring_view m" and "ring_view n = ring_view m \<Longrightarrow> \<exists>n'. rule_part sd cs rule n = Some (n', us)"
    using assms rule_workers_view host_worker_view by (auto simp: rule_part_def split: if_split_asm)
  have "(w \<in> set us \<longleftrightarrow> (\<exists>d. rule_assigned sd cs (ring_view m) rule d \<and> worker_of sd cs rule d = Some w)) \<and>
    (rule_assigned sd cs (ring_view m) rule d \<longrightarrow> (\<exists>w. worker_of sd cs rule d = Some w))"
  proof (cases "IsPrometheusRule rule \<or> IsInnerRule rule")
    case True
    let ?ds = "GetIDsByDsCateAndQueries (sd_wild sd) (sd_ordi sd) (cs_ds cs) (r_Cate rule) (r_DatasourceQueries rule)"
    let ?sel = "filter (\<lambda>d. hits (sd_cget sd) (ring_view m (Itoa d)) (Itoa (r_Id rule)) (sd_Endpoint sd) \<and>
        usable_datasource cs (GetRuleType rule) d) ?ds"
    have us: "those (map (worker_of sd cs rule) ?sel) = Some us"
      using assms True by (auto simp: rule_part_def rule_workers_filter split: option.split_asm)
    have asg: "rule_assigned sd cs (ring_view m) rule d \<longleftrightarrow> d \<in> set ?sel" for d using True by (auto simp: rule_assigned_def)
    have "worker_of sd cs rule d \<noteq> None" if "d \<in> set ?sel"
    proof -
      have "those (map f xs) = Some ys \<Longrightarrow> x \<in> set xs \<Longrightarrow> f x \<noteq> None" for f :: "int \<Rightarrow> alert_rule_worker option" and xs ys x
        by (induction xs arbitrary: ys) (auto split: option.split_asm)
      from this [OF us that] show ?thesis .
    qed
    then show ?thesis unfolding asg using those_member [OF us] by blast
  next
    case False
    then show ?thesis
      using assms IsHit_view(1) [of "sd_cget sd" "sd_EngineName sd" "Itoa (r_Id rule)" "sd_Endpoint sd" m]
      by (auto simp: rule_part_def host_worker_def rule_assigned_def worker_of_def split_beta split: if_split_asm bind_splits)
  qed
  then show "w \<in> set us \<longleftrightarrow> (\<exists>d. rule_assigned sd cs (ring_view m) rule d \<and> worker_of sd cs rule d = Some w)"
    and "rule_assigned sd cs (ring_view m) rule d \<Longrightarrow> \<exists>w. worker_of sd cs rule d = Some w" by blast+
qed

text \<open>All rules: the workers wanted are those of the pairs assigned, and depend on the nodes of the rings only.\<close>

lemma wanted_spec:
  assumes "wanted_workers sd cs rids m = Some (m', ws, es)"
  shows "ring_view m' = ring_view m \<and>
    (\<forall>w. w \<in> set ws \<longleftrightarrow> (\<exists>rid rule d. rid \<in> set rids \<and> AlertRuleCache_Get (cs_rules cs) rid = Some rule \<and>
       rule_assigned sd cs (ring_view m) rule d \<and> worker_of sd cs rule d = Some w)) \<and>
    (\<forall>rid rule d. rid \<in> set rids \<longrightarrow> AlertRuleCache_Get (cs_rules cs) rid = Some rule \<longrightarrow>
       rule_assigned sd cs (ring_view m) rule d \<longrightarrow> (\<exists>w. worker_of sd cs rule d = Some w))"
  using assms
proof (induction rids arbitrary: m ws es)
  case Nil
  then show ?case by simp
next
  case (Cons rid rids)
  show ?case
  proof (cases "AlertRuleCache_Get (cs_rules cs) rid")
    case None
    with Cons.prems have "wanted_workers sd cs rids m = Some (m', ws, es)" by simp
    from Cons.IH [OF this] None show ?thesis by auto
  next
    case (Some rule)
    obtain m1 us vs es' where part: "rule_part sd cs rule m = Some (m1, us)"
      and rest: "wanted_workers sd cs rids m1 = Some (m', vs, es')" and ws: "ws = us @ vs"
      by (rule wanted_Cons [OF Cons.prems Some])
    note p = rule_part_spec [OF part]
    from Cons.IH [OF rest] p(1) have IH: "ring_view m' = ring_view m"
      "\<And>w. w \<in> set vs \<longleftrightarrow> (\<exists>rid rule d. rid \<in> set rids \<and> AlertRuleCache_Get (cs_rules cs) rid = Some rule \<and>
         rule_assigned sd cs (ring_view m) rule d \<and> worker_of sd cs rule d = Some w)"
      "\<And>rid rule d. rid \<in> set rids \<Longrightarrow> AlertRuleCache_Get (cs_rules cs) rid = Some rule \<Longrightarrow>
         rule_assigned sd cs (ring_view m) rule d \<Longrightarrow> \<exists>w. worker_of sd cs rule d = Some w"
      by simp_all
    show ?thesis
      unfolding ws set_append Un_iff p(3) IH(1,2) using Some p(4) IH(3) by auto
  qed
qed

lemma wanted_view:
  assumes "wanted_workers sd cs rids m = Some (m', ws, es)" and "ring_view n = ring_view m"
  shows "\<exists>n' es'. wanted_workers sd cs rids n = Some (n', ws, es')"
  using assms
proof (induction rids arbitrary: m n ws es)
  case Nil
  then show ?case by simp
next
  case (Cons rid rids)
  show ?case
  proof (cases "AlertRuleCache_Get (cs_rules cs) rid")
    case None
    with Cons.prems(1) have "wanted_workers sd cs rids m = Some (m', ws, es)" by simp
    from Cons.IH [OF this Cons.prems(2)] None show ?thesis by simp
  next
    case (Some rule)
    obtain m1 us vs es' where part: "rule_part sd cs rule m = Some (m1, us)"
      and rest: "wanted_workers sd cs rids m1 = Some (m', vs, es')" and ws: "ws = us @ vs"
      by (rule wanted_Cons [OF Cons.prems(1) Some])
    obtain n1 where n1: "rule_part sd cs rule n = Some (n1, us)" using rule_part_spec(2) [OF part Cons.prems(2)] by blast
    have "ring_view n1 = ring_view m1" using rule_part_spec(1) [OF part] rule_part_spec(1) [OF n1] Cons.prems(2) by simp
    from Cons.IH [OF rest this] obtain n' es'' where "wanted_workers sd cs rids n1 = Some (n', vs, es'')" by blast
    from wanted_ConsI [OF Some n1 this] show ?thesis unfolding ws by blast
  qed
qed

lemma mhas_keyed: "mhas (keyed h ws) k \<longleftrightarrow> k \<in> h ` set ws"
proof -
  have "mhas (fold (\<lambda>w. mput (h w) w) ws m) k \<longleftrightarrow> k \<in> h ` set ws \<or> mhas m k" for m
    by (induction ws arbitrary: m) auto
  then show ?thesis by (simp add: keyed_def)
qed

lemma mwf_keyed: "mwf (keyed h ws)"
  unfolding keyed_def by (rule mwf_fold_mput) simp

lemma sync_parts:
  assumes "syncAlertRules_workers sd cs (rings, sh) = Some (rings', sh', started, stopped)"
  obtains ws es where "wanted_workers sd cs (GetRuleIds (sd_ordi sd) (cs_rules cs)) rings = Some (rings', ws, es)"
    and "reconcile (Prepare sd cs) (sd_ord sd) (keyed (Worker_Hash (ac_env (sd_ac sd))) ws) (sh_alertRules sh) =
      (sh_alertRules sh', started, stopped)"
  using assms by (auto simp: syncAlertRules_workers_def split_beta prod_eq_iff split: bind_splits)

section \<open>Properties\<close>

text \<open>
  C9. After a synchronisation the instance runs exactly the workers that the caches and the rings assign to
  it: what was running and still is wanted goes on untouched, and a second synchronisation with the same
  caches starts nothing and stops nothing.
\<close>

theorem sync_runs_the_assigned_workers:
  assumes "syncAlertRules_workers sd cs (rings, sh) = Some (rings1, sh1, started, stopped)"
    and "range_order (sd_ord sd)" and "range_order (sd_ordi sd)" and "mwf (sh_alertRules sh)"
  shows "(mhas (sh_alertRules sh1) h \<longleftrightarrow>
      (\<exists>rid rule d w. AlertRuleCache_Get (cs_rules cs) rid = Some rule \<and> rule_assigned sd cs (ring_view rings) rule d \<and>
        worker_of sd cs rule d = Some w \<and> h = Worker_Hash (ac_env (sd_ac sd)) w)) \<and>
    (mhas (sh_alertRules sh1) h \<longrightarrow> mget (sh_alertRules sh) h = Some v \<longrightarrow> mget (sh_alertRules sh1) h = Some v) \<and>
    (\<exists>rings2 sh2. syncAlertRules_workers sd cs (rings1, sh1) = Some (rings2, sh2, [], []) \<and>
      mget (sh_alertRules sh2) = mget (sh_alertRules sh1))"
proof -
  let ?x = "ac_env (sd_ac sd)"
  obtain ws es where ws: "wanted_workers sd cs (GetRuleIds (sd_ordi sd) (cs_rules cs)) rings = Some (rings1, ws, es)"
    and rec: "reconcile (Prepare sd cs) (sd_ord sd) (keyed (Worker_Hash ?x) ws) (sh_alertRules sh) =
      (sh_alertRules sh1, started, stopped)"
    by (rule sync_parts [OF assms(1)])
  let ?k = "keyed (Worker_Hash ?x) ws"
  note run = alert_workers.running [where cs = cs, OF assms(2) mwf_keyed [of "Worker_Hash ?x" ws] assms(4), unfolded rec fst_conv]
  note keys = alert_workers.running_keys [where cs = cs, OF assms(2) mwf_keyed [of "Worker_Hash ?x" ws] assms(4), unfolded rec fst_conv]
  note idle = alert_workers.second_run_idle [where cs = cs, OF assms(2) mwf_keyed [of "Worker_Hash ?x" ws] assms(4) mwf_keyed [of "Worker_Hash ?x" ws],
      unfolded rec fst_conv]
  have ids: "rid \<in> set (GetRuleIds (sd_ordi sd) (cs_rules cs)) \<longleftrightarrow> AlertRuleCache_Get (cs_rules cs) rid \<noteq> None" for rid
    using assms(3) by (simp add: GetRuleIds_def set_range_order in_mkeys_iff mhas_def AlertRuleCache_Get_def)
  have mem: "w \<in> set ws \<longleftrightarrow> (\<exists>rid rule d. AlertRuleCache_Get (cs_rules cs) rid = Some rule \<and>
      rule_assigned sd cs (ring_view rings) rule d \<and> worker_of sd cs rule d = Some w)" for w
    unfolding wanted_spec [OF ws, THEN conjunct2, THEN conjunct1, THEN spec, of w] ids by (intro iff_exI) auto
  have "h \<in> Worker_Hash ?x ` set ws \<longleftrightarrow>
      (\<exists>rid rule d w. AlertRuleCache_Get (cs_rules cs) rid = Some rule \<and> rule_assigned sd cs (ring_view rings) rule d \<and>
        worker_of sd cs rule d = Some w \<and> h = Worker_Hash ?x w)"
    unfolding image_iff Bex_def mem by blast
  moreover have "mhas (sh_alertRules sh1) h \<longrightarrow> mget (sh_alertRules sh) h = Some v \<longrightarrow> mget (sh_alertRules sh1) h = Some v"
    using keys [of h] by (auto simp: run reconcile_spec_def mhas_def split: option.split)
  moreover have "\<exists>rings2 sh2. syncAlertRules_workers sd cs (rings1, sh1) = Some (rings2, sh2, [], []) \<and>
      mget (sh_alertRules sh2) = mget (sh_alertRules sh1)"
  proof -
    have "ring_view rings1 = ring_view rings" using wanted_spec [OF ws] by blast
    from wanted_view [OF ws this] obtain rings2 es2 where
      ws2: "wanted_workers sd cs (GetRuleIds (sd_ordi sd) (cs_rules cs)) rings1 = Some (rings2, ws, es2)" by blast
    show ?thesis
      using idle by (auto simp: syncAlertRules_workers_def ws2 split_beta Let_def)
  qed
  ultimately show ?thesis by (simp add: keys mhas_keyed)
qed

text \<open>Whether a pair is to be run by some instance, and the ring that decides which.\<close>

definition runnable :: "sched_ctx \<Rightarrow> caches \<Rightarrow> int list \<Rightarrow> alert_rule \<Rightarrow> int \<Rightarrow> bool" where
  "runnable sd cs D rule d \<longleftrightarrow>
     (if IsPrometheusRule rule \<or> IsInnerRule rule then
        d \<in> set (GetIDsByDsCateAndQueries (sd_wild sd) (sd_ordi sd) (cs_ds cs) (r_Cate rule) (r_DatasourceQueries rule)) \<and>
        usable_datasource cs (GetRuleType rule) d \<and> d \<in> set D
      else IsHostRule rule \<and> d = 0)"

definition ring_of :: "sched_ctx \<Rightarrow> alert_rule \<Rightarrow> int \<Rightarrow> string" where
  "ring_of sd rule d = (if IsPrometheusRule rule \<or> IsInnerRule rule then Itoa d else sd_EngineName sd)"

lemma runnable_assigned:
  "runnable sd cs D rule d \<Longrightarrow> rule_assigned (sd\<lparr>sd_Endpoint := ep\<rparr>) cs (ring_view m) rule d \<longleftrightarrow>
     fst (IsHit (sd_cget sd) (ring_of sd rule d) (Itoa (r_Id rule)) ep m)"
  by (auto simp: runnable_def rule_assigned_def ring_of_def IsHit_view(1) split: if_split_asm)

lemma wanted_pair:
  assumes "wanted_workers sd cs (GetRuleIds (sd_ordi sd) (cs_rules cs)) m = Some (m', ws, es)" and "range_order (sd_ordi sd)"
    and "\<forall>rid rule. AlertRuleCache_Get (cs_rules cs) rid = Some rule \<longrightarrow> r_Id rule = rid"
    and "AlertRuleCache_Get (cs_rules cs) rid = Some rule"
  shows "(\<exists>w \<in> set ws. r_Id (aw_Rule w) = rid \<and> aw_DatasourceId w = d) \<longleftrightarrow> rule_assigned sd cs (ring_view m) rule d"
proof -
  have here: "rid \<in> set (GetRuleIds (sd_ordi sd) (cs_rules cs))"
    using assms(2,4) by (simp add: GetRuleIds_def set_range_order in_mkeys_iff mhas_def AlertRuleCache_Get_def)
  have id: "r_Id rule = rid" using assms(3,4) by blast
  note wants = wanted_spec [OF assms(1), THEN conjunct2]
  show ?thesis
  proof
    assume "\<exists>w \<in> set ws. r_Id (aw_Rule w) = rid \<and> aw_DatasourceId w = d"
    then obtain w where w: "w \<in> set ws" "r_Id (aw_Rule w) = rid" "aw_DatasourceId w = d" by blast
    from wants [THEN conjunct1, THEN spec, of w] w(1) obtain rid' rule' d' where
      *: "AlertRuleCache_Get (cs_rules cs) rid' = Some rule'" "rule_assigned sd cs (ring_view m) rule' d'" "worker_of sd cs rule' d' = Some w"
      by blast
    with worker_of_id [OF *(3)] w(2,3) assms(3,4) have "rule' = rule" "d' = d" by auto
    with *(2) show "rule_assigned sd cs (ring_view m) rule d" by simp
  next
    assume asg: "rule_assigned sd cs (ring_view m) rule d"
    then obtain w where w: "worker_of sd cs rule d = Some w" using wants [THEN conjunct2] here assms(4) by blast
    with wants [THEN conjunct1, THEN spec, of w] asg here assms(4) have "w \<in> set ws" by blast
    with worker_of_id [OF w] id show "\<exists>w \<in> set ws. r_Id (aw_Rule w) = rid \<and> aw_DatasourceId w = d" by auto
  qed
qed

text \<open>
  The texts that the workers of a cluster are hashed from: those of the workers that run and of any that the
  cached rules can have. A digest that tells them apart tells rules and data sources apart.
\<close>

definition worker_texts :: "sched_ctx \<Rightarrow> caches \<Rightarrow> string list \<Rightarrow> (string \<Rightarrow> scheduler) \<Rightarrow> string set" where
  "worker_texts sd cs insts sh =
     {Worker_text w | w. \<exists>ep h. ep \<in> set insts \<and> mget (sh_alertRules (sh ep)) h = Some w} \<union>
     {Worker_text w | w. \<exists>ep rid rule d. ep \<in> set insts \<and> AlertRuleCache_Get (cs_rules cs) rid = Some rule \<and>
        worker_of (sd\<lparr>sd_Endpoint := ep\<rparr>) cs rule d = Some w}"

definition scheduler_ok :: "env \<Rightarrow> scheduler \<Rightarrow> bool" where
  "scheduler_ok x sh \<longleftrightarrow> mwf (sh_alertRules sh) \<and> (\<forall>h w. mget (sh_alertRules sh) h = Some w \<longrightarrow> Worker_Hash x w = h)"

lemma Worker_text_pair:
  "Worker_text v = Worker_text w \<Longrightarrow> r_Id (aw_Rule v) = r_Id (aw_Rule w) \<and> aw_DatasourceId v = aw_DatasourceId w"
  using enclosed_numbers [where s = "r_CronPattern (aw_Rule v) @ ''_'' @ r_RuleConfig (aw_Rule v)"
      and s' = "r_CronPattern (aw_Rule w) @ ''_'' @ r_RuleConfig (aw_Rule w)"]
  by (simp add: Worker_text_def)

lemma keyed_member: "mget (keyed h ws) k = Some w \<Longrightarrow> w \<in> set ws \<and> h w = k"
proof -
  have "mget (fold (\<lambda>w. mput (h w) w) ws m) k = Some w \<Longrightarrow> (w \<in> set ws \<and> h w = k) \<or> mget m k = Some w" for m
    by (induction ws arbitrary: m) (fastforce split: if_split_asm)+
  then show "mget (keyed h ws) k = Some w \<Longrightarrow> w \<in> set ws \<and> h w = k" by (fastforce simp: keyed_def)
qed

text \<open>After a synchronisation a rule runs on a data source exactly when the instance wants it to.\<close>

lemma running_pair:
  assumes sync: "syncAlertRules_workers sd cs (rings, sh) = Some (rings1, sh1, started, stopped)"
    and ws: "wanted_workers sd cs (GetRuleIds (sd_ordi sd) (cs_rules cs)) rings = Some (m', ws, es)"
    and ord: "range_order (sd_ord sd)" and sh: "scheduler_ok (ac_env (sd_ac sd)) sh"
    and inj: "inj_on (x_md5 (ac_env (sd_ac sd))) T" and run: "\<And>h w. mget (sh_alertRules sh) h = Some w \<Longrightarrow> Worker_text w \<in> T"
    and want: "\<And>w. w \<in> set ws \<Longrightarrow> Worker_text w \<in> T"
  shows "(\<exists>h w. mget (sh_alertRules sh1) h = Some w \<and> r_Id (aw_Rule w) = rid \<and> aw_DatasourceId w = d) \<longleftrightarrow>
    (\<exists>w \<in> set ws. r_Id (aw_Rule w) = rid \<and> aw_DatasourceId w = d)"
proof -
  let ?x = "ac_env (sd_ac sd)" and ?k = "keyed (Worker_Hash (ac_env (sd_ac sd))) ws"
  have wf: "mwf (sh_alertRules sh)" using sh by (simp add: scheduler_ok_def)
  have "reconcile (Prepare sd cs) (sd_ord sd) ?k (sh_alertRules sh) = (sh_alertRules sh1, started, stopped)"
    by (rule sync_parts [OF sync]) (simp add: ws)
  then have get: "mget (sh_alertRules sh1) = reconcile_spec (Prepare sd cs) (mget ?k) (mget (sh_alertRules sh))"
    using alert_workers.running [where cs = cs, OF ord mwf_keyed [of "Worker_Hash ?x" ws] wf] by simp
  have same: "r_Id (aw_Rule v) = r_Id (aw_Rule w) \<and> aw_DatasourceId v = aw_DatasourceId w"
    if "Worker_Hash ?x v = Worker_Hash ?x w" "Worker_text v \<in> T" "Worker_text w \<in> T" for v w
    using that inj by (intro Worker_text_pair) (simp add: Worker_Hash_def inj_on_eq_iff)
  have pair: "r_Id (aw_Rule v) = r_Id (aw_Rule w) \<and> aw_DatasourceId v = aw_DatasourceId w"
    if "mget ?k h = Some w" "mget (sh_alertRules sh1) h = Some v" for h v w
  proof (cases "mget (sh_alertRules sh) h")
    case None
    then show ?thesis using that by (auto simp: get reconcile_spec_def Prepare_def)
  next
    case (Some u)
    then have "v = u" using that by (simp add: get reconcile_spec_def)
    moreover have "Worker_Hash ?x u = h" using sh Some by (simp add: scheduler_ok_def)
    ultimately show ?thesis using same [of v w] keyed_member [OF that(1)] run [OF Some] want [of w] by simp
  qed
  have has: "mhas (sh_alertRules sh1) h \<longleftrightarrow> mhas ?k h" for h
    by (auto simp: mhas_def get reconcile_spec_def split: option.split)
  show ?thesis
  proof
    assume "\<exists>h w. mget (sh_alertRules sh1) h = Some w \<and> r_Id (aw_Rule w) = rid \<and> aw_DatasourceId w = d"
    then obtain h v where v: "mget (sh_alertRules sh1) h = Some v" "r_Id (aw_Rule v) = rid" "aw_DatasourceId v = d" by blast
    then obtain w where w: "mget ?k h = Some w" using has [of h] by (auto simp: mhas_def)
    from pair [OF w v(1)] v(2,3) keyed_member [OF w]
    show "\<exists>w \<in> set ws. r_Id (aw_Rule w) = rid \<and> aw_DatasourceId w = d" by auto
  next
    assume "\<exists>w \<in> set ws. r_Id (aw_Rule w) = rid \<and> aw_DatasourceId w = d"
    then obtain w where w: "w \<in> set ws" "r_Id (aw_Rule w) = rid" "aw_DatasourceId w = d" by blast
    then have "mhas ?k (Worker_Hash ?x w)" by (simp add: mhas_keyed)
    then obtain w1 v where w1: "mget ?k (Worker_Hash ?x w) = Some w1" and v: "mget (sh_alertRules sh1) (Worker_Hash ?x w) = Some v"
      using has [of "Worker_Hash ?x w"] by (auto simp: mhas_def)
    have "r_Id (aw_Rule w1) = rid \<and> aw_DatasourceId w1 = d"
      using same [of w1 w] keyed_member [OF w1] want w by auto
    with pair [OF w1 v] v show "\<exists>h w. mget (sh_alertRules sh1) h = Some w \<and> r_Id (aw_Rule w) = rid \<and> aw_DatasourceId w = d"
      by auto
  qed
qed

text \<open>
  C8. When every instance of a central cluster has sent two heartbeats within thirty seconds, none of which failed,
  and then every instance synchronises with the same caches, every rule runs on every one of its usable data
  sources at exactly one instance, and every host rule at exactly one instance, whatever ran before. The
  digest is assumed to tell the workers concerned apart.
\<close>

theorem each_rule_runs_once_in_the_cluster:
  assumes "ring_lookup (sd_cget sd) insts" and "cluster_conf base D insts" and "cluster_ok base insts T w"
    and "beats_in T insts round1" and "fst ` set round1 = set insts"
    and "beats_in T insts round2" and "fst ` set round2 = set insts"
    and "nc_EngineName base = sd_EngineName sd" and "range_order (sd_ord sd)" and "range_order (sd_ordi sd)"
    and "\<forall>rid rule. AlertRuleCache_Get (cs_rules cs) rid = Some rule \<longrightarrow> r_Id rule = rid"
    and "AlertRuleCache_Get (cs_rules cs) rid = Some rule" and "runnable sd cs D rule d"
    and "\<forall>ep \<in> set insts. scheduler_ok (ac_env (sd_ac sd)) (sh ep)"
    and "inj_on (x_md5 (ac_env (sd_ac sd))) (worker_texts sd cs insts sh)"
    and "\<forall>ep \<in> set insts. syncAlertRules_workers (sd\<lparr>sd_Endpoint := ep\<rparr>) cs
      (nm_rings (snd (fold (cluster_step base D) (round1 @ round2) w) ep), sh ep) = Some (rings1 ep, sh1 ep, started ep, stopped ep)"
  shows "\<exists>!ep. ep \<in> set insts \<and>
    (\<exists>h v. mget (sh_alertRules (sh1 ep)) h = Some v \<and> r_Id (aw_Rule v) = rid \<and> aw_DatasourceId v = d)"
proof -
  let ?ns = "snd (fold (cluster_step base D) (round1 @ round2) w)"
  have "ring_of sd rule d \<in> insert (nc_EngineName base) (Itoa ` set D)"
    using assms(8,13) by (auto simp: runnable_def ring_of_def split: if_split_asm)
  note one = settled_one_hit [OF assms(1) two_rounds_settle [OF assms(2-7)] this, of "Itoa (r_Id rule)"]
  have "(\<exists>h v. mget (sh_alertRules (sh1 ep)) h = Some v \<and> r_Id (aw_Rule v) = rid \<and> aw_DatasourceId v = d) \<longleftrightarrow>
      fst (IsHit (sd_cget sd) (ring_of sd rule d) (Itoa (r_Id rule)) ep (nm_rings (?ns ep)))" if ep: "ep \<in> set insts" for ep
  proof -
    let ?sd = "sd\<lparr>sd_Endpoint := ep\<rparr>"
    have sync: "syncAlertRules_workers ?sd cs (nm_rings (?ns ep), sh ep) = Some (rings1 ep, sh1 ep, started ep, stopped ep)"
      using assms(16) ep by blast
    obtain ws es where ws: "wanted_workers ?sd cs (GetRuleIds (sd_ordi ?sd) (cs_rules cs)) (nm_rings (?ns ep)) = Some (rings1 ep, ws, es)"
      by (rule sync_parts [OF sync])
    have "(\<exists>h v. mget (sh_alertRules (sh1 ep)) h = Some v \<and> r_Id (aw_Rule v) = rid \<and> aw_DatasourceId v = d) \<longleftrightarrow>
        (\<exists>w \<in> set ws. r_Id (aw_Rule w) = rid \<and> aw_DatasourceId w = d)"
    proof (rule running_pair [OF sync ws, where T = "worker_texts sd cs insts sh"])
      show "Worker_text v \<in> worker_texts sd cs insts sh" if "v \<in> set ws" for v
        using wanted_spec [OF ws, THEN conjunct2, THEN conjunct1] that ep unfolding worker_texts_def by blast
      show "Worker_text v \<in> worker_texts sd cs insts sh" if "mget (sh_alertRules (sh ep)) h = Some v" for h v
        using that ep unfolding worker_texts_def by blast
    qed (use assms(9,14,15) ep in simp_all)
    also have "\<dots> \<longleftrightarrow> rule_assigned ?sd cs (ring_view (nm_rings (?ns ep))) rule d"
      by (rule wanted_pair [OF ws _ assms(11,12)]) (use assms(10) in simp)
    finally show ?thesis using runnable_assigned [OF assms(13)] by simp
  qed
  then show ?thesis using one by (metis (no_types, lifting))
qed

section \<open>Examples\<close>

text \<open>One host rule.\<close>

definition sample_sched :: sched_ctx where
  "sample_sched = \<lparr>sd_ac = sample_ac, sd_Endpoint = ''a:1'', sd_EngineName = ''default'', sd_cget = sample_ring,
     sd_wild = (\<lambda>n p. n = p), sd_cron = (\<lambda>p. Some (\<lambda>t. t + 15)), sd_now = 100, sd_ord = (\<lambda>ks. ks), sd_ordi = (\<lambda>ks. ks),
     sd_curEvents = (\<lambda>r d. Inr [])\<rparr>"

definition host_rule :: alert_rule where
  "host_rule = sample_rule\<lparr>r_Prod := ''host'', r_Cate := ''host''\<rparr>"

definition host_caches :: caches where
  "host_caches = \<lparr>cs_rules = Set_cache [(1, host_rule)] 1 1 (New_cache []), cs_targets = New_cache [], cs_busi = New_cache [],
     cs_mutes = New_cache [], cs_ds = New_cache \<lparr>dc_ds = [], dc_CateToIDs = [], dc_CateToNames = []\<rparr>, cs_pipelines = []\<rparr>"

lemma host_rule_kind: "\<not> (IsPrometheusRule host_rule \<or> IsInnerRule host_rule)" "IsHostRule host_rule" "r_Id host_rule = 1"
  by (simp_all add: host_rule_def IsPrometheusRule_def IsInnerRule_def IsHostRule_def sample_rule_def)

lemma host_rule_cached: "AlertRuleCache_Get (cs_rules host_caches) rid = (if rid = 1 then Some host_rule else None)"
  by (simp add: host_caches_def AlertRuleCache_Get_def Set_cache_def)

lemma host_worker_exists: "\<exists>w. worker_of (sample_sched\<lparr>sd_Endpoint := ep\<rparr>) cs rule d = Some w"
  by (simp add: worker_of_def NewAlertRuleWorker_def sample_sched_def Let_def)

lemma host_wanted:
  "\<exists>m' ws es. wanted_workers (sample_sched\<lparr>sd_Endpoint := ep\<rparr>) host_caches (GetRuleIds (\<lambda>ks. ks) (cs_rules host_caches)) m = Some (m', ws, es)"
proof -
  have ids: "GetRuleIds (\<lambda>ks. ks) (cs_rules host_caches) = [1]"
    by (simp add: GetRuleIds_def host_caches_def Set_cache_def mkeys_def)
  obtain w where "worker_of (sample_sched\<lparr>sd_Endpoint := ep\<rparr>) host_caches host_rule 0 = Some w"
    using host_worker_exists by blast
  then show ?thesis
    using host_rule_kind by (simp add: ids host_rule_cached host_worker_def worker_of_def split_beta)
qed

theorem sync_witness:
  "\<exists>rings1 sh1 started stopped rings2 sh2.
     syncAlertRules_workers sample_sched host_caches ([(''default'', [''a:1''])], \<lparr>sh_alertRules = [], sh_external = []\<rparr>) =
       Some (rings1, sh1, started, stopped) \<and>
     syncAlertRules_workers sample_sched host_caches (rings1, sh1) = Some (rings2, sh2, [], []) \<and> (\<exists>h. mhas (sh_alertRules sh1) h)"
proof -
  let ?m = "[(''default'', [''a:1''])]" and ?sh = "\<lparr>sh_alertRules = [], sh_external = []\<rparr>"
  have same: "sample_sched\<lparr>sd_Endpoint := ''a:1''\<rparr> = sample_sched" by (simp add: sample_sched_def)
  have ord: "sd_ordi sample_sched = (\<lambda>ks. ks)" "sd_ord sample_sched = (\<lambda>ks. ks)" "range_order (sd_ord sample_sched)"
    "range_order (sd_ordi sample_sched)" by (simp_all add: sample_sched_def)
  obtain m' ws es where "wanted_workers sample_sched host_caches (GetRuleIds (sd_ordi sample_sched) (cs_rules host_caches)) ?m = Some (m', ws, es)"
    using host_wanted [of "''a:1''" ?m] unfolding same ord(1) by blast
  then have "\<exists>r. syncAlertRules_workers sample_sched host_caches (?m, ?sh) = Some r"
    by (simp add: syncAlertRules_workers_def split_beta Let_def)
  then obtain rings1 sh1 started stopped where
    run: "syncAlertRules_workers sample_sched host_caches (?m, ?sh) = Some (rings1, sh1, started, stopped)"
    by (metis prod_cases4)
  obtain w where w: "worker_of sample_sched host_caches host_rule 0 = Some w"
    using host_worker_exists [of "''a:1''"] unfolding same by blast
  have "rule_assigned sample_sched host_caches (ring_view ?m) host_rule 0"
    using host_rule_kind by (simp add: rule_assigned_def hits_def ring_view_def sample_sched_def sample_ring_def)
  with w have "\<exists>rid rule d w'. AlertRuleCache_Get (cs_rules host_caches) rid = Some rule \<and>
      rule_assigned sample_sched host_caches (ring_view ?m) rule d \<and> worker_of sample_sched host_caches rule d = Some w' \<and>
      Worker_Hash (ac_env (sd_ac sample_sched)) w = Worker_Hash (ac_env (sd_ac sample_sched)) w'"
    by (intro exI [of _ 1] exI [of _ host_rule] exI [of _ 0] exI [of _ w]) (simp add: host_rule_cached)
  with sync_runs_the_assigned_workers [OF run ord(3,4), of "Worker_Hash (ac_env (sd_ac sample_sched)) w"]
  have "mhas (sh_alertRules sh1) (Worker_Hash (ac_env (sd_ac sample_sched)) w)"
    and "\<exists>rings2 sh2. syncAlertRules_workers sample_sched host_caches (rings1, sh1) = Some (rings2, sh2, [], [])" by auto
  with run show ?thesis by blast
qed

theorem runs_once_witness:
  "\<exists>sh1. (\<forall>ep \<in> {''a:1'', ''b:1''}. \<exists>rings1 started stopped. syncAlertRules_workers (sample_sched\<lparr>sd_Endpoint := ep\<rparr>) host_caches
        (nm_rings (snd (fold (cluster_step sample_naming [4]) ([(''a:1'', 100), (''b:1'', 101)] @ [(''a:1'', 110), (''b:1'', 111)])
           ([], \<lambda>_. Heartbeats)) ep), \<lparr>sh_alertRules = [], sh_external = []\<rparr>) = Some (rings1, sh1 ep, started, stopped)) \<and>
     (\<exists>!ep. ep \<in> {''a:1'', ''b:1''} \<and>
        (\<exists>h v. mget (sh_alertRules (sh1 ep)) h = Some v \<and> r_Id (aw_Rule v) = 1 \<and> aw_DatasourceId v = 0))"
proof -
  let ?ns = "snd (fold (cluster_step sample_naming [4]) ([(''a:1'', 100), (''b:1'', 101)] @ [(''a:1'', 110), (''b:1'', 111)]) ([], \<lambda>_. Heartbeats))"
  let ?sh = "\<lambda>ep::string. \<lparr>sh_alertRules = [], sh_external = []\<rparr>"
  let ?sync = "\<lambda>ep. syncAlertRules_workers (sample_sched\<lparr>sd_Endpoint := ep\<rparr>) host_caches (nm_rings (?ns ep), ?sh ep)"
  let ?f = "\<lambda>ep. the (?sync ep)"
  have ord: "range_order (sd_ord sample_sched)" "range_order (sd_ordi sample_sched)" "sd_ordi sample_sched = (\<lambda>ks. ks)"
    and name: "nc_EngineName sample_naming = sd_EngineName sample_sched" and cget: "sd_cget sample_sched = sample_ring"
    by (simp_all add: sample_sched_def sample_naming_def)
  have ids: "\<forall>rid rule. AlertRuleCache_Get (cs_rules host_caches) rid = Some rule \<longrightarrow> r_Id rule = rid"
    using host_rule_kind(3) by (simp add: host_rule_cached)
  have run: "runnable sample_sched host_caches [4] host_rule 0" using host_rule_kind by (simp add: runnable_def)
  have inj: "inj_on (x_md5 (ac_env (sd_ac sample_sched))) X" for X
    by (simp add: sample_sched_def sample_ac_def sample_env_def)
  have some: "\<exists>r. ?sync ep = Some r" for ep
    using host_wanted [of ep "nm_rings (?ns ep)"] ord(3) by (auto simp: syncAlertRules_workers_def split_beta Let_def)
  then have sync: "?sync ep = Some (fst (?f ep), fst (snd (?f ep)), fst (snd (snd (?f ep))), snd (snd (snd (?f ep))))" for ep
    using some [of ep] by (metis option.sel prod.collapse)
  have "\<exists>!ep. ep \<in> set [''a:1'', ''b:1''] \<and>
      (\<exists>h v. mget (sh_alertRules (fst (snd (?f ep)))) h = Some v \<and> r_Id (aw_Rule v) = 1 \<and> aw_DatasourceId v = 0)"
  proof (rule each_rule_runs_once_in_the_cluster [OF _ sample_cluster _ _ _ _ name ord(1,2) ids _ run _ inj])
    show "\<forall>ep \<in> set [''a:1'', ''b:1'']. ?sync ep = Some (fst (?f ep), fst (snd (?f ep)), fst (snd (snd (?f ep))), snd (snd (snd (?f ep))))"
      using sync by blast
    show "ring_lookup (sd_cget sample_sched) [''a:1'', ''b:1'']" unfolding cget by (rule sample_ring_lookup) simp
  qed (simp_all add: beats_in_def host_rule_cached scheduler_ok_def)
  then have one: "\<exists>!ep. ep \<in> {''a:1'', ''b:1''} \<and>
      (\<exists>h v. mget (sh_alertRules (fst (snd (?f ep)))) h = Some v \<and> r_Id (aw_Rule v) = 1 \<and> aw_DatasourceId v = 0)"
    unfolding list.set .
  have "\<forall>ep \<in> {''a:1'', ''b:1''}. \<exists>rings1 started stopped. ?sync ep = Some (rings1, fst (snd (?f ep)), started, stopped)"
    using sync by blast
  with one show ?thesis by (intro exI [of _ "\<lambda>ep. fst (snd (?f ep))"] conjI)
qed

end
