(* ===== verification/Float64.thy ===== *)
theory Float64
  imports Prelude
begin

text \<open>
  The \<^verbatim>\<open>float64\<close> values of the evaluation code. A finite number \<open>Fin m e\<close> is \<open>m * 2 ^ e\<close>; a result
  of an operation is the representable number with a 53-bit mantissa nearest to the exact one, ties
  to even. Exponents are unbounded, so overflow to infinity and subnormal numbers do not occur, and
  negative zero is zero. The counts, percentages and seconds of the engine stay far inside the
  range where this makes no difference.
\<close>

datatype float64 = NaN | Inf bool | Fin int int

definition f_zero :: float64 where
  "f_zero = Fin 0 0"

fun IsNaN :: "float64 \<Rightarrow> bool" where
  "IsNaN NaN = True"
| "IsNaN _ = False"

section \<open>Rounding\<close>

function bits :: "int \<Rightarrow> int" where
  "bits n = (if n \<le> 0 then 0 else 1 + bits (n div 2))"
  by auto

termination
  by (relation "measure nat") auto

declare bits.simps [simp del]

definition round_div :: "int \<Rightarrow> int \<Rightarrow> int" where
  "round_div a b =
     (let q = a div b; r = a mod b in if 2 * r < b \<or> 2 * r = b \<and> even q then q else q + 1)"

text \<open>The number nearest to \<open>a / b * 2 ^ e\<close> for positive \<open>b\<close>.\<close>

definition fl :: "int \<Rightarrow> int \<Rightarrow> int \<Rightarrow> float64" where
  "fl a b e =
     (if a = 0 then f_zero
      else let s0 = 54 + bits b - bits \<bar>a\<bar>;
               scale = (\<lambda>s. (if 0 \<le> s then (a * 2 ^ nat s, b) else (a, b * 2 ^ nat (- s))));
               wide = (case scale s0 of (n, d) \<Rightarrow> \<bar>n\<bar> div d \<ge> 2 ^ 54);
               s = (if wide then s0 - 2 else s0 - 1)
           in case scale s of (n, d) \<Rightarrow> Fin (round_div n d) (e - s))"

section \<open>Operations\<close>

definition of_int64 :: "int \<Rightarrow> float64" where
  "of_int64 n = fl n 1 0"

fun f_div :: "float64 \<Rightarrow> float64 \<Rightarrow> float64" where
  "f_div (Fin m e) (Fin n f) =
     (if n = 0 then (if m = 0 then NaN else Inf (m > 0))
      else fl (if n < 0 then - m else m) \<bar>n\<bar> (e - f))"
| "f_div (Fin m e) (Inf p) = f_zero"
| "f_div (Inf p) (Fin n f) = Inf (p = (n \<ge> 0))"
| "f_div _ _ = NaN"

fun f_mul :: "float64 \<Rightarrow> float64 \<Rightarrow> float64" where
  "f_mul (Fin m e) (Fin n f) = fl (m * n) 1 (e + f)"
| "f_mul (Fin m e) (Inf p) = (if m = 0 then NaN else Inf (p = (m > 0)))"
| "f_mul (Inf p) (Fin m e) = (if m = 0 then NaN else Inf (p = (m > 0)))"
| "f_mul (Inf p) (Inf q) = Inf (p = q)"
| "f_mul _ _ = NaN"

fun f_abs :: "float64 \<Rightarrow> float64" where
  "f_abs (Fin m e) = Fin \<bar>m\<bar> e"
| "f_abs (Inf p) = Inf True"
| "f_abs NaN = NaN"

text \<open>A comparison with \<open>NaN\<close> is false.\<close>

fun f_ge :: "float64 \<Rightarrow> float64 \<Rightarrow> bool" where
  "f_ge (Fin m e) (Fin n f) = (m * 2 ^ nat (e - min e f) \<ge> n * 2 ^ nat (f - min e f))"
| "f_ge (Fin _ _) (Inf p) = (\<not> p)"
| "f_ge (Inf p) (Fin _ _) = p"
| "f_ge (Inf p) (Inf q) = (p \<or> \<not> q)"
| "f_ge _ _ = False"

definition f_gt :: "float64 \<Rightarrow> float64 \<Rightarrow> bool" where
  "f_gt a b \<longleftrightarrow> f_ge a b \<and> \<not> f_ge b a"

text \<open>\<^verbatim>\<open>int64(f)\<close> truncates towards zero; Go leaves the other values to the implementation.\<close>

definition to_int64 :: "float64 \<Rightarrow> int" where
  "to_int64 v =
     (case v of
        Fin m e \<Rightarrow> (let n = (if 0 \<le> e then \<bar>m\<bar> * 2 ^ nat e else \<bar>m\<bar> div 2 ^ nat (- e)) in if m < 0 then - n else n)
      | _ \<Rightarrow> - (2 ^ 63))"

section \<open>Text\<close>

text \<open>\<^verbatim>\<open>%.<n>f\<close> prints the decimal number nearest to the value, and \<^verbatim>\<open>TrimRight\<close> cuts trailing characters.\<close>

definition pad_left :: "nat \<Rightarrow> string \<Rightarrow> string" where
  "pad_left n s = replicate (n - length s) CHR ''0'' @ s"

definition Sprintf_f :: "nat \<Rightarrow> float64 \<Rightarrow> string" where
  "Sprintf_f p v =
     (case v of
        NaN \<Rightarrow> ''NaN''
      | Inf pos \<Rightarrow> (if pos then ''+Inf'' else ''-Inf'')
      | Fin m e \<Rightarrow>
          (let n = \<bar>m\<bar> * 10 ^ p * 2 ^ nat e;
               q = nat (round_div n (2 ^ nat (- e)));
               ds = pad_left (Suc p) (utoa q);
               k = length ds - p
           in (if m < 0 then ''-'' else []) @ take k ds @ (if p = 0 then [] else ''.'' @ drop k ds)))"

definition TrimRight :: "string \<Rightarrow> char \<Rightarrow> string" where
  "TrimRight s c = rev (dropWhile (\<lambda>d. d = c) (rev s))"

section \<open>Lemmas\<close>

lemma round_div_error: "0 < b \<Longrightarrow> 2 * \<bar>round_div a b * b - a\<bar> \<le> b"
proof -
  assume b: "0 < b"
  have a: "a = a div b * b + a mod b" by simp
  have "0 \<le> a mod b" "a mod b < b" using b by auto
  moreover have "(a div b + 1) * b - a = b - a mod b" using a by (simp add: algebra_simps)
  moreover have "a div b * b - a = - (a mod b)" using a by linarith
  ultimately show ?thesis by (auto simp: round_div_def Let_def)
qed

lemma round_div_exact [simp]: "0 < b \<Longrightarrow> round_div (q * b) b = q"
  by (simp add: round_div_def Let_def)

lemma bits_numeral [simp]:
  "bits 0 = 0" "bits 1 = 1" "bits (numeral k) = 1 + bits (numeral k div 2)"
  by (simp_all add: bits.simps)

lemma f_ge_refl: "\<not> IsNaN v \<Longrightarrow> f_ge v v"
  by (cases v) auto

lemma f_ge_antisym_zero: "f_ge (Fin m e) (Fin n e) \<longleftrightarrow> n \<le> m"
  by simp

end
