(* ===== verification/Eval_Joins.thy ===== *)
theory Eval_Joins
  imports Alert_Types Float64
begin

text \<open>
  The series of an evaluation and how a trigger joins the answers of its queries:
  \<^verbatim>\<open>models/ts.go\<close>, \<^verbatim>\<open>pkg/hash/hash.go\<close> and the joins of \<^verbatim>\<open>alert/eval/eval.go\<close>.

  A series is known by the hash of its labels and its query, and an index sends the hash of the
  labels to the group of series that carry them. The joins build new groups from two indexes. The
  digest \<^verbatim>\<open>murmur3.Sum64\<close> is the parameter \<open>mm\<close>, the order of \<^verbatim>\<open>range\<close> over a map with integer keys the
  parameter \<open>ord\<close>. Groups are values: the evaluation sorts the slice of a group in place, and where a join
  passes a group of a query on unchanged, the triggers after it see this group sorted. This effect of one
  trigger on the next is not modelled; the theorems on joins take the indexes as they are when the joins of a trigger begin.
\<close>

section \<open>Series\<close>

type_synonym uint64 = "64 word"

record data_resp =
  dr_Ref :: string
  dr_Metric :: "(string, string) gomap"
  dr_Values :: "float64 list list"
  dr_Query :: string

definition DataResp_Last :: "data_resp \<Rightarrow> (float64 \<times> float64) option" where
  "DataResp_Last d =
     (if dr_Values d = [] then None
      else case last (dr_Values d) of [t, v] \<Rightarrow> Some (t, v) | _ \<Rightarrow> None)"

definition label :: "(string, string) gomap \<Rightarrow> string \<Rightarrow> string" where
  "label m k = (case mget m k of None \<Rightarrow> [] | Some v \<Rightarrow> v)"

definition MetricName :: "data_resp \<Rightarrow> string" where
  "MetricName d = label (dr_Metric d) ''__name__''"

definition label_path :: "(string, string) gomap \<Rightarrow> string list \<Rightarrow> string" where
  "label_path m ks = concat (map (\<lambda>k. ''/'' @ k @ ''/'' @ label m k) ks)"

definition GetHash :: "(string \<Rightarrow> uint64) \<Rightarrow> (string, string) gomap \<Rightarrow> string \<Rightarrow> uint64" where
  "GetHash mm m ref = mm (label_path m (sort (mkeys m)) @ ''/'' @ ref)"

definition GetTagHash :: "(string \<Rightarrow> uint64) \<Rightarrow> (string, string) gomap \<Rightarrow> uint64" where
  "GetTagHash mm m = mm (label_path m (sort (filter (\<lambda>k. k \<noteq> ''__name__'') (mkeys m))))"

definition GetTargetTagHash :: "(string \<Rightarrow> uint64) \<Rightarrow> (string, string) gomap \<Rightarrow> string list \<Rightarrow> uint64" where
  "GetTargetTagHash mm m target = mm (label_path m target)"

type_synonym tag_index = "(uint64, uint64 list) gomap"
type_synonym series_store = "(uint64, data_resp) gomap"
type_synonym rehashed = "(uint64, uint64 list list) gomap"

fun MakeSeriesMap ::
  "(string \<Rightarrow> uint64) \<Rightarrow> data_resp list \<Rightarrow> tag_index \<Rightarrow> series_store \<Rightarrow> tag_index \<times> series_store"
where
  "MakeSeriesMap mm [] idx store = (idx, store)"
| "MakeSeriesMap mm (s # ss) idx store =
     (let seriesHash = GetHash mm (dr_Metric s) (dr_Ref s);
          tagHash = GetTagHash mm (dr_Metric s)
      in MakeSeriesMap mm ss (mappend tagHash seriesHash idx) (mput seriesHash s store))"

section \<open>Joins\<close>

datatype join_kind = LeftJ | RightJ | InnerJ

record join_cond =
  j_JoinType :: string
  j_Ref :: string
  j_On :: "string list"

record join_trigger =
  jt_JoinRef :: string
  jt_Joins :: "join_cond list"

text \<open>The values of a map in the order of \<^verbatim>\<open>range\<close>, and a map under the keys \<open>i\<close>, \<open>i + 1\<close>, \<open>\<dots>\<close>.\<close>

definition mvals :: "('k list \<Rightarrow> 'k list) \<Rightarrow> ('k, 'v) gomap \<Rightarrow> 'v list" where
  "mvals ord m = map (\<lambda>k. the (mget m k)) (ord (mkeys m))"

fun put_from :: "uint64 \<Rightarrow> uint64 list list \<Rightarrow> tag_index \<Rightarrow> tag_index" where
  "put_from i [] m = m"
| "put_from i (g # gs) m = put_from (i + 1) gs (mput i g m)"

definition mergeNewArray :: "uint64 list list \<Rightarrow> uint64 list" where
  "mergeNewArray arg = concat arg"

definition flatten :: "(uint64 list \<Rightarrow> uint64 list) \<Rightarrow> rehashed \<Rightarrow> tag_index" where
  "flatten ord r = put_from 0 (concat (mvals ord r)) []"

definition rehash_group ::
  "(string \<Rightarrow> uint64) \<Rightarrow> series_store \<Rightarrow> string list \<Rightarrow> uint64 list \<Rightarrow> rehashed \<Rightarrow> rehashed"
where
  "rehash_group mm store on g r =
     (case g of
        [] \<Rightarrow> r
      | h # _ \<Rightarrow>
          (case mget store h of
             None \<Rightarrow> r
           | Some s \<Rightarrow> mappend (GetTargetTagHash mm (dr_Metric s) on) g r))"

definition rehashSet ::
  "(uint64 list \<Rightarrow> uint64 list) \<Rightarrow> (string \<Rightarrow> uint64) \<Rightarrow> tag_index \<Rightarrow> series_store \<Rightarrow> string list \<Rightarrow> rehashed"
where
  "rehashSet ord mm idx store on = fold (rehash_group mm store on) (mvals ord idx) []"

definition join_key :: "rehashed \<Rightarrow> rehashed \<Rightarrow> join_kind \<Rightarrow> uint64 \<Rightarrow> rehashed \<Rightarrow> rehashed" where
  "join_key r1 r2 jt k r =
     (case mget r2 k of
        Some gs2 \<Rightarrow>
          fold (\<lambda>g1. fold (\<lambda>g2. mappend k (mergeNewArray [g1, g2])) gs2) (the (mget r1 k)) r
      | None \<Rightarrow> (if jt \<noteq> InnerJ then mput k (the (mget r1 k)) r else r))"

definition onJoin :: "(uint64 list \<Rightarrow> uint64 list) \<Rightarrow> rehashed \<Rightarrow> rehashed \<Rightarrow> join_kind \<Rightarrow> rehashed" where
  "onJoin ord r1 r2 jt = fold (join_key r1 r2 jt) (ord (mkeys r1)) []"

definition cartesianJoin :: "(uint64 list \<Rightarrow> uint64 list) \<Rightarrow> tag_index \<Rightarrow> tag_index \<Rightarrow> tag_index" where
  "cartesianJoin ord i1 i2 =
     put_from 0 (concat (map (\<lambda>g1. map (\<lambda>g2. mergeNewArray [g1, g2]) (mvals ord i2)) (mvals ord i1))) []"

definition noneJoin :: "(uint64 list \<Rightarrow> uint64 list) \<Rightarrow> tag_index \<Rightarrow> tag_index \<Rightarrow> tag_index" where
  "noneJoin ord i1 i2 = put_from 0 (mvals ord i1 @ mvals ord i2) []"

definition merge_into :: "tag_index \<Rightarrow> uint64 \<Rightarrow> tag_index \<Rightarrow> tag_index" where
  "merge_into i k m =
     (case mget m k of
        None \<Rightarrow> mput k (mergeNewArray [the (mget i k)]) m
      | Some hs \<Rightarrow> mput k (hs @ the (mget i k)) m)"

definition originalJoin :: "(uint64 list \<Rightarrow> uint64 list) \<Rightarrow> tag_index \<Rightarrow> tag_index \<Rightarrow> tag_index" where
  "originalJoin ord i1 i2 =
     fold (merge_into i2) (ord (mkeys i2)) (fold (merge_into i1) (ord (mkeys i1)) [])"

definition exclude :: "(uint64 list \<Rightarrow> uint64 list) \<Rightarrow> rehashed \<Rightarrow> rehashed \<Rightarrow> rehashed" where
  "exclude ord r1 r2 =
     fold (\<lambda>k r. if mhas r2 k then r else mput k (the (mget r1 k)) r) (ord (mkeys r1)) []"

text \<open>
  One join of the chain. The state is the pair of the groups so far (\<open>last\<close>) and their rehashed form
  (\<open>lastRehashed\<close>), which the joins without a condition leave as it was.
\<close>

definition index_of :: "(string, tag_index) gomap \<Rightarrow> string \<Rightarrow> tag_index" where
  "index_of ixs ref = (case mget ixs ref of None \<Rightarrow> [] | Some i \<Rightarrow> i)"

definition join_step ::
  "(uint64 list \<Rightarrow> uint64 list) \<Rightarrow> (string \<Rightarrow> uint64) \<Rightarrow> (string, tag_index) gomap \<Rightarrow> series_store \<Rightarrow> join_cond
     \<Rightarrow> tag_index \<times> rehashed \<Rightarrow> tag_index \<times> rehashed"
where
  "join_step ord mm ixs store j st =
     (let cur = index_of ixs (j_Ref j);
          lst = fst st;
          re = snd st;
          curRehashed = rehashSet ord mm cur store (j_On j);
          keep = (\<lambda>r. (flatten ord r, r))
      in if j_JoinType j = ''original'' then (originalJoin ord lst cur, re)
         else if j_JoinType j = ''none'' then (noneJoin ord lst cur, re)
         else if j_JoinType j = ''cartesian'' then (cartesianJoin ord lst cur, re)
         else if j_JoinType j = ''inner_join'' then keep (onJoin ord re curRehashed InnerJ)
         else if j_JoinType j = ''left_join'' then keep (onJoin ord re curRehashed LeftJ)
         else if j_JoinType j = ''right_join'' then keep (onJoin ord curRehashed re RightJ)
         else if j_JoinType j = ''left_exclude'' then keep (exclude ord re curRehashed)
         else if j_JoinType j = ''right_exclude'' then keep (exclude ord curRehashed re)
         else (lst, re))"

fun join_all :: "(uint64 list \<Rightarrow> uint64 list) \<Rightarrow> tag_index list \<Rightarrow> tag_index" where
  "join_all ord [] = []"
| "join_all ord (i # is) = fold (\<lambda>j acc. originalJoin ord acc j) is i"

definition ProcessJoins ::
  "(uint64 list \<Rightarrow> uint64 list) \<Rightarrow> (string list \<Rightarrow> string list) \<Rightarrow> (string \<Rightarrow> uint64) \<Rightarrow> join_trigger
     \<Rightarrow> (string, tag_index) gomap \<Rightarrow> series_store \<Rightarrow> tag_index"
where
  "ProcessJoins ord sord mm t ixs store =
     (case jt_Joins t of
        [] \<Rightarrow> join_all ord (mvals sord ixs)
      | j # js \<Rightarrow>
          (if length ixs = 0 \<or> length ixs < length (j # js) + 1 then []
           else let lst = index_of ixs (jt_JoinRef t)
                in fst (fold (join_step ord mm ixs store) (j # js) (lst, rehashSet ord mm lst store (j_On j)))))"

section \<open>Lemmas: values and numbering\<close>

lemma mvals_mset: "range_order ord \<Longrightarrow> mwf m \<Longrightarrow> mset (mvals ord m) = mset (map snd m)"
proof -
  assume ord: "range_order ord" and m: "mwf m"
  have "mset (mvals ord m) = image_mset (\<lambda>k. the (mget m k)) (mset (mkeys m))"
    using ord by (simp add: mvals_def range_order_def)
  also have "\<dots> = mset (map (\<lambda>kv. the (mget m (fst kv))) m)" by (simp add: mkeys_def image_mset.compositionality comp_def)
  also have "map (\<lambda>kv. the (mget m (fst kv))) m = map snd m" using m by (auto simp: mwf_def)
  finally show ?thesis .
qed

lemma mput_fresh: "k \<notin> set (mkeys m) \<Longrightarrow> mput k v m = m @ [(k, v)]"
  by (induction m) (auto simp: mkeys_def)

lemma unat_of_small: "n < 2 ^ 64 \<Longrightarrow> unat (of_nat n :: uint64) = n"
  by (simp add: unat_of_nat)

lemma put_from_snd:
  "(\<And>k. k \<in> set (mkeys m) \<Longrightarrow> unat k < n) \<Longrightarrow> n + length gs \<le> 2 ^ 64 \<Longrightarrow>
     map snd (put_from (of_nat n) gs m) = map snd m @ gs"
proof (induction gs arbitrary: n m)
  case (Cons g gs)
  have n: "n < 2 ^ 64" using Cons.prems(2) by simp
  have fresh: "of_nat n \<notin> set (mkeys m)"
    using Cons.prems(1)[of "of_nat n"] n by (auto simp: unat_of_small)
  have bound: "unat k < Suc n" if "k \<in> set (mkeys (mput (of_nat n) g m))" for k
    using that n Cons.prems(1)[of k] by (auto simp: mput_fresh[OF fresh] mkeys_def unat_of_small image_iff intro: less_SucI)
  show ?case
    using Cons.IH[of "mput (of_nat n) g m" "Suc n", OF bound] Cons.prems(2)
    by (simp add: mput_fresh[OF fresh] add.commute)
qed simp

lemma put_from_0: "length gs \<le> 2 ^ 64 \<Longrightarrow> map snd (put_from 0 gs []) = gs"
  using put_from_snd[of "[]" 0 gs] by (simp add: mkeys_def)

section \<open>Lemmas: joins as relational operations\<close>

text \<open>The groups of an index and the keyed groups of a rehashed one, as multisets.\<close>

definition groups :: "tag_index \<Rightarrow> uint64 list multiset" where
  "groups i = mset (map snd i)"

definition pairs :: "rehashed \<Rightarrow> (uint64 \<times> uint64 list) multiset" where
  "pairs r = mset (concat (map (\<lambda>(k, gs). map (Pair k) gs) r))"

definition rwf :: "rehashed \<Rightarrow> bool" where
  "rwf r \<longleftrightarrow> mwf r \<and> [] \<notin> snd ` set r"

definition group_key :: "(string \<Rightarrow> uint64) \<Rightarrow> series_store \<Rightarrow> string list \<Rightarrow> uint64 list \<Rightarrow> uint64 option" where
  "group_key mm store on g =
     (if g = [] then None else map_option (\<lambda>s. GetTargetTagHash mm (dr_Metric s) on) (mget store (hd g)))"

definition relation_of ::
  "(string \<Rightarrow> uint64) \<Rightarrow> series_store \<Rightarrow> tag_index \<Rightarrow> string list \<Rightarrow> (uint64 \<times> uint64 list) multiset"
where
  "relation_of mm store i on =
     image_mset (\<lambda>g. (the (group_key mm store on g), g)) (filter_mset (\<lambda>g. group_key mm store on g \<noteq> None) (groups i))"

definition natural_join ::
  "(uint64 \<times> uint64 list) multiset \<Rightarrow> (uint64 \<times> uint64 list) multiset \<Rightarrow> (uint64 \<times> uint64 list) multiset"
where
  "natural_join R S = (\<Sum>x\<in>#R. image_mset (\<lambda>y. (fst x, snd x @ snd y)) (filter_mset (\<lambda>y. fst y = fst x) S))"

definition unmatched ::
  "(uint64 \<times> uint64 list) multiset \<Rightarrow> (uint64 \<times> uint64 list) multiset \<Rightarrow> (uint64 \<times> uint64 list) multiset"
where
  "unmatched R S = filter_mset (\<lambda>x. fst x \<notin> fst ` set_mset S) R"

lemma pairs_Nil [simp]: "pairs [] = {#}"
  by (simp add: pairs_def)

lemma pairs_append: "pairs (r @ s) = pairs r + pairs s"
  by (simp add: pairs_def)

lemma pairs_Cons [simp]: "pairs ((k, gs) # r) = mset (map (Pair k) gs) + pairs r"
  by (simp add: pairs_def)

lemma pairs_mput_fresh: "k \<notin> set (mkeys r) \<Longrightarrow> pairs (mput k gs r) = pairs r + mset (map (Pair k) gs)"
  by (simp add: mput_fresh pairs_append)

lemma pairs_mappend: "pairs (mappend k v r) = add_mset (k, v) (pairs r)"
  by (induction r) (auto simp: mappend_def split: if_splits option.splits)

lemma mkeys_Nil [simp]: "mkeys [] = []"
  by (simp add: mkeys_def)

lemma mkeys_mput: "set (mkeys (mput k v m)) = insert k (set (mkeys m))"
  by (auto simp: mkeys_def update_keys simp del: set_map)

lemma mkeys_mappend: "set (mkeys (mappend k v r)) = insert k (set (mkeys r))"
  by (simp add: mappend_def mkeys_mput)

lemma rwf_Nil [simp]: "rwf []"
  by (simp add: rwf_def)

lemma snd_mput: "snd ` set (mput k v m) \<subseteq> insert v (snd ` set m)"
  by (induction m) auto

lemma rwf_mput: "rwf r \<Longrightarrow> gs \<noteq> [] \<Longrightarrow> rwf (mput k gs r)"
  using snd_mput[of k gs r] by (auto simp: rwf_def)

lemma rwf_mappend: "rwf r \<Longrightarrow> rwf (mappend k v r)"
  by (simp add: mappend_def rwf_mput)

lemma snd_pairs: "image_mset snd (pairs r) = mset (concat (map snd r))"
  by (induction r) (auto simp: pairs_def image_mset.compositionality comp_def)

lemma fst_pairs: "rwf r \<Longrightarrow> fst ` set_mset (pairs r) = set (mkeys r)"
proof (induction r)
  case (Cons a r)
  obtain k gs where a: "a = (k, gs)" by (cases a)
  have "rwf r" "gs \<noteq> []" using Cons.prems by (auto simp: a rwf_def mwf_def)
  moreover have "(\<lambda>x. k) ` set gs = {k}" using \<open>gs \<noteq> []\<close> by (auto simp: neq_Nil_conv)
  ultimately show ?case using Cons.IH by (simp add: a mkeys_def image_Un image_image)
qed (simp add: mkeys_def)

lemma filter_pairs: "mwf r \<Longrightarrow> filter_mset (\<lambda>y. fst y = k) (pairs r) = mset (map (Pair k) (case mget r k of None \<Rightarrow> [] | Some gs \<Rightarrow> gs))"
proof (induction r)
  case (Cons a r)
  obtain k' gs where a: "a = (k', gs)" by (cases a)
  have wf: "mwf r" and k': "k' \<notin> fst ` set r" using Cons.prems by (auto simp: a mwf_def)
  have "filter_mset (\<lambda>y. fst y = k) (mset (map (Pair k') gs)) = (if k' = k then mset (map (Pair k) gs) else {#})"
    by (induction gs) auto
  moreover have "mget r k' = None" using k' by (simp add: map_of_eq_None_iff)
  ultimately show ?case using Cons.IH[OF wf] by (auto simp: a)
qed (simp add: pairs_def)

lemma pairs_by_keys: "mwf r \<Longrightarrow> pairs r = (\<Sum>k\<in>#mset (mkeys r). mset (map (Pair k) (the (mget r k))))"
proof -
  assume "mwf r"
  then have "map (\<lambda>(k, gs). map (Pair k) gs) r = map (\<lambda>k. map (Pair k) (the (mget r k))) (mkeys r)"
    by (auto simp: mwf_def mkeys_def)
  then show ?thesis
    by (simp add: pairs_def mset_concat comp_def flip: sum_mset_sum_list)
qed

text \<open>One lemma per operation on rehashed indexes.\<close>

lemma rehash_group_pairs:
  "pairs (rehash_group mm store on g r) =
     (case group_key mm store on g of None \<Rightarrow> pairs r | Some k \<Rightarrow> add_mset (k, g) (pairs r))"
  by (auto simp: rehash_group_def group_key_def pairs_mappend split: list.splits option.splits)

lemma rehash_group_rwf: "rwf r \<Longrightarrow> rwf (rehash_group mm store on g r)"
  by (auto simp: rehash_group_def rwf_mappend split: list.splits option.splits)

lemma rehash_fold:
  "pairs (fold (rehash_group mm store on) gs r) =
     pairs r + image_mset (\<lambda>g. (the (group_key mm store on g), g)) (filter_mset (\<lambda>g. group_key mm store on g \<noteq> None) (mset gs))
   \<and> (rwf r \<longrightarrow> rwf (fold (rehash_group mm store on) gs r))"
  by (induction gs arbitrary: r) (auto simp: rehash_group_pairs rehash_group_rwf split: option.splits)

lemma rehashSet_pairs:
  "range_order ord \<Longrightarrow> mwf i \<Longrightarrow> pairs (rehashSet ord mm i store on) = relation_of mm store i on"
  by (simp add: rehashSet_def rehash_fold relation_of_def groups_def mvals_mset)

lemma rehashSet_rwf: "rwf (rehashSet ord mm i store on)"
  by (simp add: rehashSet_def rehash_fold)

lemma flatten_groups:
  "range_order ord \<Longrightarrow> mwf r \<Longrightarrow> size (pairs r) \<le> 2 ^ 64 \<Longrightarrow> groups (flatten ord r) = image_mset snd (pairs r)"
proof -
  assume ord: "range_order ord" and r: "mwf r" and sz: "size (pairs r) \<le> 2 ^ 64"
  have m: "mset (concat (mvals ord r)) = image_mset snd (pairs r)"
    using mvals_mset[OF ord r] by (simp add: snd_pairs mset_concat image_mset.compositionality comp_def flip: sum_mset_sum_list)
  then have "length (concat (mvals ord r)) = size (pairs r)" by (metis size_image_mset size_mset)
  then show ?thesis using sz m by (simp add: groups_def flatten_def put_from_0 del: mset_map)
qed

text \<open>What the key \<open>k\<close> of the first index contributes to a join.\<close>

definition key_part :: "rehashed \<Rightarrow> rehashed \<Rightarrow> join_kind \<Rightarrow> uint64 \<Rightarrow> (uint64 \<times> uint64 list) multiset" where
  "key_part r1 r2 jt k =
     (case mget r2 k of
        Some gs2 \<Rightarrow> (\<Sum>a\<in>#mset (the (mget r1 k)). image_mset (\<lambda>b. (k, a @ b)) (mset gs2))
      | None \<Rightarrow> (if jt \<noteq> InnerJ then mset (map (Pair k) (the (mget r1 k))) else {#}))"

lemma merge_fold:
  "pairs (fold (\<lambda>g1. fold (\<lambda>g2. mappend k (mergeNewArray [g1, g2])) gs2) gs1 r) =
     pairs r + (\<Sum>a\<in>#mset gs1. image_mset (\<lambda>b. (k, a @ b)) (mset gs2))
   \<and> (rwf r \<longrightarrow> rwf (fold (\<lambda>g1. fold (\<lambda>g2. mappend k (mergeNewArray [g1, g2])) gs2) gs1 r))
   \<and> set (mkeys (fold (\<lambda>g1. fold (\<lambda>g2. mappend k (mergeNewArray [g1, g2])) gs2) gs1 r)) \<subseteq> insert k (set (mkeys r))"
proof (induction gs1 arbitrary: r)
  case (Cons a gs1)
  have inner: "pairs (fold (\<lambda>g2. mappend k (mergeNewArray [a, g2])) gs2 r) = pairs r + image_mset (\<lambda>b. (k, a @ b)) (mset gs2)
      \<and> (rwf r \<longrightarrow> rwf (fold (\<lambda>g2. mappend k (mergeNewArray [a, g2])) gs2 r))
      \<and> set (mkeys (fold (\<lambda>g2. mappend k (mergeNewArray [a, g2])) gs2 r)) \<subseteq> insert k (set (mkeys r))" for r
  proof (induction gs2 arbitrary: r)
    case (Cons b gs2)
    show ?case
      using Cons.IH[of "mappend k (mergeNewArray [a, b]) r"]
      by (auto simp: pairs_mappend rwf_mappend mergeNewArray_def mkeys_mappend)
  qed auto
  show ?case
    using inner[of r] Cons.IH[of "fold (\<lambda>g2. mappend k (mergeNewArray [a, g2])) gs2 r"]
    by (auto simp: ac_simps)
qed auto

lemma join_key_pairs:
  "k \<notin> set (mkeys r) \<Longrightarrow> pairs (join_key r1 r2 jt k r) = pairs r + key_part r1 r2 jt k"
  by (auto simp: join_key_def key_part_def merge_fold pairs_mput_fresh split: option.splits)

lemma join_key_keys: "set (mkeys (join_key r1 r2 jt k r)) \<subseteq> insert k (set (mkeys r))"
  using merge_fold by (auto simp: join_key_def mkeys_mput split: option.splits)

lemma join_key_rwf: "rwf r \<Longrightarrow> rwf r1 \<Longrightarrow> k \<in> set (mkeys r1) \<Longrightarrow> rwf (join_key r1 r2 jt k r)"
proof -
  assume r: "rwf r" and r1: "rwf r1" and k: "k \<in> set (mkeys r1)"
  then obtain gs where gs: "mget r1 k = Some gs" by (auto simp: in_mkeys_iff mhas_def)
  then have "gs \<noteq> []" using r1 by (force simp: rwf_def dest: map_of_SomeD)
  then show ?thesis using r merge_fold by (auto simp: join_key_def gs rwf_mput split: option.splits)
qed

text \<open>Both kinds of join run over the distinct keys of one index and add the part of each key.\<close>

lemma key_fold:
  assumes part: "\<And>k r. k \<notin> set (mkeys r) \<Longrightarrow> pairs (f k r) = pairs r + part k"
    and keys: "\<And>k r. set (mkeys (f k r)) \<subseteq> insert k (set (mkeys r))"
    and wf: "\<And>k r. k \<in> K \<Longrightarrow> rwf r \<Longrightarrow> rwf (f k r)"
  shows "distinct ks \<Longrightarrow> set ks \<subseteq> K \<Longrightarrow> set ks \<inter> set (mkeys r) = {} \<Longrightarrow> rwf r \<Longrightarrow>
    pairs (fold f ks r) = pairs r + (\<Sum>k\<in>#mset ks. part k) \<and> rwf (fold f ks r)"
proof (induction ks arbitrary: r)
  case (Cons k ks)
  have "set ks \<inter> set (mkeys (f k r)) = {}" using Cons.prems keys[of k r] by auto
  then have "pairs (fold f ks (f k r)) = pairs (f k r) + (\<Sum>k\<in>#mset ks. part k) \<and> rwf (fold f ks (f k r))"
    using Cons.prems wf by (intro Cons.IH) auto
  then show ?case using Cons.prems part[of k r] by (simp add: ac_simps)
qed simp

lemma keys_ordered:
  "range_order ord \<Longrightarrow> rwf r1 \<Longrightarrow> distinct (ord (mkeys r1)) \<and> mset (ord (mkeys r1)) = mset (mkeys r1)"
  by (auto simp: distinct_range_order distinct_mkeys rwf_def range_order_def)

lemma onJoin_parts:
  assumes ord: "range_order ord" and r1: "rwf r1"
  shows "pairs (onJoin ord r1 r2 jt) = (\<Sum>k\<in>#mset (mkeys r1). key_part r1 r2 jt k) \<and> rwf (onJoin ord r1 r2 jt)"
proof -
  have "pairs (fold (join_key r1 r2 jt) (ord (mkeys r1)) []) =
      pairs [] + (\<Sum>k\<in>#mset (ord (mkeys r1)). key_part r1 r2 jt k)
      \<and> rwf (fold (join_key r1 r2 jt) (ord (mkeys r1)) [])"
    using keys_ordered[OF ord r1] r1
    by (intro key_fold[where K = "set (mkeys r1)"])
      (auto simp: join_key_pairs join_key_rwf set_range_order[OF ord] dest: join_key_keys[THEN subsetD])
  then show ?thesis using keys_ordered[OF ord r1] by (simp add: onJoin_def)
qed

definition exclude_part :: "rehashed \<Rightarrow> rehashed \<Rightarrow> uint64 \<Rightarrow> (uint64 \<times> uint64 list) multiset" where
  "exclude_part r1 r2 k = (if mhas r2 k then {#} else mset (map (Pair k) (the (mget r1 k))))"

lemma exclude_parts:
  assumes ord: "range_order ord" and r1: "rwf r1"
  shows "pairs (exclude ord r1 r2) = (\<Sum>k\<in>#mset (mkeys r1). exclude_part r1 r2 k) \<and> rwf (exclude ord r1 r2)"
proof -
  let ?f = "\<lambda>k r. if mhas r2 k then r else mput k (the (mget r1 k)) r"
  have "the (mget r1 k) \<noteq> []" if "k \<in> set (mkeys r1)" for k
    using that r1 by (force simp: rwf_def in_mkeys_iff mhas_def dest: map_of_SomeD)
  then have "pairs (fold ?f (ord (mkeys r1)) []) = pairs [] + (\<Sum>k\<in>#mset (ord (mkeys r1)). exclude_part r1 r2 k)
      \<and> rwf (fold ?f (ord (mkeys r1)) [])"
    using keys_ordered[OF ord r1]
    by (intro key_fold[where K = "set (mkeys r1)"])
      (auto simp: exclude_part_def pairs_mput_fresh mkeys_mput rwf_mput set_range_order[OF ord])
  then show ?thesis using keys_ordered[OF ord r1] by (simp add: exclude_def)
qed

lemma natural_join_by_key: "natural_join (\<Sum>k\<in>#K. f k) S = (\<Sum>k\<in>#K. natural_join (f k) S)"
  by (induction K) (auto simp: natural_join_def)

lemma unmatched_by_key: "unmatched (\<Sum>k\<in>#K. f k) S = (\<Sum>k\<in>#K. unmatched (f k) S)"
  by (induction K) (auto simp: unmatched_def)

lemma natural_join_key:
  "rwf r2 \<Longrightarrow> natural_join (mset (map (Pair k) gs1)) (pairs r2) =
     (case mget r2 k of None \<Rightarrow> {#} | Some gs2 \<Rightarrow> (\<Sum>a\<in>#mset gs1. image_mset (\<lambda>b. (k, a @ b)) (mset gs2)))"
  by (auto simp: natural_join_def filter_pairs rwf_def image_mset.compositionality comp_def split: option.splits)

lemma unmatched_key:
  "rwf r2 \<Longrightarrow> unmatched (mset (map (Pair k) gs1)) (pairs r2) = (if mhas r2 k then {#} else mset (map (Pair k) gs1))"
  by (induction gs1) (auto simp: unmatched_def fst_pairs in_mkeys_iff)

lemma onJoin_pairs:
  assumes ord: "range_order ord" and r1: "rwf r1" and r2: "rwf r2"
  shows "pairs (onJoin ord r1 r2 jt) =
    natural_join (pairs r1) (pairs r2) + (if jt = InnerJ then {#} else unmatched (pairs r1) (pairs r2))"
proof -
  have wf: "mwf r1" using r1 by (simp add: rwf_def)
  have "key_part r1 r2 jt k = natural_join (mset (map (Pair k) (the (mget r1 k)))) (pairs r2)
      + (if jt = InnerJ then {#} else unmatched (mset (map (Pair k) (the (mget r1 k)))) (pairs r2))" for k
    by (auto simp: key_part_def natural_join_key[OF r2] unmatched_key[OF r2] mhas_def simp del: mset_map split: option.splits)
  then show ?thesis
    using onJoin_parts[OF ord r1, of r2 jt]
    by (auto simp: pairs_by_keys[OF wf] natural_join_by_key unmatched_by_key sum_mset.distrib simp del: mset_map)
qed

lemma exclude_pairs:
  assumes ord: "range_order ord" and r1: "rwf r1" and r2: "rwf r2"
  shows "pairs (exclude ord r1 r2) = unmatched (pairs r1) (pairs r2)"
proof -
  have wf: "mwf r1" using r1 by (simp add: rwf_def)
  show ?thesis
    using exclude_parts[OF ord r1, of r2]
    by (simp add: pairs_by_keys[OF wf] unmatched_by_key unmatched_key[OF r2] exclude_part_def del: mset_map)
qed

section \<open>A chain of conditional joins\<close>

definition conditional :: "join_cond \<Rightarrow> bool" where
  "conditional j \<longleftrightarrow> j_JoinType j \<in> {''inner_join'', ''left_join'', ''right_join'', ''left_exclude'', ''right_exclude''}"

definition join_spec ::
  "string \<Rightarrow> (uint64 \<times> uint64 list) multiset \<Rightarrow> (uint64 \<times> uint64 list) multiset \<Rightarrow> (uint64 \<times> uint64 list) multiset"
where
  "join_spec ty R C =
     (if ty = ''inner_join'' then natural_join R C
      else if ty = ''left_join'' then natural_join R C + unmatched R C
      else if ty = ''right_join'' then natural_join C R + unmatched C R
      else if ty = ''left_exclude'' then unmatched R C
      else unmatched C R)"

definition chain_spec ::
  "(string \<Rightarrow> uint64) \<Rightarrow> (string, tag_index) gomap \<Rightarrow> series_store \<Rightarrow> join_cond list
     \<Rightarrow> (uint64 \<times> uint64 list) multiset \<Rightarrow> (uint64 \<times> uint64 list) multiset"
where
  "chain_spec mm ixs store js R =
     fold (\<lambda>j R. join_spec (j_JoinType j) R (relation_of mm store (index_of ixs (j_Ref j)) (j_On j))) js R"

definition index_maps :: "(string, tag_index) gomap \<Rightarrow> bool" where
  "index_maps ixs \<longleftrightarrow> list_all (\<lambda>(ref, i). mwf i) ixs"

lemma index_of_wf: "index_maps ixs \<Longrightarrow> mwf (index_of ixs ref)"
  by (force simp: index_of_def index_maps_def list_all_iff split: option.splits dest: map_of_SomeD)

lemma join_step_conditional:
  assumes ord: "range_order ord" and ixs: "index_maps ixs"
    and j: "conditional j" and re: "rwf re"
  shows "\<exists>r. join_step ord mm ixs store j (l, re) = (flatten ord r, r) \<and> rwf r
    \<and> pairs r = join_spec (j_JoinType j) (pairs re) (relation_of mm store (index_of ixs (j_Ref j)) (j_On j))"
proof -
  let ?cur = "rehashSet ord mm (index_of ixs (j_Ref j)) store (j_On j)"
  have cur: "pairs ?cur = relation_of mm store (index_of ixs (j_Ref j)) (j_On j)"
    using ord ixs index_of_wf by (blast intro: rehashSet_pairs)
  note wf = onJoin_parts[OF ord, THEN conjunct2] exclude_parts[OF ord, THEN conjunct2] rehashSet_rwf
  note eqs = onJoin_pairs[OF ord] exclude_pairs[OF ord]
  show ?thesis
    using j unfolding conditional_def
    by (elim insertE emptyE) (simp_all add: join_step_def join_spec_def Let_def eqs wf re flip: cur)
qed

lemma chain_conditional:
  assumes ord: "range_order ord" and ixs: "index_maps ixs"
  shows "list_all conditional js \<Longrightarrow> js \<noteq> [] \<Longrightarrow> rwf re \<Longrightarrow>
    \<exists>r. fst (fold (join_step ord mm ixs store) js (l, re)) = flatten ord r \<and> rwf r
      \<and> pairs r = chain_spec mm ixs store js (pairs re)"
proof (induction js arbitrary: l re)
  case (Cons j js)
  obtain r where r: "join_step ord mm ixs store j (l, re) = (flatten ord r, r)" "rwf r"
      "pairs r = join_spec (j_JoinType j) (pairs re) (relation_of mm store (index_of ixs (j_Ref j)) (j_On j))"
    using join_step_conditional[OF ord ixs, where j = j and re = re and mm = mm and store = store and l = l] Cons.prems by auto
  show ?case
  proof (cases "js = []")
    case True
    then show ?thesis using r by (auto simp: chain_spec_def)
  next
    case False
    then show ?thesis using Cons.IH[of r "flatten ord r"] Cons.prems r by (simp add: chain_spec_def)
  qed
qed simp

text \<open>
  C16. A chain of conditional joins is relational algebra. Take the answers of the queries as relations
  whose rows are groups of series with the join key of the group. When every join of a trigger has a
  condition, the groups that \<open>ProcessJoins\<close> returns are exactly the rows of the relation that the
  joins compute one after the other (an inner join pairs the rows with equal keys, a left or right
  join keeps the unmatched rows of its side, an exclusion keeps only those), each as often as there,
  whatever order the maps are visited in.
\<close>

theorem joins_are_relational:
  assumes "range_order ord" and "index_maps ixs"
    and "jt_Joins t = js" and "js \<noteq> []" and "list_all conditional js" and "length js < length ixs"
    and "size (chain_spec mm ixs store js (relation_of mm store (index_of ixs (jt_JoinRef t)) (j_On (hd js)))) \<le> 2 ^ 64"
  shows "groups (ProcessJoins ord sord mm t ixs store) =
    image_mset snd (chain_spec mm ixs store js (relation_of mm store (index_of ixs (jt_JoinRef t)) (j_On (hd js))))"
proof -
  let ?l = "index_of ixs (jt_JoinRef t)"
  let ?re = "rehashSet ord mm ?l store (j_On (hd js))"
  have re: "pairs ?re = relation_of mm store ?l (j_On (hd js))"
    using assms(1,2) index_of_wf by (blast intro: rehashSet_pairs)
  obtain r where "fst (fold (join_step ord mm ixs store) js (?l, ?re)) = flatten ord r" "rwf r"
      "pairs r = chain_spec mm ixs store js (pairs ?re)"
    using chain_conditional[OF assms(1,2,5,4) rehashSet_rwf] by blast
  moreover have "ProcessJoins ord sord mm t ixs store = fst (fold (join_step ord mm ixs store) js (?l, ?re))"
    using assms(3,4,6) by (auto simp: ProcessJoins_def Let_def neq_Nil_conv)
  ultimately show ?thesis using assms(1,7) re by (simp add: flatten_groups rwf_def)
qed

lemma unconditional_keeps_rehashed:
  "j_JoinType j \<in> {''original'', ''none'', ''cartesian''} \<Longrightarrow> snd (join_step ord mm ixs store j st) = snd st"
  by (auto simp: join_step_def Let_def)

text \<open>
  A join without a condition in front of a join with one is lost: its groups are built, but the
  next conditional join starts from the rehashed groups of before, so that the query of the first
  join has no influence on the answer.
\<close>

theorem unconditional_join_is_lost:
  assumes "list_all (\<lambda>j. j_JoinType j \<in> {''original'', ''none'', ''cartesian''}) js" and "js \<noteq> []"
    and "conditional j" and "j_On (hd js) = j_On j" and "length js + 1 < length ixs"
  shows "ProcessJoins ord sord mm \<lparr>jt_JoinRef = ref, jt_Joins = js @ [j]\<rparr> ixs store =
    ProcessJoins ord sord mm \<lparr>jt_JoinRef = ref, jt_Joins = [j]\<rparr> ixs store"
proof -
  have "snd (fold (join_step ord mm ixs store) js st) = snd st" for st
    using assms(1) by (induction js arbitrary: st) (simp_all add: unconditional_keeps_rehashed)
  moreover have "join_step ord mm ixs store j st = join_step ord mm ixs store j st'" if "snd st = snd st'" for st st'
    using assms(3) that by (auto simp: join_step_def conditional_def Let_def)
  ultimately have "join_step ord mm ixs store j (fold (join_step ord mm ixs store) js st) = join_step ord mm ixs store j st" for st
    by metis
  then show ?thesis
    using assms(2,4,5) by (auto simp: ProcessJoins_def Let_def neq_Nil_conv)
qed

section \<open>Witnesses\<close>

definition sample_mm :: "string \<Rightarrow> uint64" where
  "sample_mm s = of_nat (length s)"

definition sample_series :: "string \<Rightarrow> string \<Rightarrow> data_resp" where
  "sample_series ref host = \<lparr>dr_Ref = ref, dr_Metric = [(''host'', host)], dr_Values = [], dr_Query = []\<rparr>"

definition sample_store :: series_store where
  "sample_store = [(1, sample_series ''A'' ''x''), (2, sample_series ''A'' ''yy''), (3, sample_series ''B'' ''z'')]"

definition sample_ixs :: "(string, tag_index) gomap" where
  "sample_ixs = [(''A'', [(10, [1]), (11, [2])]), (''B'', [(12, [3])]), (''C'', [])]"

lemmas sample_join_defs =
  sample_mm_def sample_series_def sample_store_def sample_ixs_def index_of_def conditional_def

theorem joins_witness:
  "groups (ProcessJoins rev rev sample_mm
       \<lparr>jt_JoinRef = ''A'', jt_Joins = [\<lparr>j_JoinType = ''left_join'', j_Ref = ''B'', j_On = [''host'']\<rparr>]\<rparr> sample_ixs sample_store) =
     {#[1, 3], [2]#}"
proof -
  let ?js = "[\<lparr>j_JoinType = ''left_join'', j_Ref = ''B'', j_On = [''host'']\<rparr>]"
  let ?t = "\<lparr>jt_JoinRef = ''A'', jt_Joins = ?js\<rparr>"
  have spec: "chain_spec sample_mm sample_ixs sample_store ?js
      (relation_of sample_mm sample_store (index_of sample_ixs ''A'') [''host'']) = {#(7, [1, 3]), (8, [2])#}"
    by (simp add: sample_join_defs chain_spec_def join_spec_def relation_of_def groups_def group_key_def natural_join_def
        unmatched_def GetTargetTagHash_def label_path_def label_def)
  show ?thesis
    using joins_are_relational[of rev sample_ixs ?t ?js sample_mm sample_store rev] spec
    by (simp add: index_maps_def mwf_def sample_ixs_def conditional_def)
qed

theorem unconditional_lost_witness:
  "ProcessJoins rev rev sample_mm
       \<lparr>jt_JoinRef = ''A'', jt_Joins = [\<lparr>j_JoinType = ''cartesian'', j_Ref = ''C'', j_On = [''host'']\<rparr>,
                                        \<lparr>j_JoinType = ''inner_join'', j_Ref = ''B'', j_On = [''host'']\<rparr>]\<rparr> sample_ixs sample_store =
     [(0, [1, 3])]"
  using unconditional_join_is_lost[of "[\<lparr>j_JoinType = ''cartesian'', j_Ref = ''C'', j_On = [''host'']\<rparr>]"
      "\<lparr>j_JoinType = ''inner_join'', j_Ref = ''B'', j_On = [''host'']\<rparr>" sample_ixs rev rev sample_mm "''A''" sample_store]
  by (simp add: sample_join_defs ProcessJoins_def join_step_def rehashSet_def rehash_group_def mvals_def mkeys_def onJoin_def join_key_def
      flatten_def mappend_def mergeNewArray_def GetTargetTagHash_def label_path_def label_def Let_def)

end
