(* ===== verification/Prom_Vars.thy ===== *)
theory Prom_Vars
  imports Eval_Joins
begin

text \<open>
  Prometheus answers and the variables of a Prometheus query: \<^verbatim>\<open>models/anomaly_point.go\<close> and the
  functions of \<^verbatim>\<open>alert/eval/eval.go\<close> that fill the variables of a query, either after one query
  without them or before one query per combination of their values.

  The client, the parser of query texts, the database of machines and the unit package are fields of
  \<open>eval_env\<close>. The client answers a text with a value, \<open>None\<close> for an error, and answers the same text alike
  during one evaluation. A result of \<open>None\<close> of a definition that says so is a panic of the code.
\<close>

section \<open>Prometheus answers\<close>

type_synonym metric = "(string, string) gomap"

datatype prom_value =
    PNil
  | PVector "(metric \<times> float64 \<times> int) list"
  | PMatrix "(metric \<times> (float64 \<times> int) list) list"
  | PScalar float64 int
  | PString

record prom_selector =
  sel_Name :: string
  sel_Op :: string
  sel_Value :: string

text \<open>A point of an evaluation: what the event processor reads, the value, and the texts with units.\<close>

record eval_point = anomaly_point +
  ep_Value :: float64
  ep_Triggered :: bool
  ep_ValuesUnit :: "(string, string) gomap"

datatype point_op = StorePoint string eval_point | DeletePoint string

record eval_env =
  ve_labels_string :: "metric \<Rightarrow> string"
  ve_query :: "string \<Rightarrow> prom_value option"
  ve_hosts :: "goval \<Rightarrow> string list option"
  ve_parse :: "string \<Rightarrow> prom_selector list list option"
  ve_removeBrackets :: "string \<Rightarrow> string"
  ve_unit_text :: "string \<Rightarrow> float64 \<Rightarrow> string"
  ve_fmt_float :: "rat \<Rightarrow> string"
  ve_ord :: "string list \<Rightarrow> string list"
  ve_mix :: "point_op list list \<Rightarrow> point_op list"

definition ReadableValue :: "(string list \<Rightarrow> string list) \<Rightarrow> (string, string) gomap \<Rightarrow> float64 \<Rightarrow> string" where
  "ReadableValue ord vu v =
     (case mvals ord vu of
        text # _ \<Rightarrow> text
      | [] \<Rightarrow> TrimRight (TrimRight (Sprintf_f 5 v) CHR ''0'') CHR ''.'')"

definition mk_point ::
  "eval_env \<Rightarrow> string \<Rightarrow> metric \<Rightarrow> int \<Rightarrow> float64 \<Rightarrow> int \<Rightarrow> string \<Rightarrow> (string, string) gomap \<Rightarrow> eval_point"
where
  "mk_point ve key labels ts v severity query vu =
     \<lparr>ap_Key = key, ap_Labels = labels, ap_Timestamp = ts, ap_ReadableValue = ReadableValue (ve_ord ve) vu v,
      ap_Severity = severity, ap_Query = query, ap_Values = [],
      ap_RecoverConfig = \<lparr>JudgeType = Origin, RecoverExp = []\<rparr>, ap_TriggerType = TriggerTypeNormal,
      ep_Value = v, ep_Triggered = False, ep_ValuesUnit = vu\<rparr>"

definition NewAnomalyPoint :: "eval_env \<Rightarrow> string \<Rightarrow> (string, string) gomap \<Rightarrow> int \<Rightarrow> float64 \<Rightarrow> int \<Rightarrow> eval_point" where
  "NewAnomalyPoint ve key labels ts v severity =
     mk_point ve key (mput ''__name__'' key labels) ts v severity [] []"

text \<open>A series of a matrix without samples ends the conversion.\<close>

fun matrix_points :: "eval_env \<Rightarrow> (metric \<times> (float64 \<times> int) list) list \<Rightarrow> eval_point list" where
  "matrix_points ve [] = []"
| "matrix_points ve ((m, vs) # items) =
     (if vs = [] then []
      else case last vs of
             (v, ts) \<Rightarrow>
               (if IsNaN v then matrix_points ve items
                else mk_point ve (ve_labels_string ve m) m ts v 0 [] [] # matrix_points ve items))"

definition ConvertAnomalyPoints :: "eval_env \<Rightarrow> prom_value \<Rightarrow> eval_point list" where
  "ConvertAnomalyPoints ve value =
     (case value of
        PVector items \<Rightarrow>
          map (\<lambda>(m, v, ts). mk_point ve (ve_labels_string ve m) m ts v 0 [] []) (filter (\<lambda>(m, v, ts). \<not> IsNaN v) items)
      | PMatrix items \<Rightarrow> matrix_points ve items
      | PScalar v ts \<Rightarrow> (if IsNaN v then [] else [mk_point ve ''{}'' [] ts v 0 [] []])
      | _ \<Rightarrow> [])"

text \<open>\<open>getSamples\<close> indexes the last sample of a series without looking whether there is one.\<close>

fun matrix_samples :: "(metric \<times> (float64 \<times> int) list) list \<Rightarrow> (metric \<times> float64 \<times> int) list option" where
  "matrix_samples [] = Some []"
| "matrix_samples ((m, vs) # items) =
     (if vs = [] then None
      else case last vs of (v, ts) \<Rightarrow> map_option (\<lambda>rest. (m, v, ts) # rest) (matrix_samples items))"

definition getSamples :: "prom_value \<Rightarrow> (metric \<times> float64 \<times> int) list option" where
  "getSamples value =
     (case value of
        PNil \<Rightarrow> None
      | PVector items \<Rightarrow> Some items
      | PMatrix items \<Rightarrow> matrix_samples items
      | _ \<Rightarrow> Some [])"

section \<open>The text of a query\<close>

text \<open>
  \<open>removeVal\<close>. Outside of braces the bytes are written as runes, so that a byte above 127 becomes two.
  \<open>seg\<close> is the text from \<^verbatim>\<open>lastIdx\<close> to \<^verbatim>\<open>curIdx\<close>.
\<close>

definition write_rune :: "char \<Rightarrow> string" where
  "write_rune c =
     (let b = (of_char c :: nat) in if b < 128 then [c] else [char_of (192 + b div 64), char_of (128 + b mod 64)])"

fun removeVal_loop :: "bool \<Rightarrow> string \<Rightarrow> bool \<Rightarrow> string \<Rightarrow> string \<Rightarrow> string" where
  "removeVal_loop start seg isVar sb [] = sb"
| "removeVal_loop start seg isVar sb (c # cs) =
     (if \<not> start then
        (if c = CHR ''{'' then removeVal_loop True [c] isVar (sb @ write_rune c) cs
         else removeVal_loop False seg isVar (sb @ write_rune c) cs)
      else
        (let isVar' = (isVar \<or> c = CHR ''$'') in
         if c = CHR '','' \<or> c = CHR ''}'' then
           (let sb' = (if isVar' then sb else sb @ (if last sb = CHR ''{'' then tl seg else seg)) in
            if c = CHR ''}'' then removeVal_loop False [c] False (sb' @ write_rune c) cs
            else removeVal_loop True [c] False sb' cs)
         else removeVal_loop True (seg @ [c]) isVar' sb cs))"

definition removeVal :: "string \<Rightarrow> string" where
  "removeVal promql = removeVal_loop False [] False [] promql"

definition Trim :: "string \<Rightarrow> char \<Rightarrow> string" where
  "Trim s c = TrimRight (dropWhile (\<lambda>d. d = c) s) c"

definition split_matcher :: "string \<Rightarrow> string list" where
  "split_matcher pair =
     (if Contains pair ''!='' then Split pair ''!=''
      else if Contains pair ''=~'' then Split pair ''=~''
      else if Contains pair ''!~'' then Split pair ''!~''
      else Split pair ''='')"

definition put_matcher :: "string \<Rightarrow> (string, string) gomap \<Rightarrow> (string, string) gomap" where
  "put_matcher pair m =
     (case split_matcher pair of
        [k, v] \<Rightarrow>
          (let value = Trim (Trim (TrimSpace v) CHR ''\"'') (CHR 0x27) in
           if HasPrefix value ''$'' then mput (tl value) (TrimSpace k) m else m)
      | _ \<Rightarrow> m)"

text \<open>The slice \<^verbatim>\<open>promql[start+1:end]\<close> panics when a closing brace comes first.\<close>

lemma Index_less: "Index s sub = Some n \<Longrightarrow> sub \<noteq> [] \<Longrightarrow> n < length s"
  by (auto simp: Index_def dest: Cut_length)

function ExtractVarMapping_loop :: "string \<Rightarrow> (string, string) gomap \<Rightarrow> (string, string) gomap option" where
  "ExtractVarMapping_loop promql m =
     (case (Index promql ''{'', Index promql ''}'') of
        (Some start, Some stop) \<Rightarrow>
          (if start + 1 > stop then None
           else ExtractVarMapping_loop (drop (stop + 1) promql)
                  (fold put_matcher (Split (drop (start + 1) (take stop promql)) '','') m))
      | _ \<Rightarrow> Some m)"
  by pat_completeness auto
termination
  by (relation "measure (\<lambda>(promql, m). length promql)") (auto dest!: Index_less [OF sym])

declare ExtractVarMapping_loop.simps [simp del]

definition ExtractVarMapping :: "string \<Rightarrow> (string, string) gomap option" where
  "ExtractVarMapping promql = ExtractVarMapping_loop promql []"

definition fillVar :: "string \<Rightarrow> string \<Rightarrow> string \<Rightarrow> string" where
  "fillVar q paramKey val =
     (let q1 = ReplaceAll q ([CHR 0x27] @ ''$'' @ paramKey @ [CHR 0x27]) ([CHR 0x27] @ val @ [CHR 0x27])
      in ReplaceAll q1 (''\"$'' @ paramKey @ ''\"'') (''\"'' @ val @ ''\"''))"

definition hasLabelLossAggregator :: "string \<Rightarrow> bool" where
  "hasLabelLossAggregator q =
     list_ex (\<lambda>fn. Contains (ToLower q) (fn @ ''(''))
       [''sum'', ''min'', ''max'', ''avg'', ''stddev'', ''stdvar'', ''count'', ''quantile'', ''group'']"

definition notExactMatch :: "string \<Rightarrow> bool" where
  "notExactMatch q \<longleftrightarrow>
     Contains (ToLower q) ''!='' \<or> Contains (ToLower q) ''=~'' \<or> Contains (ToLower q) ''!~''"

fun getString :: "eval_env \<Rightarrow> goval \<Rightarrow> string" where
  "getString ve (VStr s) = s"
| "getString ve (VFloat f) = ve_fmt_float ve f"
| "getString ve _ = []"

section \<open>The variables of a query\<close>

record param_query =
  pq_ParamType :: string
  pq_Query :: goval

type_synonym param_val = "(string, param_query) gomap"

datatype child_var_config = ChildVarConfig "param_val list" "child_var_config option"

record var_config =
  vc_ParamVal :: "(string \<times> param_query) list"
  vc_ChildVarConfigs :: "child_var_config option"

record prom_query =
  q_PromQl :: string
  q_Severity :: int
  q_VarEnabled :: bool
  q_VarConfig :: var_config
  q_Unit :: string

text \<open>All combinations, with the slice \<open>current\<close> that the recursion overwrites in place.\<close>

function combine :: "string list \<Rightarrow> (string, string list) gomap \<Rightarrow> nat \<Rightarrow> string list \<Rightarrow> string list list \<Rightarrow> string list list" where
  "combine paramKeys paraMap index current result =
     (if index \<ge> length paramKeys then result @ [current]
      else fold (\<lambda>v res. combine paramKeys paraMap (index + 1) (current[index := v]) res)
             (case mget paraMap (paramKeys ! index) of None \<Rightarrow> [] | Some vs \<Rightarrow> vs) result)"
  by pat_completeness auto
termination
  by (relation "measure (\<lambda>(paramKeys, paraMap, index, current, result). length paramKeys - index)") auto

declare combine.simps [simp del]

definition mapPermutation :: "string list \<Rightarrow> (string, string list) gomap \<Rightarrow> string list list" where
  "mapPermutation paramKeys paraMap = combine paramKeys paraMap 0 (replicate (length paramKeys) []) []"

definition JoinMark :: string where
  "JoinMark = ''@@''"

text \<open>
  The labels of a query text and its metric name, where every dollar sign is hidden from the parser,
  and the values that the samples of the metric have for a label. The label values go into the query
  text without quotation marks.
\<close>

definition note_matcher ::
  "prom_selector \<Rightarrow> (string, prom_selector) gomap \<times> string \<Rightarrow> (string, prom_selector) gomap \<times> string"
where
  "note_matcher lm st =
     (let l = lm\<lparr>sel_Value := ReplaceAll (sel_Value lm) ''____'' ''$''\<rparr> in
      if sel_Name l \<noteq> ''__name__'' then (mput (sel_Name l) l (fst st), snd st)
      else if Contains (sel_Value l) ''$'' then st
      else (fst st, sel_Value l))"

definition GetLabelsAndMetricNameWithReplace :: "eval_env \<Rightarrow> string \<Rightarrow> ((string, prom_selector) gomap \<times> string) option" where
  "GetLabelsAndMetricNameWithReplace ve ql =
     map_option (\<lambda>selectors. fold note_matcher (concat selectors) ([], []))
       (ve_parse ve (ve_removeBrackets ve (ReplaceAll ql ''$'' ''____'')))"

definition all_label_query :: "eval_env \<Rightarrow> (string, prom_selector) gomap \<Rightarrow> string \<Rightarrow> string" where
  "all_label_query ve labels metricName =
     metricName @ ''{'' @
       Join (map (\<lambda>l. sel_Name l @ sel_Op l @ sel_Value l)
               (filter (\<lambda>l. \<not> HasPrefix (sel_Value l) ''$'') (mvals (ve_ord ve) labels))) '','' @ ''}''"

definition sample_metrics :: "prom_value \<Rightarrow> metric list" where
  "sample_metrics value =
     (case value of PVector items \<Rightarrow> map fst items | PMatrix items \<Rightarrow> map fst items | _ \<Rightarrow> [])"

definition getParamKeyAllLabel :: "eval_env \<Rightarrow> string \<Rightarrow> string \<Rightarrow> string list option" where
  "getParamKeyAllLabel ve paramKey promql =
     (case GetLabelsAndMetricNameWithReplace ve promql of
        None \<Rightarrow> None
      | Some (labels, metricName) \<Rightarrow>
          map_option (\<lambda>value. ve_ord ve (remdups (List.map_filter (\<lambda>m. mget m paramKey) (sample_metrics value))))
            (ve_query ve (all_label_query ve labels metricName)))"

fun enum_strings :: "goval \<Rightarrow> string list" where
  "enum_strings (VStrs ss) = ss"
| "enum_strings (VArr vs) = map (\<lambda>v. case v of VStr s \<Rightarrow> s | _ \<Rightarrow> []) vs"
| "enum_strings _ = []"

text \<open>\<open>None\<close> is the error of the code: an unknown kind of variable, or no value for it.\<close>

definition param_values :: "eval_env \<Rightarrow> (string, string) gomap \<Rightarrow> string \<Rightarrow> string \<Rightarrow> param_query \<Rightarrow> string list option" where
  "param_values ve varToLabel promql paramKey pq =
     (let params =
        (if pq_ParamType pq = ''host'' then Some (case ve_hosts ve (pq_Query pq) of None \<Rightarrow> [] | Some hs \<Rightarrow> hs)
         else if pq_ParamType pq = ''device'' then Some []
         else if pq_ParamType pq = ''enum'' then
           Some (case enum_strings (pq_Query pq) of
                   [] \<Rightarrow> (case getParamKeyAllLabel ve (label varToLabel paramKey) promql of None \<Rightarrow> [] | Some vs \<Rightarrow> vs)
                 | v # vs \<Rightarrow> v # vs)
         else None)
      in case params of None \<Rightarrow> None | Some [] \<Rightarrow> None | Some (v # vs) \<Rightarrow> Some (v # vs))"

fun param_map ::
  "eval_env \<Rightarrow> (string, string) gomap \<Rightarrow> string \<Rightarrow> param_val \<Rightarrow> string list \<Rightarrow> (string, string list) gomap
     \<Rightarrow> (string, string list) gomap option"
where
  "param_map ve varToLabel promql pv [] acc = Some acc"
| "param_map ve varToLabel promql pv (k # ks) acc =
     (case mget pv k of
        None \<Rightarrow> None
      | Some pq \<Rightarrow>
          (case param_values ve varToLabel promql k pq of
             None \<Rightarrow> None
           | Some vs \<Rightarrow> param_map ve varToLabel promql pv ks (mput k vs acc)))"

definition getParamPermutation ::
  "eval_env \<Rightarrow> param_val \<Rightarrow> string list \<Rightarrow> (string, string) gomap \<Rightarrow> string \<Rightarrow> string list option"
where
  "getParamPermutation ve pv paramKeys varToLabel promql =
     map_option (\<lambda>pm. remdups (map (\<lambda>vs. Join vs JoinMark) (mapPermutation paramKeys pm)))
       (param_map ve varToLabel promql pv paramKeys [])"

text \<open>The variable configuration in one format, the sorted names of the parameters, and the threshold values.\<close>

definition first_params :: "var_config \<Rightarrow> param_val" where
  "first_params vc = fold (\<lambda>(name, pq). mput name pq) (vc_ParamVal vc) []"

definition calc_config :: "var_config \<Rightarrow> child_var_config" where
  "calc_config vc = ChildVarConfig [first_params vc] (vc_ChildVarConfigs vc)"

definition ParamKeys :: "var_config \<Rightarrow> string list" where
  "ParamKeys vc = sort (mkeys (filter (\<lambda>(k, pq). pq_ParamType pq \<noteq> ''threshold'') (first_params vc)))"

definition threshold_values :: "eval_env \<Rightarrow> param_val \<Rightarrow> (string, string) gomap" where
  "threshold_values ve pv =
     map (\<lambda>(k, pq). (k, getString ve (pq_Query pq))) (filter (\<lambda>(k, pq). pq_ParamType pq = ''threshold'') pv)"

definition fill_thresholds :: "eval_env \<Rightarrow> param_val \<Rightarrow> string \<Rightarrow> string" where
  "fill_thresholds ve pv q =
     (let vm = threshold_values ve pv in
      fold (\<lambda>k q. ReplaceAll q (''$'' @ k) (label vm k)) (ve_ord ve (mkeys vm)) q)"

text \<open>The nodes of the configuration from the outermost to the innermost, and their parameters in order.\<close>

fun config_params :: "child_var_config \<Rightarrow> param_val list" where
  "config_params (ChildVarConfig ps None) = ps"
| "config_params (ChildVarConfig ps (Some c)) = ps @ config_params c"

section \<open>Query first, filter by the variables after\<close>

definition sample_key :: "(string, string) gomap \<Rightarrow> string list \<Rightarrow> metric \<Rightarrow> string" where
  "sample_key varToLabel keys m = Join (map (\<lambda>k. label m (label varToLabel k)) keys) JoinMark"

definition fill_all :: "(string, string) gomap \<Rightarrow> string list \<Rightarrow> metric \<Rightarrow> string \<Rightarrow> string" where
  "fill_all varToLabel keys m q = fold (\<lambda>k q. fillVar q k (label m (label varToLabel k))) keys q"

definition sample_point ::
  "eval_env \<Rightarrow> prom_query \<Rightarrow> (string, string) gomap \<Rightarrow> string list \<Rightarrow> string \<Rightarrow> metric \<times> float64 \<times> int \<Rightarrow> eval_point"
where
  "sample_point ve q varToLabel keys realQuery smp =
     (case smp of (m, v, ts) \<Rightarrow>
        mk_point ve (ve_labels_string ve m) m ts v (q_Severity q) (fill_all varToLabel keys m realQuery) [])"

fun match_samples ::
  "eval_env \<Rightarrow> prom_query \<Rightarrow> (string, string) gomap \<Rightarrow> string list \<Rightarrow> string \<Rightarrow> (metric \<times> float64 \<times> int) list
     \<Rightarrow> string list \<Rightarrow> (string, eval_point) gomap \<Rightarrow> string list \<times> (string, eval_point) gomap"
where
  "match_samples ve q vl keys realQuery [] perm pts = (perm, pts)"
| "match_samples ve q vl keys realQuery (smp # smps) perm pts =
     (let k = sample_key vl keys (fst smp) in
      if k \<in> set perm
      then match_samples ve q vl keys realQuery smps (filter (\<lambda>p. p \<noteq> k) perm)
             (mput k (sample_point ve q vl keys realQuery smp) pts)
      else match_samples ve q vl keys realQuery smps perm pts)"

definition after_step ::
  "eval_env \<Rightarrow> prom_query \<Rightarrow> (string, string) gomap \<Rightarrow> param_val \<Rightarrow> (string, eval_point) gomap
     \<Rightarrow> (string, eval_point) gomap option"
where
  "after_step ve q vl pv pts =
     (case ve_query ve (fill_thresholds ve pv (removeVal (q_PromQl q))) of
        None \<Rightarrow> Some pts
      | Some value \<Rightarrow>
          (case getSamples value of
             None \<Rightarrow> None
           | Some smps \<Rightarrow>
               (case getParamPermutation ve pv (ParamKeys (q_VarConfig q)) vl (q_PromQl q) of
                  None \<Rightarrow> Some pts
                | Some perm \<Rightarrow>
                    (case match_samples ve q vl (ParamKeys (q_VarConfig q)) (fill_thresholds ve pv (q_PromQl q)) smps perm pts of
                       (rest, pts') \<Rightarrow> Some (fold mdel rest pts')))))"

fun after_steps ::
  "eval_env \<Rightarrow> prom_query \<Rightarrow> (string, string) gomap \<Rightarrow> param_val list \<Rightarrow> (string, eval_point) gomap
     \<Rightarrow> (string, eval_point) gomap option"
where
  "after_steps ve q vl [] pts = Some pts"
| "after_steps ve q vl (pv # pvs) pts =
     (case after_step ve q vl pv pts of None \<Rightarrow> None | Some pts' \<Rightarrow> after_steps ve q vl pvs pts')"

definition VarFillingAfterQuery :: "eval_env \<Rightarrow> prom_query \<Rightarrow> eval_point list option" where
  "VarFillingAfterQuery ve q =
     (case ExtractVarMapping (q_PromQl q) of
        None \<Rightarrow> None
      | Some vl \<Rightarrow> map_option (mvals (ve_ord ve)) (after_steps ve q vl (config_params (calc_config (q_VarConfig q))) []))"

section \<open>Fill the variables first, one query per combination\<close>

text \<open>
  The queries of a node run in goroutines that store and delete points in one map; \<open>ve_mix\<close> is the order
  in which their operations happen.
\<close>

definition real_promql :: "string list \<Rightarrow> string \<Rightarrow> string \<Rightarrow> string" where
  "real_promql keys curPromql key =
     (let parts = Split key JoinMark in
      fold (\<lambda>j q. fillVar q (keys ! j) (parts ! j)) [0..<length keys] curPromql)"

definition combination_ops ::
  "eval_env \<Rightarrow> prom_query \<Rightarrow> (string, string) gomap \<Rightarrow> string list \<Rightarrow> string \<Rightarrow> string \<Rightarrow> point_op list"
where
  "combination_ops ve q vl keys curPromql key =
     (let promql = real_promql keys curPromql key in
      case ve_query ve promql of
        None \<Rightarrow> []
      | Some value \<Rightarrow>
          (case ConvertAnomalyPoints ve value of
             [] \<Rightarrow> [DeletePoint key]
           | p # ps \<Rightarrow>
               map (\<lambda>pt. StorePoint (sample_key vl keys (ap_Labels pt))
                     (let vu = [(''v'', ve_unit_text ve (q_Unit q) (ep_Value pt))] in
                      pt\<lparr>ap_Severity := q_Severity q, ap_Query := promql, ep_ValuesUnit := vu,
                         ap_ReadableValue := ReadableValue (ve_ord ve) vu (ep_Value pt)\<rparr>)) (p # ps)))"

fun run_op :: "point_op \<Rightarrow> (string, eval_point) gomap \<Rightarrow> (string, eval_point) gomap" where
  "run_op (StorePoint k p) pts = mput k p pts"
| "run_op (DeletePoint k) pts = mdel k pts"

definition before_step ::
  "eval_env \<Rightarrow> prom_query \<Rightarrow> (string, string) gomap \<Rightarrow> param_val \<Rightarrow> (string, eval_point) gomap \<Rightarrow> (string, eval_point) gomap"
where
  "before_step ve q vl pv pts =
     (let keys = ParamKeys (q_VarConfig q) in
      case getParamPermutation ve pv keys vl (q_PromQl q) of
        None \<Rightarrow> pts
      | Some perm \<Rightarrow>
          fold run_op (ve_mix ve (map (combination_ops ve q vl keys (fill_thresholds ve pv (q_PromQl q))) (ve_ord ve perm))) pts)"

definition VarFillingBeforeQuery :: "eval_env \<Rightarrow> prom_query \<Rightarrow> eval_point list option" where
  "VarFillingBeforeQuery ve q =
     map_option (\<lambda>vl. mvals (ve_ord ve) (fold (before_step ve q vl) (config_params (calc_config (q_VarConfig q))) []))
       (ExtractVarMapping (q_PromQl q))"

section \<open>Lemmas: combinations\<close>

definition values_of :: "(string, string list) gomap \<Rightarrow> string \<Rightarrow> string list" where
  "values_of pm k = (case mget pm k of None \<Rightarrow> [] | Some vs \<Rightarrow> vs)"

lemma combine_product:
  "index \<le> length keys \<Longrightarrow> length cur = length keys \<Longrightarrow>
     combine keys pm index cur res =
       res @ map (\<lambda>vs. take index cur @ vs) (product_lists (map (values_of pm) (drop index keys)))"
proof (induction "length keys - index" arbitrary: index cur res)
  case 0
  then show ?case by (subst combine.simps) simp
next
  case (Suc n)
  let ?rest = "product_lists (map (values_of pm) (drop (Suc index) keys))"
  have idx: "index < length keys" using Suc.hyps(2) by simp
  have step: "combine keys pm (Suc index) (cur[index := v]) r = r @ map (\<lambda>vs. take index cur @ v # vs) ?rest" for v r
    using Suc.hyps(1)[of "Suc index" "cur[index := v]" r] Suc.hyps(2) Suc.prems idx
    by (simp add: take_Suc_conv_app_nth)
  have loop: "fold (\<lambda>v r. combine keys pm (Suc index) (cur[index := v]) r) vs r =
      r @ concat (map (\<lambda>v. map (\<lambda>ws. take index cur @ v # ws) ?rest) vs)" for vs r
    by (induction vs arbitrary: r) (simp_all add: step)
  have keys: "drop index keys = keys ! index # drop (Suc index) keys" using idx by (simp add: Cons_nth_drop_Suc)
  show ?case
    using idx loop
    by (subst combine.simps) (simp add: keys values_of_def map_concat comp_def)
qed

lemma mapPermutation_product: "mapPermutation keys pm = product_lists (map (values_of pm) keys)"
  by (simp add: mapPermutation_def combine_product)

section \<open>Lemmas: filtering by the variables\<close>

lemma match_samples_spec:
  "match_samples ve q vl keys rq smps perm pts = (perm', pts') \<Longrightarrow>
     set perm' = {k \<in> set perm. find (\<lambda>smp. sample_key vl keys (fst smp) = k) smps = None}
   \<and> (mwf pts \<longrightarrow> mwf pts')
   \<and> mget pts' k =
       (if k \<in> set perm
        then (case find (\<lambda>smp. sample_key vl keys (fst smp) = k) smps of
                None \<Rightarrow> mget pts k | Some smp \<Rightarrow> Some (sample_point ve q vl keys rq smp))
        else mget pts k)"
proof (induction smps arbitrary: perm pts)
  case (Cons smp smps)
  show ?case
  proof (cases "sample_key vl keys (fst smp) \<in> set perm")
    case True
    then have "match_samples ve q vl keys rq smps (filter (\<lambda>p. p \<noteq> sample_key vl keys (fst smp)) perm)
        (mput (sample_key vl keys (fst smp)) (sample_point ve q vl keys rq smp) pts) = (perm', pts')"
      using Cons.prems by (simp add: Let_def)
    from Cons.IH[OF this] show ?thesis using True by (auto split: option.splits)
  next
    case False
    then have "match_samples ve q vl keys rq smps perm pts = (perm', pts')"
      using Cons.prems by (simp add: Let_def)
    from Cons.IH[OF this] show ?thesis using False by (auto split: option.splits)
  qed
qed auto

text \<open>
  What a node of the configuration says: the combinations it covers, and for each of them the point of
  the first sample with these values, if there is one. A node whose query or whose variables fail says
  nothing.
\<close>

definition node_verdict ::
  "eval_env \<Rightarrow> prom_query \<Rightarrow> (string, string) gomap \<Rightarrow> param_val \<Rightarrow> (string set \<times> (string \<Rightarrow> eval_point option)) option"
where
  "node_verdict ve q vl pv =
     (case (ve_query ve (fill_thresholds ve pv (removeVal (q_PromQl q))),
            getParamPermutation ve pv (ParamKeys (q_VarConfig q)) vl (q_PromQl q)) of
        (Some value, Some perm) \<Rightarrow>
          Some (set perm, \<lambda>k. map_option (sample_point ve q vl (ParamKeys (q_VarConfig q)) (fill_thresholds ve pv (q_PromQl q)))
                  (find (\<lambda>smp. sample_key vl (ParamKeys (q_VarConfig q)) (fst smp) = k) (the (getSamples value))))
      | _ \<Rightarrow> None)"

definition verdict :: "(string set \<times> (string \<Rightarrow> eval_point option)) list \<Rightarrow> string \<Rightarrow> eval_point option" where
  "verdict ns k = (let cover = filter (\<lambda>n. k \<in> fst n) ns in if cover = [] then None else snd (last cover) k)"

lemma after_step_spec:
  assumes "after_step ve q vl pv pts = Some pts'"
  shows "(mwf pts \<longrightarrow> mwf pts') \<and>
    mget pts' k = (case node_verdict ve q vl pv of
                     Some (c, h) \<Rightarrow> (if k \<in> c then h k else mget pts k)
                   | None \<Rightarrow> mget pts k)"
proof (cases "node_verdict ve q vl pv")
  case None
  then show ?thesis using assms by (auto simp: after_step_def node_verdict_def split: option.splits)
next
  case (Some n)
  let ?keys = "ParamKeys (q_VarConfig q)"
  let ?rq = "fill_thresholds ve pv (q_PromQl q)"
  obtain val perm where v: "ve_query ve (fill_thresholds ve pv (removeVal (q_PromQl q))) = Some val"
      "getParamPermutation ve pv ?keys vl (q_PromQl q) = Some perm"
    using Some by (auto simp: node_verdict_def split: option.splits)
  obtain smps where smps: "getSamples val = Some smps"
    using assms v by (auto simp: after_step_def split: option.splits)
  obtain rest pts0 where ms: "match_samples ve q vl ?keys ?rq smps perm pts = (rest, pts0)" by fastforce
  have res: "pts' = fold mdel rest pts0" using assms by (simp add: after_step_def v smps ms)
  note spec = match_samples_spec[OF ms]
  have wf: "mwf (fold mdel ks m)" if "mwf m" for ks and m :: "(string, eval_point) gomap"
    using that by (induction ks arbitrary: m) auto
  show ?thesis
    using spec[of k] wf by (auto simp: res mget_fold_mdel node_verdict_def v smps split: option.splits)
qed

lemma verdict_snoc:
  "verdict (ns @ [n]) k = (if k \<in> fst n then snd n k else verdict ns k)"
  by (simp add: verdict_def Let_def)

lemma after_steps_spec:
  assumes "after_steps ve q vl pvs pts = Some pts'" and "mwf pts" and "\<And>k. mget pts k = verdict ns k"
  shows "mwf pts' \<and> (\<forall>k. mget pts' k = verdict (ns @ List.map_filter (node_verdict ve q vl) pvs) k)"
  using assms
proof (induction pvs arbitrary: pts ns)
  case Nil
  then show ?case by (simp add: List.map_filter_def)
next
  case (Cons pv pvs)
  obtain p1 where p1: "after_step ve q vl pv pts = Some p1" "after_steps ve q vl pvs p1 = Some pts'"
    using Cons.prems(1) by (auto split: option.splits)
  have wf: "mwf p1" using after_step_spec[OF p1(1)] Cons.prems(2) by blast
  show ?case
  proof (cases "node_verdict ve q vl pv")
    case None
    then have "mget p1 k = verdict ns k" for k using after_step_spec[OF p1(1), of k] Cons.prems(3) by simp
    from Cons.IH[OF p1(2) wf this] show ?thesis by (simp add: None List.map_filter_def)
  next
    case (Some n)
    then have "mget p1 k = verdict (ns @ [n]) k" for k
      using after_step_spec[OF p1(1), of k] Cons.prems(3) by (auto simp: verdict_snoc split: prod.splits)
    from Cons.IH[OF p1(2) wf this] show ?thesis by (simp add: Some List.map_filter_def)
  qed
qed

text \<open>
  C18. The innermost filter decides. For a query with variables that runs once and is filtered
  afterwards, every combination of the variables is decided by the last node of the configuration
  that covers it: there is a point for the combination exactly when that node has a sample for it,
  and it is the point of the first such sample. A node inside another one thus overrides it for its
  combinations, in both directions, and leaves the other combinations alone; a node whose query
  fails changes nothing.
\<close>

theorem innermost_filter_decides:
  assumes "VarFillingAfterQuery ve q = Some pts" and "ExtractVarMapping (q_PromQl q) = Some vl" and "range_order (ve_ord ve)"
  shows "\<exists>m. mwf m \<and> mset pts = mset (map snd m)
    \<and> (\<forall>k. mget m k = verdict (List.map_filter (node_verdict ve q vl) (config_params (calc_config (q_VarConfig q)))) k)"
proof -
  obtain m where m: "after_steps ve q vl (config_params (calc_config (q_VarConfig q))) [] = Some m" "pts = mvals (ve_ord ve) m"
    using assms(1,2) by (auto simp: VarFillingAfterQuery_def)
  have "mwf m \<and> (\<forall>k. mget m k = verdict ([] @ List.map_filter (node_verdict ve q vl) (config_params (calc_config (q_VarConfig q)))) k)"
    by (rule after_steps_spec[OF m(1)]) (simp_all add: verdict_def)
  then show ?thesis using mvals_mset[OF assms(3)] m(2) by auto
qed

section \<open>Lemmas: removing the matchers with variables\<close>

definition selector :: "string list \<Rightarrow> string" where
  "selector ms = ''{'' @ Join ms '','' @ ''}''"

definition ascii :: "string \<Rightarrow> bool" where
  "ascii s \<longleftrightarrow> list_all (\<lambda>c. (of_char c :: nat) < 128) s"

definition plain_matcher :: "string \<Rightarrow> bool" where
  "plain_matcher m \<longleftrightarrow> m \<noteq> [] \<and> CHR '','' \<notin> set m \<and> CHR ''{'' \<notin> set m \<and> CHR ''}'' \<notin> set m"

definition no_var :: "string \<Rightarrow> bool" where
  "no_var m \<longleftrightarrow> CHR ''$'' \<notin> set m"

lemma Join_concat: "Join (m # ms) [c] = m @ concat (map ((#) c) ms)"
  by (induction ms arbitrary: m) auto

lemma removeVal_outside:
  "ascii p \<Longrightarrow> CHR ''{'' \<notin> set p \<Longrightarrow> removeVal_loop False seg v sb (p @ cs) = removeVal_loop False seg v (sb @ p) cs"
  by (induction p arbitrary: sb) (auto simp: ascii_def write_rune_def Let_def)

lemma removeVal_matcher:
  "CHR '','' \<notin> set m \<Longrightarrow> CHR ''}'' \<notin> set m \<Longrightarrow>
     removeVal_loop True seg v sb (m @ cs) = removeVal_loop True (seg @ m) (v \<or> CHR ''$'' \<in> set m) sb cs"
  by (induction m arbitrary: seg v) (auto simp: Let_def eq_commute [of "CHR ''$''"])

definition kept_text :: "bool \<Rightarrow> string list \<Rightarrow> string" where
  "kept_text first ms = (if first then Join ms '','' else concat (map ((#) CHR '','') ms))"

lemma kept_text_Cons: "kept_text first (m # ms) = (if first then [] else '','') @ m @ kept_text False ms"
  by (simp add: kept_text_def Join_concat)

lemma last_append_matcher: "plain_matcher m \<Longrightarrow> last (sb @ x @ m) \<noteq> CHR ''{''"
  by (auto simp: plain_matcher_def dest: last_in_set)

lemma removeVal_inside:
  "ms \<noteq> [] \<Longrightarrow> list_all plain_matcher ms \<Longrightarrow> (last sb \<noteq> CHR ''{'' \<Longrightarrow> d = CHR '','') \<Longrightarrow>
     removeVal_loop True [d] False sb (Join ms '','' @ ''}'' @ cs) =
       removeVal_loop False ''}'' False (sb @ kept_text (last sb = CHR ''{'') (filter no_var ms) @ ''}'') cs"
proof (induction ms arbitrary: sb d)
  case (Cons m ms)
  have m: "plain_matcher m" using Cons.prems(2) by simp
  let ?sb = "if no_var m then sb @ (if last sb = CHR ''{'' then m else CHR '','' # m) else sb"
  have d: "last sb \<noteq> CHR ''{'' \<longrightarrow> d = CHR '',''" using Cons.prems(3) by blast
  have last: "last ?sb = CHR ''{'' \<longleftrightarrow> last sb = CHR ''{'' \<and> \<not> no_var m"
    using last_append_matcher[OF m, of sb "[]"] last_append_matcher[OF m, of sb "'',''"] by simp
  show ?case
  proof (cases ms)
    case Nil
    have "removeVal_loop True [d] False sb (m @ ''}'' @ cs) = removeVal_loop False ''}'' False (?sb @ ''}'') cs"
      using m d by (subst removeVal_matcher) (auto simp: plain_matcher_def no_var_def write_rune_def Let_def)
    then show ?thesis using Nil by (auto simp: kept_text_def)
  next
    case (Cons m' ms')
    have "removeVal_loop True [d] False sb (m @ '','' @ Join ms '','' @ ''}'' @ cs) =
        removeVal_loop True '','' False ?sb (Join ms '','' @ ''}'' @ cs)"
      using m d by (subst removeVal_matcher) (auto simp: plain_matcher_def no_var_def Let_def)
    also have "\<dots> = removeVal_loop False ''}'' False (?sb @ kept_text (last ?sb = CHR ''{'') (filter no_var ms) @ ''}'') cs"
      using Cons.prems(2) Cons by (intro Cons.IH) auto
    finally show ?thesis using Cons last by (auto simp: kept_text_Cons)
  qed
qed simp

lemma removeVal_selector:
  "list_all plain_matcher ms \<Longrightarrow>
     removeVal_loop False seg False sb (selector ms @ cs) = removeVal_loop False ''}'' False (sb @ selector (filter no_var ms)) cs"
proof (cases "ms = []")
  case False
  assume "list_all plain_matcher ms"
  then show ?thesis
    using removeVal_inside[OF False, of "sb @ ''{''" "CHR ''{''" cs]
    by (simp add: selector_def write_rune_def kept_text_def Let_def)
qed (simp add: selector_def write_rune_def Let_def)

lemma removeVal_parts:
  "list_all (\<lambda>(p, ms). ascii p \<and> CHR ''{'' \<notin> set p \<and> list_all plain_matcher ms) parts \<Longrightarrow>
     removeVal_loop False seg False sb (concat (map (\<lambda>(p, ms). p @ selector ms) parts) @ cs) =
       removeVal_loop False (if parts = [] then seg else ''}'') False
         (sb @ concat (map (\<lambda>(p, ms). p @ selector (filter no_var ms)) parts)) cs"
proof (induction parts arbitrary: seg sb)
  case (Cons a parts)
  obtain p ms where a: "a = (p, ms)" by (cases a)
  then show ?case
    using Cons.prems Cons.IH[of "''}''" "sb @ p @ selector (filter no_var ms)"]
    by (simp add: removeVal_outside removeVal_selector)
qed simp

text \<open>
  \<open>removeVal\<close> drops exactly the matchers with a variable. A query text that alternates ASCII text
  without an opening brace and selectors, whose matchers contain no comma and no brace, keeps its text and
  in every selector the matchers without a dollar sign, in their order and with correct commas,
  an empty selector included.
\<close>

theorem removeVal_drops_variable_matchers:
  assumes "list_all (\<lambda>(p, ms). ascii p \<and> CHR ''{'' \<notin> set p \<and> list_all plain_matcher ms) parts"
    and "ascii rest" and "CHR ''{'' \<notin> set rest"
  shows "removeVal (concat (map (\<lambda>(p, ms). p @ selector ms) parts) @ rest) =
    concat (map (\<lambda>(p, ms). p @ selector (filter no_var ms)) parts) @ rest"
  using removeVal_parts[OF assms(1), of "[]" "[]" rest] removeVal_outside[OF assms(2,3), where cs = "[]"]
  by (simp add: removeVal_def)

theorem removeVal_witness:
  "removeVal ''mem{a=\"$a\",b=\"b\",c=\"$c\"} > $v and up{h=\"$h\"} == 1'' = ''mem{b=\"b\"} > $v and up{} == 1''"
  using removeVal_drops_variable_matchers[of
      "[(''mem'', [''a=\"$a\"'', ''b=\"b\"'', ''c=\"$c\"'']), ('' > $v and up'', [''h=\"$h\"''])]" "'' == 1''"]
  by (simp add: ascii_def plain_matcher_def no_var_def selector_def)

section \<open>Lemmas: braces inside a matcher\<close>

lemma Index_char: "c \<notin> set a \<Longrightarrow> Index (a @ c # b) [c] = Some (length a)"
  by (simp add: Index_def Cut_char)

definition no_braces :: "string \<Rightarrow> bool" where
  "no_braces s \<longleftrightarrow> CHR ''{'' \<notin> set s \<and> CHR ''}'' \<notin> set s"

lemma extract_stops_at_inner_brace:
  assumes "no_braces p" and "no_braces a" and "no_braces b" and "no_braces c" and "no_braces d"
  shows "ExtractVarMapping (p @ ''{'' @ a @ ''{'' @ b @ ''}'' @ c @ ''}'' @ d @ ''{'' @ e) = None"
proof -
  let ?rest = "c @ CHR ''}'' # d @ CHR ''{'' # e"
  define X where "X = p @ CHR ''{'' # a @ CHR ''{'' # b"
  let ?q = "X @ CHR ''}'' # ?rest"
  have open1: "Index ?q ''{'' = Some (length p)" using assms(1) by (simp add: X_def Index_char no_braces_def)
  have close1: "Index ?q ''}'' = Some (length X)" using assms by (intro Index_char) (auto simp: X_def no_braces_def)
  have len: "length p < length X" by (simp add: X_def)
  have "Index ((c @ CHR ''}'' # d) @ CHR ''{'' # e) ''{'' = Some (length (c @ CHR ''}'' # d))"
    using assms by (intro Index_char) (auto simp: no_braces_def)
  then have open2: "Index ?rest ''{'' = Some (length c + length d + 1)" by simp
  have close2: "Index ?rest ''}'' = Some (length c)" using assms(4) by (simp add: Index_char no_braces_def)
  have "ExtractVarMapping_loop ?rest m = None" for m
    by (subst ExtractVarMapping_loop.simps) (simp add: open2 close2)
  then have "ExtractVarMapping_loop ?q [] = None"
    using len by (subst ExtractVarMapping_loop.simps) (simp add: open1 close1)
  then show ?thesis by (simp add: ExtractVarMapping_def X_def)
qed

section \<open>Witness: an inner filter takes a point away\<close>

definition sample_ve :: eval_env where
  "sample_ve =
     \<lparr>ve_labels_string = (\<lambda>m. label m ''host''),
      ve_query = (\<lambda>q. if q = ''mem{} > 1'' then Some (PVector [([(''host'', ''a'')], Fin 5 0, 100), ([(''host'', ''b'')], Fin 7 0, 100)])
                       else if q = ''mem{} > 9'' then Some (PVector []) else None),
      ve_hosts = (\<lambda>_. None), ve_parse = (\<lambda>_. None), ve_removeBrackets = (\<lambda>q. q), ve_unit_text = (\<lambda>_ _. []),
      ve_fmt_float = (\<lambda>_. []), ve_ord = (\<lambda>ks. ks), ve_mix = concat\<rparr>"

definition sample_q :: prom_query where
  "sample_q =
     \<lparr>q_PromQl = ''mem{host=\"$h\"} > $v'', q_Severity = 2, q_VarEnabled = True,
      q_VarConfig = \<lparr>vc_ParamVal = [(''h'', \<lparr>pq_ParamType = ''enum'', pq_Query = VStrs [''a'', ''b'']\<rparr>),
                                     (''v'', \<lparr>pq_ParamType = ''threshold'', pq_Query = VStr ''1''\<rparr>)],
                      vc_ChildVarConfigs = Some (ChildVarConfig
                        [[(''h'', \<lparr>pq_ParamType = ''enum'', pq_Query = VStrs [''b'']\<rparr>),
                          (''v'', \<lparr>pq_ParamType = ''threshold'', pq_Query = VStr ''9''\<rparr>)]] None)\<rparr>,
      q_Unit = []\<rparr>"


definition outer_params :: param_val where
  "outer_params = [(''h'', \<lparr>pq_ParamType = ''enum'', pq_Query = VStrs [''a'', ''b'']\<rparr>),
                   (''v'', \<lparr>pq_ParamType = ''threshold'', pq_Query = VStr ''1''\<rparr>)]"
definition inner_params :: param_val where
  "inner_params = [(''h'', \<lparr>pq_ParamType = ''enum'', pq_Query = VStrs [''b'']\<rparr>),
                   (''v'', \<lparr>pq_ParamType = ''threshold'', pq_Query = VStr ''9''\<rparr>)]"

lemma sample_vars:
  "ExtractVarMapping (q_PromQl sample_q) = Some [(''h'', ''host'')]"
  "removeVal (q_PromQl sample_q) = ''mem{} > $v''"
  "ParamKeys (q_VarConfig sample_q) = [''h'']"
  "config_params (calc_config (q_VarConfig sample_q)) = [outer_params, inner_params]"
  "fill_thresholds sample_ve outer_params ''mem{} > $v'' = ''mem{} > 1''"
  "fill_thresholds sample_ve inner_params ''mem{} > $v'' = ''mem{} > 9''"
  "getParamPermutation sample_ve outer_params [''h''] [(''h'', ''host'')] (q_PromQl sample_q) = Some [''a'', ''b'']"
  "getParamPermutation sample_ve inner_params [''h''] [(''h'', ''host'')] (q_PromQl sample_q) = Some [''b'']"
  by code_simp+

definition sample_hit :: eval_point where
  "sample_hit = sample_point sample_ve sample_q [(''h'', ''host'')] [''h''] (fill_thresholds sample_ve outer_params (q_PromQl sample_q)) ([(''host'', ''a'')], Fin 5 0, 100)"


lemma sample_answers:
  "ve_query sample_ve ''mem{} > 1'' = Some (PVector [([(''host'', ''a'')], Fin 5 0, 100), ([(''host'', ''b'')], Fin 7 0, 100)])"
  "ve_query sample_ve ''mem{} > 9'' = Some (PVector [])"
  "ve_ord sample_ve = (\<lambda>ks. ks)"
  by (simp_all add: sample_ve_def)

theorem innermost_filter_witness:
  "VarFillingAfterQuery sample_ve sample_q = Some [sample_hit] \<and>
   (\<exists>m. mset [sample_hit] = mset (map snd m) \<and> mget m ''a'' = Some sample_hit \<and> mget m ''b'' = None)"
proof -
  have run: "VarFillingAfterQuery sample_ve sample_q = Some [sample_hit]"
    by (simp add: VarFillingAfterQuery_def sample_vars after_step_def sample_answers getSamples_def sample_key_def label_def
        mvals_def mkeys_def sample_hit_def Let_def)
  obtain m where m: "mset [sample_hit] = mset (map snd m)"
      "\<And>k. mget m k = verdict (List.map_filter (node_verdict sample_ve sample_q [(''h'', ''host'')]) [outer_params, inner_params]) k"
    using innermost_filter_decides[OF run sample_vars(1)] by (auto simp: sample_vars sample_answers)
  have "mget m ''a'' = Some sample_hit" "mget m ''b'' = None"
    by (simp_all add: m(2) verdict_def node_verdict_def List.map_filter_def sample_vars sample_answers getSamples_def
        sample_key_def label_def sample_hit_def)
  then show ?thesis using run m(1) by blast
qed

end
