(* ===== verification/Target_Cache.thy ===== *)
theory Target_Cache
  imports Memsto Float64
begin

text \<open>
  The machines in memory: \<^verbatim>\<open>memsto/target_cache.go\<close>, \<^verbatim>\<open>memsto/host_alert_rule_targets.go\<close> and the
  readers of Redis in \<^verbatim>\<open>models/target.go\<close>. The heartbeats and the measurements of a machine are kept in
  Redis; the store is \<open>None\<close> where the engine has none, and a function from keys to values otherwise,
  which answers \<open>None\<close> for a missing key and for a failed command. The JSON decoders are arguments.
\<close>

type_synonym redis = "string \<Rightarrow> string option"

record host_meta =
  hm_Hostname :: string
  hm_CpuNum :: int
  hm_Offset :: int

section \<open>Reading Redis\<close>

definition MGet :: "redis \<Rightarrow> string list \<Rightarrow> string list" where
  "MGet r keys = List.map_filter r keys"

definition WrapIdent :: "string \<Rightarrow> string" where
  "WrapIdent ident = ''n9e_meta_'' @ ident"

definition WrapIdentUpdateTime :: "string \<Rightarrow> string" where
  "WrapIdentUpdateTime ident = ''n9e_meta_update_time_'' @ ident"

definition fetchBeatTimeBatch ::
  "(string \<Rightarrow> (string \<times> int) option) \<Rightarrow> redis \<Rightarrow> string list \<Rightarrow> (string, int) gomap \<Rightarrow> (string, int) gomap"
where
  "fetchBeatTimeBatch un r keys result =
     fold (\<lambda>v m. case un v of None \<Rightarrow> m | Some (ident, t) \<Rightarrow> mput ident t m) (MGet r keys) result"

text \<open>Both readers ask for a hundred keys at a time; \<open>keys\<close> is the batch being collected.\<close>

fun fetch_loop ::
  "(string \<Rightarrow> (string \<times> int) option) \<Rightarrow> redis \<Rightarrow> string list \<Rightarrow> string list \<Rightarrow> (string, int) gomap \<Rightarrow> (string, int) gomap"
where
  "fetch_loop un r [] keys result = (if keys \<noteq> [] then fetchBeatTimeBatch un r keys result else result)"
| "fetch_loop un r (i # is) keys result =
     (let keys' = keys @ [WrapIdentUpdateTime i] in
      if length keys' = 100 then fetch_loop un r is [] (fetchBeatTimeBatch un r keys' result)
      else fetch_loop un r is keys' result)"

definition FetchBeatTimesFromRedis ::
  "(string \<Rightarrow> (string \<times> int) option) \<Rightarrow> redis option \<Rightarrow> string list \<Rightarrow> (string, int) gomap"
where
  "FetchBeatTimesFromRedis un redis idents =
     (case redis of None \<Rightarrow> [] | Some r \<Rightarrow> (if idents = [] then [] else fetch_loop un r idents [] []))"

definition meta_batch ::
  "(string \<Rightarrow> host_meta option) \<Rightarrow> redis \<Rightarrow> string list \<Rightarrow> (string, host_meta) gomap \<Rightarrow> (string, host_meta) gomap"
where
  "meta_batch un r keys result =
     fold (\<lambda>v m. case un v of None \<Rightarrow> m | Some meta \<Rightarrow> mput (hm_Hostname meta) meta m) (MGet r keys) result"

fun meta_loop ::
  "(string \<Rightarrow> host_meta option) \<Rightarrow> redis \<Rightarrow> string list \<Rightarrow> string list \<Rightarrow> (string, host_meta) gomap \<Rightarrow> (string, host_meta) gomap"
where
  "meta_loop un r [] keys result = meta_batch un r keys result"
| "meta_loop un r (i # is) keys result =
     (let keys' = keys @ [WrapIdent i] in
      if length keys' = 100 then meta_loop un r is [] (meta_batch un r keys' result)
      else meta_loop un r is keys' result)"

definition GetHostMetas ::
  "(string \<Rightarrow> host_meta option) \<Rightarrow> redis option \<Rightarrow> target list \<Rightarrow> (string, host_meta) gomap"
where
  "GetHostMetas un redis targets =
     (case redis of None \<Rightarrow> [] | Some r \<Rightarrow> meta_loop un r (map t_Ident targets) [] [])"

section \<open>The cache of machines\<close>

record target_cache =
  tg_cache :: "(string, target) gomap stat_cache"
  tg_index :: "(string, string list) gomap"
  tg_metaSyncCycle :: int

record redis_env =
  rd_redis :: "redis option"
  rd_un_beat :: "string \<Rightarrow> (string \<times> int) option"
  rd_un_meta :: "string \<Rightarrow> host_meta option"
  rd_ord :: "string list \<Rightarrow> string list"

definition NewTargetCache :: target_cache where
  "NewTargetCache = \<lparr>tg_cache = New_cache [], tg_index = [], tg_metaSyncCycle = 0\<rparr>"

definition TargetCache_Reset :: "target_cache \<Rightarrow> target_cache" where
  "TargetCache_Reset tc = tc\<lparr>tg_cache := Reset [] (tg_cache tc), tg_index := []\<rparr>"

definition ip_index :: "(string list \<Rightarrow> string list) \<Rightarrow> (string, target) gomap \<Rightarrow> (string, string list) gomap" where
  "ip_index ord m = fold (\<lambda>ident. mappend (t_HostIp (the (mget m ident))) ident) (ord (mkeys m)) []"

definition TargetCache_Set :: "(string list \<Rightarrow> string list) \<Rightarrow> (string, target) gomap \<Rightarrow> int \<Rightarrow> int \<Rightarrow> target_cache \<Rightarrow> target_cache" where
  "TargetCache_Set ord m cnt lastUpdated tc =
     tc\<lparr>tg_cache := Set_cache m cnt lastUpdated (tg_cache tc), tg_index := ip_index ord m\<rparr>"

definition TargetCache_Gets :: "(string, target) gomap stat_cache \<Rightarrow> string list \<Rightarrow> target list" where
  "TargetCache_Gets c idents = List.map_filter (\<lambda>ident. mget (sc_data c) ident) idents"

definition GetByIp :: "target_cache \<Rightarrow> string \<Rightarrow> target list option" where
  "GetByIp tc ip =
     (case mget (tg_index tc) ip of
        None \<Rightarrow> None
      | Some idents \<Rightarrow>
          (let targs = TargetCache_Gets (tg_cache tc) idents in if length targs > 0 then Some targs else None))"

definition GetAllBeatTime :: "(string, target) gomap stat_cache \<Rightarrow> (string, int) gomap" where
  "GetAllBeatTime c = map (\<lambda>(ident, t). (ident, t_BeatTime t)) (sc_data c)"

definition FillMeta :: "host_meta \<Rightarrow> target \<Rightarrow> target" where
  "FillMeta meta t = t\<lparr>t_CpuNum := hm_CpuNum meta, t_Offset := hm_Offset meta\<rparr>"

definition put_beat :: "(string, int) gomap \<Rightarrow> string \<Rightarrow> target \<Rightarrow> target" where
  "put_beat beats ident t = (case mget beats ident of None \<Rightarrow> t | Some ts \<Rightarrow> t\<lparr>t_BeatTime := ts\<rparr>)"

definition put_meta :: "(string, host_meta) gomap \<Rightarrow> string \<Rightarrow> target \<Rightarrow> target" where
  "put_meta metas ident t = (case mget metas ident of None \<Rightarrow> t | Some meta \<Rightarrow> FillMeta meta t)"

definition map_targets :: "(string \<Rightarrow> target \<Rightarrow> target) \<Rightarrow> target_cache \<Rightarrow> target_cache" where
  "map_targets f tc = tc\<lparr>tg_cache := (tg_cache tc)\<lparr>sc_data := map (\<lambda>(i, t). (i, f i t)) (sc_data (tg_cache tc))\<rparr>\<rparr>"

definition refreshBeatTime :: "redis_env \<Rightarrow> target_cache \<Rightarrow> target_cache" where
  "refreshBeatTime rd tc =
     map_targets (put_beat (FetchBeatTimesFromRedis (rd_un_beat rd) (rd_redis rd) (rd_ord rd (mkeys (sc_data (tg_cache tc)))))) tc"

definition refreshHostMetas :: "redis_env \<Rightarrow> target_cache \<Rightarrow> target_cache" where
  "refreshHostMetas rd tc =
     map_targets (put_meta (GetHostMetas (rd_un_meta rd) (rd_redis rd)
        (TargetCache_Gets (tg_cache tc) (rd_ord rd (mkeys (sc_data (tg_cache tc))))))) tc"

definition FillTargetsBeatTime :: "redis_env \<Rightarrow> target list \<Rightarrow> target list" where
  "FillTargetsBeatTime rd targets =
     (let beats = FetchBeatTimesFromRedis (rd_un_beat rd) (rd_redis rd) (map t_Ident targets)
      in map (\<lambda>t. put_beat beats (t_Ident t) t) targets)"

definition load_targets :: "redis_env \<Rightarrow> target list \<Rightarrow> (string, target) gomap" where
  "load_targets rd lst =
     (let metas = GetHostMetas (rd_un_meta rd) (rd_redis rd) lst;
          filled = map (\<lambda>t. put_meta metas (t_Ident t) t) lst
      in by_id t_Ident (FillTargetsBeatTime rd filled))"

definition syncTargets ::
  "redis_env \<Rightarrow> (int \<times> int, target list) poll \<Rightarrow> target_cache \<Rightarrow> sync_outcome \<times> target_cache"
where
  "syncTargets rd q tc =
     (case fst q of
        Inl _ \<Rightarrow> (StatisticsFailed, tc)
      | Inr (cnt, lastUpdated) \<Rightarrow>
          (if \<not> StatChanged (tg_cache tc) cnt lastUpdated
           then (let tc1 = refreshBeatTime rd tc;
                     cycle = tg_metaSyncCycle tc1 + 1
                 in (NotChanged, if cycle \<ge> 6 then refreshHostMetas rd (tc1\<lparr>tg_metaSyncCycle := 0\<rparr>)
                                 else tc1\<lparr>tg_metaSyncCycle := cycle\<rparr>))
           else case snd q of
                  Inl _ \<Rightarrow> (RecordsFailed, tc)
                | Inr lst \<Rightarrow>
                    (Success (length lst),
                     (TargetCache_Set (rd_ord rd) (load_targets rd lst) cnt lastUpdated tc)\<lparr>tg_metaSyncCycle := 0\<rparr>)))"

text \<open>A machine whose heartbeat is not in Redis keeps the one in the cache.\<close>

definition GetHostUpdateTime ::
  "redis_env \<Rightarrow> (string, target) gomap stat_cache \<Rightarrow> string list \<Rightarrow> (string, int) gomap"
where
  "GetHostUpdateTime rd c idents =
     (case rd_redis rd of
        None \<Rightarrow> []
      | Some r \<Rightarrow>
          fold (\<lambda>ident m. if mhas m ident then m
                          else case TargetCache_Get c ident of None \<Rightarrow> m | Some t \<Rightarrow> mput ident (t_BeatTime t) m)
            idents (FetchBeatTimesFromRedis (rd_un_beat rd) (rd_redis rd) idents))"

definition GetOffsetHost :: "(string, target) gomap stat_cache \<Rightarrow> target list \<Rightarrow> int \<Rightarrow> int \<Rightarrow> (string, int) gomap" where
  "GetOffsetHost c targets now offset =
     fold (\<lambda>t m. case TargetCache_Get c (t_Ident t) of
                   None \<Rightarrow> m
                 | Some t' \<Rightarrow>
                     (if t_CpuNum t' \<le> 0 then m
                      else if now - t_BeatTime t' > 120 then m
                      else if to_int64 (f_abs (of_int64 (t_Offset t'))) > offset then mput (t_Ident t') (t_Offset t') m else m)) targets []"

section \<open>The machines of the host rules\<close>

text \<open>
  At the central site the table is computed again only when the signature of its inputs changed; the
  signature and the table are answers of the database.
\<close>

record rule_targets_cache =
  rt_lastSig :: string
  rt_targets :: "(string, (int, string list) gomap) gomap"

definition RuleTargets_Get :: "rule_targets_cache \<Rightarrow> string \<Rightarrow> int \<Rightarrow> string list option" where
  "RuleTargets_Get c engineName rid =
     (case mget (rt_targets c) engineName of None \<Rightarrow> None | Some m \<Rightarrow> mget m rid)"

definition syncRuleTargets ::
  "bool \<Rightarrow> string option \<Rightarrow> (string, (int, string list) gomap) gomap option \<Rightarrow> rule_targets_cache \<Rightarrow> bool \<times> rule_targets_cache"
where
  "syncRuleTargets isCenter sig table c =
     (if isCenter \<and> sig = Some (rt_lastSig c) then (True, c)
      else case table of
             None \<Rightarrow> (False, c)
           | Some m \<Rightarrow>
               (let c1 = c\<lparr>rt_targets := m\<rparr> in
                (True, case (if isCenter then sig else None) of None \<Rightarrow> c1 | Some s \<Rightarrow> c1\<lparr>rt_lastSig := s\<rparr>)))"

section \<open>Lemmas: batches\<close>

lemma fetchBeatTimeBatch_simps [simp]:
  "fetchBeatTimeBatch un r [] result = result"
  "fetchBeatTimeBatch un r (k # ks) result =
     fetchBeatTimeBatch un r ks
       (case r k of None \<Rightarrow> result | Some v \<Rightarrow> (case un v of None \<Rightarrow> result | Some (i, t) \<Rightarrow> mput i t result))"
  by (simp_all add: fetchBeatTimeBatch_def MGet_def List.map_filter_def split: option.split)

lemma fetchBeatTimeBatch_append:
  "fetchBeatTimeBatch un r (ks @ ks') result = fetchBeatTimeBatch un r ks' (fetchBeatTimeBatch un r ks result)"
  by (induction ks arbitrary: result) simp_all

lemma fetch_loop_batch:
  "fetch_loop un r is keys result = fetchBeatTimeBatch un r (keys @ map WrapIdentUpdateTime is) result"
  by (induction "is" arbitrary: keys result) (auto simp: Let_def fetchBeatTimeBatch_append)

lemma meta_batch_simps [simp]:
  "meta_batch un r [] result = result"
  "meta_batch un r (k # ks) result =
     meta_batch un r ks
       (case r k of None \<Rightarrow> result
        | Some v \<Rightarrow> (case un v of None \<Rightarrow> result | Some meta \<Rightarrow> mput (hm_Hostname meta) meta result))"
  by (simp_all add: meta_batch_def MGet_def List.map_filter_def split: option.split)

lemma meta_batch_append: "meta_batch un r (ks @ ks') result = meta_batch un r ks' (meta_batch un r ks result)"
  by (induction ks arbitrary: result) simp_all

lemma meta_loop_batch: "meta_loop un r is keys result = meta_batch un r (keys @ map WrapIdent is) result"
  by (induction "is" arbitrary: keys result) (simp_all add: Let_def meta_batch_append)

text \<open>What Redis says of a machine, where every value names the machine of its key.\<close>

definition stored_beat :: "redis_env \<Rightarrow> string \<Rightarrow> int option" where
  "stored_beat rd ident =
     (case rd_redis rd of
        None \<Rightarrow> None
      | Some r \<Rightarrow> (case r (WrapIdentUpdateTime ident) of None \<Rightarrow> None | Some v \<Rightarrow> map_option snd (rd_un_beat rd v)))"

definition beats_named :: "redis_env \<Rightarrow> bool" where
  "beats_named rd \<longleftrightarrow>
     (\<forall>r ident v j t. rd_redis rd = Some r \<longrightarrow> r (WrapIdentUpdateTime ident) = Some v \<longrightarrow> rd_un_beat rd v = Some (j, t) \<longrightarrow> j = ident)"

lemma batch_lookup:
  assumes "beats_named rd" and "rd_redis rd = Some r"
  shows "mget (fetchBeatTimeBatch (rd_un_beat rd) r (map WrapIdentUpdateTime is) m) i =
    (if i \<in> set is \<and> stored_beat rd i \<noteq> None then stored_beat rd i else mget m i)"
proof (induction "is" arbitrary: m)
  case (Cons j "is")
  let ?m = "case r (WrapIdentUpdateTime j) of None \<Rightarrow> m
      | Some v \<Rightarrow> (case rd_un_beat rd v of None \<Rightarrow> m | Some (i, t) \<Rightarrow> mput i t m)"
  have name: "k = j" if "r (WrapIdentUpdateTime j) = Some v" "rd_un_beat rd v = Some (k, t)" for v k t
    using assms that by (simp add: beats_named_def)
  have one: "mget ?m i = (if i = j \<and> stored_beat rd i \<noteq> None then stored_beat rd i else mget m i)"
    using name by (auto simp: stored_beat_def assms(2) split: option.splits)
  show ?case using Cons.IH[of ?m] one by (cases "i = j") auto
qed simp

lemma FetchBeatTimes_lookup:
  assumes "beats_named rd"
  shows "mget (FetchBeatTimesFromRedis (rd_un_beat rd) (rd_redis rd) is) i = (if i \<in> set is then stored_beat rd i else None)"
  using batch_lookup[OF assms, of _ "is" "[]" i]
  by (auto simp: FetchBeatTimesFromRedis_def fetch_loop_batch stored_beat_def split: option.splits)

text \<open>The time of the last heartbeat that the evaluation of a host rule sees.\<close>

lemma GetHostUpdateTime_lookup:
  assumes "beats_named rd" and "rd_redis rd \<noteq> None"
  shows "mget (GetHostUpdateTime rd c is) i =
    (if i \<in> set is then (case stored_beat rd i of Some t \<Rightarrow> Some t | None \<Rightarrow> map_option t_BeatTime (TargetCache_Get c i)) else None)"
proof -
  let ?f = "\<lambda>ident m. if mhas m ident then m
      else case TargetCache_Get c ident of None \<Rightarrow> m | Some t \<Rightarrow> mput ident (t_BeatTime t) m"
  have "mget (fold ?f js m) i = (case mget m i of Some t \<Rightarrow> Some t
      | None \<Rightarrow> (if i \<in> set js then map_option t_BeatTime (TargetCache_Get c i) else None))" for js m
    by (induction js arbitrary: m) (auto simp: mhas_def split: option.splits)
  moreover have "GetHostUpdateTime rd c is = fold ?f is (FetchBeatTimesFromRedis (rd_un_beat rd) (rd_redis rd) is)"
    using assms(2) by (auto simp: GetHostUpdateTime_def)
  ultimately show ?thesis by (simp add: FetchBeatTimes_lookup[OF assms(1)] split: option.splits)
qed

section \<open>Lemmas: the index by address\<close>

definition members_at :: "target_cache \<Rightarrow> string \<Rightarrow> string list" where
  "members_at tc ip = (case mget (tg_index tc) ip of None \<Rightarrow> [] | Some is \<Rightarrow> is)"

definition at_address :: "target_cache \<Rightarrow> string \<Rightarrow> string \<Rightarrow> bool" where
  "at_address tc ip i \<longleftrightarrow> (\<exists>t. mget (sc_data (tg_cache tc)) i = Some t \<and> t_HostIp t = ip)"

definition index_ok :: "target_cache \<Rightarrow> bool" where
  "index_ok tc \<longleftrightarrow> (\<forall>ip i. i \<in> set (members_at tc ip) \<longleftrightarrow> at_address tc ip i)"

lemma set_keeps_index:
  assumes "range_order ord"
  shows "index_ok (TargetCache_Set ord m cnt lu tc)"
proof -
  have "set (case mget (ip_index ord m) ip of None \<Rightarrow> [] | Some is \<Rightarrow> is) =
      {i \<in> set (mkeys m). t_HostIp (the (mget m i)) = ip}" for ip
    unfolding ip_index_def by (subst mget_fold_mappend) (auto simp: set_range_order[OF assms])
  then show ?thesis
    by (auto simp: index_ok_def members_at_def at_address_def TargetCache_Set_def Set_cache_def Let_def in_mkeys_iff mhas_def)
qed

lemma map_targets_lookup:
  "mget (sc_data (tg_cache (map_targets f tc))) i = map_option (f i) (mget (sc_data (tg_cache tc)) i)"
proof -
  have "mget (map (\<lambda>(i, t). (i, f i t)) m) i = map_option (f i) (mget m i)" for m by (induction m) auto
  then show ?thesis by (simp add: map_targets_def)
qed

lemma map_targets_keeps_index:
  assumes "index_ok tc" and "\<And>i t. t_HostIp (f i t) = t_HostIp t"
  shows "index_ok (map_targets f tc)"
proof -
  have "at_address (map_targets f tc) ip i = at_address tc ip i" for ip i
    using assms(2) by (auto simp: at_address_def map_targets_lookup)
  moreover have "members_at (map_targets f tc) ip = members_at tc ip" for ip
    by (simp add: members_at_def map_targets_def)
  ultimately show ?thesis using assms(1) by (simp add: index_ok_def)
qed

lemma put_beat_ip [simp]: "t_HostIp (put_beat beats i t) = t_HostIp t"
  by (simp add: put_beat_def split: option.split)

lemma put_meta_ip [simp]: "t_HostIp (put_meta metas i t) = t_HostIp t"
  by (simp add: put_meta_def FillMeta_def split: option.split)

lemma refresh_keeps_index:
  "index_ok tc \<Longrightarrow> index_ok (refreshBeatTime rd tc)"
  "index_ok tc \<Longrightarrow> index_ok (refreshHostMetas rd tc)"
  by (simp_all add: refreshBeatTime_def refreshHostMetas_def map_targets_keeps_index)

lemma cycle_keeps_index [simp]: "index_ok (tc\<lparr>tg_metaSyncCycle := n\<rparr>) = index_ok tc"
  by (simp add: index_ok_def members_at_def at_address_def)

lemma syncTargets_keeps_index:
  assumes "range_order (rd_ord rd)" and "index_ok tc"
  shows "index_ok (snd (syncTargets rd q tc))"
  using assms by (auto simp: syncTargets_def refresh_keeps_index set_keeps_index Let_def split: sum.splits)

lemma GetByIp_members:
  "(case GetByIp tc ip of None \<Rightarrow> [] | Some ts \<Rightarrow> ts) = TargetCache_Gets (tg_cache tc) (members_at tc ip)"
  by (auto simp: GetByIp_def members_at_def TargetCache_Gets_def List.map_filter_def Let_def split: option.splits)

text \<open>
  Machines by address. After any sequence of polls of the machine cache, with any answers of the
  database and of Redis, asking for the machines at an address answers exactly the cached machines
  with this address, and answers nothing when there is none.
\<close>

theorem machines_by_address:
  assumes "range_order (rd_ord rd)"
    and "tc = fold (\<lambda>q tc. snd (syncTargets rd q tc)) qs NewTargetCache"
  shows "set (case GetByIp tc ip of None \<Rightarrow> [] | Some ts \<Rightarrow> ts) =
      {t. \<exists>i. TargetCache_Get (tg_cache tc) i = Some t \<and> t_HostIp t = ip}
    \<and> GetByIp tc ip \<noteq> Some []"
proof -
  have start: "index_ok NewTargetCache"
    by (simp add: index_ok_def members_at_def at_address_def NewTargetCache_def New_cache_def)
  have "index_ok (fold (\<lambda>q tc. snd (syncTargets rd q tc)) qs tc0)" if "index_ok tc0" for tc0
    using that by (induction qs arbitrary: tc0) (simp_all add: syncTargets_keeps_index[OF assms(1)])
  then have "index_ok tc" using start assms(2) by blast
  then have "i \<in> set (members_at tc ip) \<longleftrightarrow> at_address tc ip i" for i by (simp add: index_ok_def)
  then have "set (TargetCache_Gets (tg_cache tc) (members_at tc ip)) =
      {t. \<exists>i. TargetCache_Get (tg_cache tc) i = Some t \<and> t_HostIp t = ip}"
    by (force simp: TargetCache_Gets_def List.map_filter_def at_address_def TargetCache_Get_def)
  moreover have "GetByIp tc ip \<noteq> Some []" by (auto simp: GetByIp_def Let_def split: option.splits)
  ultimately show ?thesis by (simp add: GetByIp_members)
qed

definition sample_target :: target where
  "sample_target = \<lparr>t_Ident = ''web1'', t_Note = [], t_GroupId = 1, t_GroupIds = [1], t_GroupNames = [], t_EngineName = [],
     t_TagsMap = [], t_HostIp = ''10.0.0.1'', t_BeatTime = 0, t_CpuNum = 0, t_Offset = 0\<rparr>"

theorem machines_by_address_witness:
  "\<exists>ts. GetByIp (snd (syncTargets \<lparr>rd_redis = None, rd_un_beat = (\<lambda>_. None), rd_un_meta = (\<lambda>_. None), rd_ord = (\<lambda>ks. ks)\<rparr>
       (Inr (1, 5), Inr [sample_target]) NewTargetCache)) ''10.0.0.1'' = Some ts \<and> set ts = {sample_target}"
proof -
  let ?rd = "\<lparr>rd_redis = None, rd_un_beat = (\<lambda>_. None), rd_un_meta = (\<lambda>_. None), rd_ord = (\<lambda>ks. ks)\<rparr>"
  let ?tc = "snd (syncTargets ?rd (Inr (1, 5), Inr [sample_target]) NewTargetCache)"
  have data: "TargetCache_Get (tg_cache ?tc) i = (if i = ''web1'' then Some sample_target else None)" for i
    by (simp add: syncTargets_def NewTargetCache_def New_cache_def StatChanged_def load_targets_def TargetCache_Set_def Set_cache_def
        TargetCache_Get_def GetHostMetas_def FillTargetsBeatTime_def FetchBeatTimesFromRedis_def put_beat_def put_meta_def
        by_id_def sample_target_def Let_def)
  have ip: "t_HostIp sample_target = ''10.0.0.1''" by (simp add: sample_target_def)
  have "set (case GetByIp ?tc ''10.0.0.1'' of None \<Rightarrow> [] | Some ts \<Rightarrow> ts) = {sample_target}"
    using machines_by_address[of ?rd ?tc "[(Inr (1, 5), Inr [sample_target])]" "''10.0.0.1''"]
    ip by (auto simp: data split: if_splits)
  then show ?thesis by (cases "GetByIp ?tc ''10.0.0.1''") simp_all
qed

end
