(* ===== verification/Rule_Eval.thy ===== *)
theory Rule_Eval
  imports Scheduler Prom_Vars Target_Cache
begin

text \<open>
  The evaluation of a rule, \<open>Eval\<close> of \<^verbatim>\<open>alert/eval/eval.go\<close>: the anomaly points of Prometheus rules, of
  host rules and of rules over other data sources, and what the event processor is given.

  The field \<open>rv_data\<close> answers a query of a data source plug-in (\<open>None\<close> an error), \<open>rv_calc\<close> is the expression
  evaluator, the \<open>rv_un\<close> fields decode rule configurations. An evaluation answers \<open>None\<close> where the code
  panics, and otherwise an error or the points.
\<close>

section \<open>Configurations\<close>

record prom_rule_config =
  pc_Queries :: "prom_query list"
  pc_Inhibit :: bool

record host_trigger =
  ht_Type :: string
  ht_Duration :: int
  ht_Percent :: int
  ht_Severity :: int

record host_rule_config =
  hc_Triggers :: "host_trigger list"
  hc_Inhibit :: bool

record trigger = join_trigger +
  tr_Exp :: string
  tr_Severity :: int
  tr_RecoverConfig :: recover_config

record nodata_trigger =
  nd_Enable :: bool
  nd_Severity :: int
  nd_ResolveAfterEnable :: bool
  nd_ResolveAfter :: int

record rule_query =
  rq_Inhibit :: bool
  rq_Queries :: "goval list"
  rq_ExpTriggerDisable :: bool
  rq_Triggers :: "trigger list"
  rq_NodataTrigger :: nodata_trigger

datatype mval = MFloat float64 | MStr string

record rule_env =
  rv_ve :: eval_env
  rv_rd :: redis_env
  rv_rule_targets :: rule_targets_cache
  rv_client :: bool \<comment> \<open>a Prometheus client for the data source is there\<close>
  rv_plug :: bool \<comment> \<open>a plug-in for the data source is there\<close>
  rv_IsCenter :: bool
  rv_now :: int
  rv_interval :: int \<comment> \<open>the seconds between two runs of the schedule\<close>
  rv_mm :: "string \<Rightarrow> uint64"
  rv_ordu :: "uint64 list \<Rightarrow> uint64 list"
  rv_data :: "goval \<Rightarrow> data_resp list option"
  rv_tmpl :: "string \<Rightarrow> string option"
  rv_calc :: "string \<Rightarrow> (string, mval) gomap \<Rightarrow> bool"
  rv_ref_unit :: "goval \<Rightarrow> string \<times> string"
  rv_fmt_query :: "goval list \<Rightarrow> trigger \<Rightarrow> string"
  rv_fmt_time :: "int \<Rightarrow> string"
  rv_fmt_value :: "float64 \<Rightarrow> string"
  rv_un_prom :: "string \<Rightarrow> prom_rule_config option option"
  rv_un_host :: "string \<Rightarrow> host_rule_config option option"
  rv_un_query :: "string \<Rightarrow> rule_query option"

record eval_worker = alert_rule_worker +
  ew_Inhibit :: bool
  ew_LastSeriesStore :: series_store

datatype eval_error = BadConfig | NilConfig | NoPlugin | QueryFailed

section \<open>Prometheus rules\<close>

text \<open>
  The answer of one query: the points, or the error that ends the evaluation. Without a client and for
  a blank text the query is passed over.
\<close>

definition plain_query :: "eval_env \<Rightarrow> prom_query \<Rightarrow> eval_error + eval_point list" where
  "plain_query ve q =
     (let promql = TrimSpace (q_PromQl q) in
      if promql = [] then Inr []
      else case ve_query ve promql of
             None \<Rightarrow> Inl QueryFailed
           | Some v \<Rightarrow>
               Inr (map (\<lambda>pt. let vu = [(''v'', ve_unit_text ve (q_Unit q) (ep_Value pt))] in
                       pt\<lparr>ap_Severity := q_Severity q, ap_Query := promql, ep_ValuesUnit := vu,
                          ap_ReadableValue := ReadableValue (ve_ord ve) vu (ep_Value pt)\<rparr>)
                    (ConvertAnomalyPoints ve v)))"

definition prom_query_points :: "rule_env \<Rightarrow> prom_query \<Rightarrow> (eval_error + eval_point list) option" where
  "prom_query_points rv q =
     (if \<not> rv_client rv then Some (Inr [])
      else if q_VarEnabled q \<and> Contains (q_PromQl q) ''$'' then
        map_option Inr
          (if hasLabelLossAggregator (q_PromQl q) \<or> notExactMatch (q_PromQl q)
           then VarFillingBeforeQuery (rv_ve rv) q else VarFillingAfterQuery (rv_ve rv) q)
      else Some (plain_query (rv_ve rv) q))"

fun prom_queries :: "rule_env \<Rightarrow> prom_query list \<Rightarrow> eval_point list \<Rightarrow> (eval_error + eval_point list) option" where
  "prom_queries rv [] lst = Some (Inr lst)"
| "prom_queries rv (q # qs) lst =
     (case prom_query_points rv q of
        None \<Rightarrow> None
      | Some (Inl e) \<Rightarrow> Some (Inl e)
      | Some (Inr pts) \<Rightarrow> prom_queries rv qs (lst @ pts))"

definition GetPromAnomalyPoint ::
  "rule_env \<Rightarrow> string \<Rightarrow> eval_worker \<Rightarrow> ((eval_error + eval_point list) \<times> eval_worker) option"
where
  "GetPromAnomalyPoint rv ruleConfig w =
     (case rv_un_prom rv ruleConfig of
        None \<Rightarrow> Some (Inl BadConfig, w)
      | Some None \<Rightarrow> Some (Inl NilConfig, w)
      | Some (Some cfg) \<Rightarrow>
          map_option (\<lambda>res. (res, w\<lparr>ew_Inhibit := pc_Inhibit cfg\<rparr>)) (prom_queries rv (pc_Queries cfg) []))"

section \<open>Host rules\<close>

definition stale :: "int \<Rightarrow> (string list \<Rightarrow> string list) \<Rightarrow> (string, int) gomap \<Rightarrow> string list" where
  "stale t ord seen = filter (\<lambda>i. the (mget seen i) < t) (ord (mkeys seen))"

definition miss_points :: "rule_env \<Rightarrow> caches \<Rightarrow> string \<Rightarrow> int \<Rightarrow> host_trigger \<Rightarrow> eval_point list" where
  "miss_points rv cs engine rid tr =
     (let t = rv_now rv - ht_Duration tr;
          missEngine = (if rv_IsCenter rv then (case RuleTargets_Get (rv_rule_targets rv) [] rid of None \<Rightarrow> [] | Some l \<Rightarrow> l) else []);
          engineIdents = (case RuleTargets_Get (rv_rule_targets rv) engine rid of None \<Rightarrow> [] | Some l \<Rightarrow> l);
          idents = missEngine @ engineIdents
      in if idents = [] then []
         else map (\<lambda>tg. NewAnomalyPoint (rv_ve rv) (ht_Type tr) (mput ''ident'' (t_Ident tg) (t_TagsMap tg)) (rv_now rv)
                     (of_int64 (rv_now rv - t_BeatTime tg)) (ht_Severity tr))
                (TargetCache_Gets (cs_targets cs)
                   (stale t (rd_ord (rv_rd rv)) (GetHostUpdateTime (rv_rd rv) (cs_targets cs) idents))))"

definition offset_idents ::
  "rule_env \<Rightarrow> host_trigger \<Rightarrow> (string, target) gomap \<Rightarrow> (string, host_meta) gomap \<Rightarrow> (string, int) gomap"
where
  "offset_idents rv tr targetMap metas =
     fold (\<lambda>ident m.
        (let meta = the (mget metas ident) in
         if hm_CpuNum meta \<le> 0 then m
         else if (case mget targetMap ident of None \<Rightarrow> False | Some tg \<Rightarrow> rv_now rv - t_BeatTime tg > 120) then m
         else if f_gt (f_abs (of_int64 (hm_Offset meta))) (of_int64 (ht_Duration tr)) then mput ident (hm_Offset meta) m
         else m)) (rd_ord (rv_rd rv) (mkeys metas)) []"

definition offset_points :: "rule_env \<Rightarrow> caches \<Rightarrow> string \<Rightarrow> int \<Rightarrow> host_trigger \<Rightarrow> eval_point list" where
  "offset_points rv cs engine rid tr =
     (case RuleTargets_Get (rv_rule_targets rv) engine rid of
        None \<Rightarrow> []
      | Some idents \<Rightarrow>
          (let targets = TargetCache_Gets (cs_targets cs) idents;
               offs = offset_idents rv tr (by_id t_Ident targets) (GetHostMetas (rd_un_meta (rv_rd rv)) (rd_redis (rv_rd rv)) targets)
           in map (\<lambda>host. NewAnomalyPoint (rv_ve rv) (ht_Type tr)
                     (mput ''ident'' host (case TargetCache_Get (cs_targets cs) host of None \<Rightarrow> [] | Some tg \<Rightarrow> t_TagsMap tg))
                     (rv_now rv) (of_int64 (the (mget offs host))) (ht_Severity tr))
                (rd_ord (rv_rd rv) (mkeys offs))))"

definition pct_points :: "rule_env \<Rightarrow> caches \<Rightarrow> string \<Rightarrow> int \<Rightarrow> host_trigger \<Rightarrow> eval_point list" where
  "pct_points rv cs engine rid tr =
     (case RuleTargets_Get (rv_rule_targets rv) engine rid of
        None \<Rightarrow> []
      | Some idents \<Rightarrow>
          (let missTargets = stale (rv_now rv - ht_Duration tr) (rd_ord (rv_rd rv))
                               (GetHostUpdateTime (rv_rd rv) (cs_targets cs) idents);
               pct = f_mul (f_div (of_int64 (int (length missTargets))) (of_int64 (int (length idents)))) (of_int64 100)
           in if f_ge pct (of_int64 (ht_Percent tr))
              then [NewAnomalyPoint (rv_ve rv) (ht_Type tr) [] (rv_now rv) pct (ht_Severity tr)] else []))"

definition host_points :: "rule_env \<Rightarrow> caches \<Rightarrow> string \<Rightarrow> int \<Rightarrow> host_trigger \<Rightarrow> eval_point list" where
  "host_points rv cs engine rid tr =
     (if ht_Type tr = ''target_miss'' then miss_points rv cs engine rid tr
      else if ht_Type tr = ''offset'' then offset_points rv cs engine rid tr
      else if ht_Type tr = ''pct_target_miss'' then pct_points rv cs engine rid tr
      else [])"

definition GetHostAnomalyPoint ::
  "rule_env \<Rightarrow> caches \<Rightarrow> string \<Rightarrow> eval_worker \<Rightarrow> (eval_error + eval_point list) \<times> eval_worker"
where
  "GetHostAnomalyPoint rv cs ruleConfig w =
     (case rv_un_host rv ruleConfig of
        None \<Rightarrow> (Inl BadConfig, w)
      | Some None \<Rightarrow> (Inl NilConfig, w)
      | Some (Some cfg) \<Rightarrow>
          (Inr (concat (map (host_points rv cs (p_EngineName (aw_Processor w)) (r_Id (aw_Rule w))) (hc_Triggers cfg))),
           w\<lparr>ew_Inhibit := hc_Inhibit cfg\<rparr>))"

section \<open>Rules over other data sources\<close>

definition ExecuteSqlTemplate :: "rule_env \<Rightarrow> string \<Rightarrow> string option" where
  "ExecuteSqlTemplate rv q =
     (if \<not> Contains q ''{{'' \<or> \<not> Contains q ''}}'' then Some q else rv_tmpl rv q)"

text \<open>The query is rendered in place; an error of the template leaves it as it is.\<close>

definition ExecuteQueryTemplate :: "rule_env \<Rightarrow> goval \<Rightarrow> goval" where
  "ExecuteQueryTemplate rv q =
     (case q of
        VObj m \<Rightarrow>
          (case mget m ''sql'' of
             Some (VStr sql) \<Rightarrow>
               (case ExecuteSqlTemplate rv sql of None \<Rightarrow> q | Some sql' \<Rightarrow> VObj (mput ''sql'' (VStr sql') m))
           | _ \<Rightarrow> q)
      | _ \<Rightarrow> q)"

definition GetQueryRef :: "goval \<Rightarrow> string option" where
  "GetQueryRef q =
     (case q of VObj m \<Rightarrow> (case mget m ''ref'' of Some (VStr s) \<Rightarrow> Some s | _ \<Rightarrow> None) | _ \<Rightarrow> None)"

fun collect_series ::
  "rule_env \<Rightarrow> goval list \<Rightarrow> series_store \<Rightarrow> (string, tag_index) gomap
     \<Rightarrow> eval_error + series_store \<times> (string, tag_index) gomap"
where
  "collect_series rv [] store ixs = Inr (store, ixs)"
| "collect_series rv (q # qs) store ixs =
     (if \<not> rv_plug rv then Inl NoPlugin
      else let q' = ExecuteQueryTemplate rv q in
           case rv_data rv q' of
             None \<Rightarrow> Inl QueryFailed
           | Some series \<Rightarrow>
               (case MakeSeriesMap (rv_mm rv) series [] store of
                  (idx, store') \<Rightarrow>
                    collect_series rv qs store'
                      (case GetQueryRef q' of None \<Rightarrow> ixs | Some ref \<Rightarrow> mput ref idx ixs)))"

definition GetQueryRefAndUnit :: "rule_env \<Rightarrow> goval \<Rightarrow> string \<times> string" where
  "GetQueryRefAndUnit rv q = rv_ref_unit rv q"

definition unit_map :: "rule_env \<Rightarrow> goval list \<Rightarrow> (string, string) gomap" where
  "unit_map rv qs = fold (\<lambda>q. case GetQueryRefAndUnit rv (ExecuteQueryTemplate rv q) of (ref, u) \<Rightarrow> mput ref u) qs []"

record group_state =
  gs_m :: "(string, mval) gomap"
  gs_units :: "(string, string) gomap"
  gs_ts :: int
  gs_sample :: data_resp
  gs_value :: float64

definition no_sample :: data_resp where
  "no_sample = \<lparr>dr_Ref = [], dr_Metric = [], dr_Values = [], dr_Query = []\<rparr>"

definition put_labels :: "trigger \<Rightarrow> data_resp \<Rightarrow> (string, mval) gomap \<Rightarrow> (string, mval) gomap" where
  "put_labels tr s m =
     fold (\<lambda>(k, v) m. if k = ''__name__'' then m
                      else if \<not> Contains (tr_Exp tr) (''$'' @ dr_Ref s @ ''.'' @ k) then m
                      else mput (''$'' @ dr_Ref s @ ''.'' @ k) (MStr v) m) (dr_Metric s) m"

definition group_series ::
  "rule_env \<Rightarrow> trigger \<Rightarrow> (string, string) gomap \<Rightarrow> series_store \<Rightarrow> uint64 \<Rightarrow> group_state \<Rightarrow> group_state"
where
  "group_series rv tr units store h g =
     (case mget store h of
        None \<Rightarrow> g
      | Some s \<Rightarrow>
          (case DataResp_Last s of
             None \<Rightarrow> g
           | Some (t, v) \<Rightarrow>
               (if \<not> Contains (tr_Exp tr) (''$'' @ dr_Ref s) then g
                else let name = ''$'' @ dr_Ref s @ ''.'' @ MetricName s in
                     \<lparr>gs_m = put_labels tr s (mput name (MFloat v) (mput (''$'' @ dr_Ref s) (MFloat v) (gs_m g))),
                      gs_units = (case mget units (dr_Ref s) of
                                    None \<Rightarrow> gs_units g
                                  | Some u \<Rightarrow> mput name (ve_unit_text (rv_ve rv) u v) (gs_units g)),
                      gs_ts = to_int64 t, gs_sample = s, gs_value = v\<rparr>)))"

definition group_values :: "rule_env \<Rightarrow> group_state \<Rightarrow> string" where
  "group_values rv g =
     concat (map (\<lambda>k. case mget (gs_units g) k of
                        Some text \<Rightarrow> k @ '':'' @ text @ '' ''
                      | None \<Rightarrow> (case the (mget (gs_m g) k) of
                                   MFloat v \<Rightarrow> k @ '':'' @ Sprintf_f 3 v @ '' ''
                                 | MStr v \<Rightarrow> k @ '':'' @ v @ '' ''))
               (filter (\<lambda>k. Contains k ''.'') (ve_ord (rv_ve rv) (mkeys (gs_m g)))))"

text \<open>The point of a group: \<open>Inl\<close> an anomaly, \<open>Inr\<close> a recovery, \<open>None\<close> neither.\<close>

definition group_point ::
  "rule_env \<Rightarrow> goval list \<Rightarrow> trigger \<Rightarrow> (string, string) gomap \<Rightarrow> series_store \<Rightarrow> uint64 list \<Rightarrow> (eval_point + eval_point) option"
where
  "group_point rv queries tr units store hs =
     (let g = fold (group_series rv tr units store) (sort hs)
                \<lparr>gs_m = [], gs_units = [], gs_ts = 0, gs_sample = no_sample, gs_value = f_zero\<rparr>;
          isTriggered = rv_calc rv (tr_Exp tr) (gs_m g);
          qs = (if dr_Query (gs_sample g) \<noteq> [] then [VStr (dr_Query (gs_sample g))] else queries);
          pt = (mk_point (rv_ve rv) (MetricName (gs_sample g)) (dr_Metric (gs_sample g)) (gs_ts g) (gs_value g) (tr_Severity tr)
                  (rv_fmt_query rv qs tr) (gs_units g))
               \<lparr>ap_Values := group_values rv g, ap_RecoverConfig := tr_RecoverConfig tr, ep_Triggered := isTriggered\<rparr>
      in if isTriggered then Some (Inl pt)
         else if JudgeType (tr_RecoverConfig tr) = RecoverOnCondition
                 \<and> \<not> rv_calc rv (RecoverExp (tr_RecoverConfig tr)) (gs_m g) then None
         else Some (Inr pt))"

definition trigger_points ::
  "rule_env \<Rightarrow> goval list \<Rightarrow> (string, string) gomap \<Rightarrow> series_store \<Rightarrow> (string, tag_index) gomap \<Rightarrow> trigger
     \<Rightarrow> (eval_point + eval_point) list"
where
  "trigger_points rv queries units store ixs tr =
     List.map_filter (group_point rv queries tr units store)
       (mvals (rv_ordu rv) (ProcessJoins (rv_ordu rv) (ve_ord (rv_ve rv)) (rv_mm rv) (join_trigger.truncate tr) ixs store))"

definition expired :: "rule_env \<Rightarrow> nodata_trigger \<Rightarrow> data_resp \<Rightarrow> bool" where
  "expired rv nd s \<longleftrightarrow> nd_ResolveAfterEnable nd \<and>
     (case DataResp_Last s of None \<Rightarrow> False | Some (t, v) \<Rightarrow> rv_now rv - to_int64 t > nd_ResolveAfter nd)"

definition nodata_point :: "rule_env \<Rightarrow> nodata_trigger \<Rightarrow> data_resp \<Rightarrow> eval_point" where
  "nodata_point rv nd s =
     (mk_point (rv_ve rv) (MetricName s) (dr_Metric s) (rv_now rv) f_zero (nd_Severity nd)
        (''nodata check for '' @ ve_labels_string (rv_ve rv) (dr_Metric s)) [])
     \<lparr>ap_Values := ''nodata since '' @ rv_fmt_time rv (rv_now rv), ap_TriggerType := TriggerTypeNodata, ep_Triggered := True\<rparr>"

text \<open>
  A remembered series is reported as missing unless it was answered now; with a limit it is forgotten
  when its last value is older, and passed over when it has no value. The store remembers all series
  that were ever answered.
\<close>

definition nodata_hashes :: "rule_env \<Rightarrow> nodata_trigger \<Rightarrow> series_store \<Rightarrow> series_store \<Rightarrow> uint64 list" where
  "nodata_hashes rv nd store old =
     filter (\<lambda>h. \<not> expired rv nd (the (mget old h))
                 \<and> \<not> (nd_ResolveAfterEnable nd \<and> DataResp_Last (the (mget old h)) = None)
                 \<and> \<not> mhas store h) (rv_ordu rv (mkeys old))"

definition remember :: "rule_env \<Rightarrow> nodata_trigger \<Rightarrow> series_store \<Rightarrow> series_store \<Rightarrow> series_store" where
  "remember rv nd store old =
     fold (\<lambda>(h, s). mput h s) store (filter (\<lambda>(h, s). \<not> expired rv nd s) old)"

definition GetAnomalyPoint ::
  "rule_env \<Rightarrow> eval_worker \<Rightarrow> (eval_error + eval_point list \<times> eval_point list) \<times> eval_worker"
where
  "GetAnomalyPoint rv w =
     (let ruleConfig = TrimSpace (r_RuleConfig (aw_Rule w)) in
      if ruleConfig = [] then (Inl BadConfig, w)
      else case rv_un_query rv ruleConfig of
             None \<Rightarrow> (Inl BadConfig, w)
           | Some rq \<Rightarrow>
               (let w1 = w\<lparr>ew_Inhibit := rq_Inhibit rq\<rparr> in
                if rq_Queries rq = [] then (Inr ([], []), w1)
                else case collect_series rv (rq_Queries rq) [] [] of
                       Inl e \<Rightarrow> (Inl e, w1)
                     | Inr (store, ixs) \<Rightarrow>
                         (let nd = rq_NodataTrigger rq;
                              queries = map (ExecuteQueryTemplate rv) (rq_Queries rq);
                              res = (if rq_ExpTriggerDisable rq then []
                                     else concat (map (trigger_points rv queries (unit_map rv (rq_Queries rq)) store ixs) (rq_Triggers rq)));
                              lost = (if nd_Enable nd
                                      then map (\<lambda>h. nodata_point rv nd (the (mget (ew_LastSeriesStore w) h)))
                                             (nodata_hashes rv nd store (ew_LastSeriesStore w)) else []);
                              w2 = (if nd_Enable nd
                                    then w1\<lparr>ew_LastSeriesStore := remember rv nd store (ew_LastSeriesStore w)\<rparr> else w1)
                          in (Inr (List.map_filter (\<lambda>r. case r of Inl p \<Rightarrow> Some p | Inr _ \<Rightarrow> None) res @ lost,
                                   List.map_filter (\<lambda>r. case r of Inr p \<Rightarrow> Some p | Inl _ \<Rightarrow> None) res), w2))))"

section \<open>An evaluation\<close>

fun recover_points ::
  "alert_ctx \<Rightarrow> caches \<Rightarrow> rule_env \<Rightarrow> alert_rule \<Rightarrow> eval_point list \<Rightarrow> event_processor \<Rightarrow> event_processor option"
where
  "recover_points ac cs rv rule [] p = Some p"
| "recover_points ac cs rv rule (pt # pts) p =
     (case RecoverSingle ac cs True (event_hash ac (r_Id rule) (p_datasourceId p) (anomaly_point.truncate pt)) (rv_now rv)
             (Some (rv_fmt_value rv (ep_Value pt))) None p of
        None \<Rightarrow> None
      | Some p' \<Rightarrow> recover_points ac cs rv rule pts p')"

definition rule_points ::
  "rule_env \<Rightarrow> caches \<Rightarrow> eval_worker \<Rightarrow> ((eval_error + eval_point list \<times> eval_point list) \<times> eval_worker) option"
where
  "rule_points rv cs w =
     (let typ = GetRuleType (aw_Rule w); cfg = r_RuleConfig (aw_Rule w);
          only = (\<lambda>(res, w'). (case res of Inl e \<Rightarrow> Inl e | Inr pts \<Rightarrow> Inr (pts, []), w'))
      in if typ = ''prometheus'' \<or> typ = ''loki'' then map_option only (GetPromAnomalyPoint rv cfg w)
         else if typ = ''host'' then Some (only (GetHostAnomalyPoint rv cs cfg w))
         else Some (GetAnomalyPoint rv w))"

definition with_interval :: "rule_env \<Rightarrow> eval_worker \<Rightarrow> eval_worker" where
  "with_interval rv w =
     (if p_PromEvalInterval (aw_Processor w) = 0
      then w\<lparr>aw_Processor := (aw_Processor w)\<lparr>p_PromEvalInterval := rv_interval rv\<rparr>\<rparr> else w)"

definition Eval :: "alert_ctx \<Rightarrow> caches \<Rightarrow> rule_env \<Rightarrow> eval_worker \<Rightarrow> eval_worker option" where
  "Eval ac cs rv w =
     (case rule_points rv cs (with_interval rv w) of
        None \<Rightarrow> None
      | Some (Inl e, w1) \<Rightarrow> Some w1
      | Some (Inr (anomalyPoints, recoverPoints), w1) \<Rightarrow>
          (case recover_points ac cs rv (aw_Rule w1) recoverPoints (aw_Processor w1) of
             None \<Rightarrow> None
           | Some p1 \<Rightarrow>
               map_option (\<lambda>p2. w1\<lparr>aw_Processor := p2\<rparr>)
                 (Handle ac cs (rv_now rv) (map anomaly_point.truncate anomalyPoints) ''inner'' (ew_Inhibit w1) p1)))"

section \<open>Failures\<close>

lemma prom_queries_fail:
  assumes "rv_client rv" and "list_all (\<lambda>q. \<not> (q_VarEnabled q \<and> Contains (q_PromQl q) ''$'')) qs"
    and "\<exists>q \<in> set qs. TrimSpace (q_PromQl q) \<noteq> [] \<and> ve_query (rv_ve rv) (TrimSpace (q_PromQl q)) = None"
  shows "prom_queries rv qs lst = Some (Inl QueryFailed)"
  using assms(2,3)
proof (induction qs arbitrary: lst)
  case (Cons q qs)
  have pts: "prom_query_points rv q = Some (plain_query (rv_ve rv) q)"
    using assms(1) Cons.prems(1) by (auto simp: prom_query_points_def)
  show ?case
  proof (cases "plain_query (rv_ve rv) q")
    case (Inl e)
    then have "e = QueryFailed" by (auto simp: plain_query_def Let_def split: if_splits option.splits)
    then show ?thesis using pts Inl by simp
  next
    case (Inr ps)
    then have "\<not> (TrimSpace (q_PromQl q) \<noteq> [] \<and> ve_query (rv_ve rv) (TrimSpace (q_PromQl q)) = None)"
      by (auto simp: plain_query_def Let_def split: if_splits option.splits)
    then show ?thesis using pts Inr Cons by auto
  qed
qed simp

lemma collect_series_fail:
  assumes "rv_plug rv" and "\<exists>q \<in> set qs. rv_data rv (ExecuteQueryTemplate rv q) = None"
  shows "collect_series rv qs store ixs = Inl QueryFailed"
  using assms(2) by (induction qs arbitrary: store ixs) (auto simp: assms(1) Let_def split: option.splits prod.splits)

text \<open>The queries of a rule that go to its data source, and that one of them fails.\<close>

definition query_fails :: "rule_env \<Rightarrow> alert_rule \<Rightarrow> bool" where
  "query_fails rv rule =
     (if GetRuleType rule = ''prometheus'' \<or> GetRuleType rule = ''loki'' then
        rv_client rv \<and>
        (\<exists>cfg. rv_un_prom rv (r_RuleConfig rule) = Some (Some cfg)
          \<and> list_all (\<lambda>q. \<not> (q_VarEnabled q \<and> Contains (q_PromQl q) ''$'')) (pc_Queries cfg)
          \<and> (\<exists>q \<in> set (pc_Queries cfg). TrimSpace (q_PromQl q) \<noteq> [] \<and> ve_query (rv_ve rv) (TrimSpace (q_PromQl q)) = None))
      else GetRuleType rule \<noteq> ''host'' \<and> rv_plug rv \<and>
        (\<exists>rq. TrimSpace (r_RuleConfig rule) \<noteq> [] \<and> rv_un_query rv (TrimSpace (r_RuleConfig rule)) = Some rq
          \<and> (\<exists>q \<in> set (rq_Queries rq). rv_data rv (ExecuteQueryTemplate rv q) = None)))"

text \<open>
  C17. A query that fails changes no alert. When a query without variables of a rule fails, the
  evaluation ends without touching the event processor apart from its interval: nothing is queued, nothing
  recovers, and the series remembered for missing data stay.
\<close>

theorem failed_query_changes_no_alert:
  assumes "query_fails rv (aw_Rule w)"
  shows "\<exists>w'. Eval ac cs rv w = Some w' \<and> aw_Processor w' = aw_Processor (with_interval rv w)
    \<and> ew_LastSeriesStore w' = ew_LastSeriesStore w"
proof -
  let ?w = "with_interval rv w"
  have rule: "aw_Rule ?w = aw_Rule w" "ew_LastSeriesStore ?w = ew_LastSeriesStore w" by (simp_all add: with_interval_def)
  have "\<exists>w1. rule_points rv cs ?w = Some (Inl QueryFailed, w1) \<and> aw_Processor w1 = aw_Processor ?w
      \<and> ew_LastSeriesStore w1 = ew_LastSeriesStore ?w"
  proof (cases "GetRuleType (aw_Rule w) = ''prometheus'' \<or> GetRuleType (aw_Rule w) = ''loki''")
    case True
    then obtain cfg where cfg: "rv_un_prom rv (r_RuleConfig (aw_Rule w)) = Some (Some cfg)"
        and "rv_client rv" "list_all (\<lambda>q. \<not> (q_VarEnabled q \<and> Contains (q_PromQl q) ''$'')) (pc_Queries cfg)"
          "\<exists>q \<in> set (pc_Queries cfg). TrimSpace (q_PromQl q) \<noteq> [] \<and> ve_query (rv_ve rv) (TrimSpace (q_PromQl q)) = None"
      using assms unfolding query_fails_def if_P[OF True] by blast
    then have "prom_queries rv (pc_Queries cfg) [] = Some (Inl QueryFailed)" by (intro prom_queries_fail)
    note cfg = cfg this
    show ?thesis using True by (auto simp: rule_points_def rule GetPromAnomalyPoint_def cfg Let_def)
  next
    case False
    then obtain rq where rq: "TrimSpace (r_RuleConfig (aw_Rule w)) \<noteq> []"
        "rv_un_query rv (TrimSpace (r_RuleConfig (aw_Rule w))) = Some rq"
        "\<exists>q \<in> set (rq_Queries rq). rv_data rv (ExecuteQueryTemplate rv q) = None" "rv_plug rv"
      using assms by (auto simp: query_fails_def)
    then have "collect_series rv (rq_Queries rq) [] [] = Inl QueryFailed" "rq_Queries rq \<noteq> []"
      using collect_series_fail by auto
    then show ?thesis
      using False assms rq(1,2) by (auto simp: rule_points_def query_fails_def rule GetAnomalyPoint_def Let_def)
  qed
  then show ?thesis using rule by (auto simp: Eval_def)
qed

text \<open>
  No client counts as no anomaly. When the data source of a Prometheus rule has no client at the
  moment, the evaluation gives the processor an empty list of points, as if every series were healthy,
  so that the firing alerts of the rule go the way of recovery.
\<close>

theorem missing_client_is_no_anomaly:
  assumes "\<not> rv_client rv" and "GetRuleType (aw_Rule w) = ''prometheus''"
    and "rv_un_prom rv (r_RuleConfig (aw_Rule w)) = Some (Some cfg)"
  shows "map_option aw_Processor (Eval ac cs rv w) =
    Handle ac cs (rv_now rv) [] ''inner'' (pc_Inhibit cfg) (aw_Processor (with_interval rv w))"
proof -
  have "prom_queries rv qs lst = Some (Inr lst)" for qs lst
    using assms(1) by (induction qs arbitrary: lst) (simp_all add: prom_query_points_def)
  moreover have "aw_Rule (with_interval rv w) = aw_Rule w" by (simp add: with_interval_def)
  ultimately have "rule_points rv cs (with_interval rv w) =
      Some (Inr ([], []), (with_interval rv w)\<lparr>ew_Inhibit := pc_Inhibit cfg\<rparr>)"
    using assms(2,3) by (simp add: rule_points_def GetPromAnomalyPoint_def Let_def)
  then show ?thesis by (simp add: Eval_def option.map_comp comp_def option.map_ident)
qed

text \<open>
  A brace inside a matcher stops the engine. The evaluation of a rule whose query has variables and a
  matcher with braces of its own, such as a regular expression with a repetition count, panics
  when another selector follows.
\<close>

theorem inner_brace_panics:
  assumes "GetRuleType (aw_Rule w) = ''prometheus''" and "rv_client rv"
    and "rv_un_prom rv (r_RuleConfig (aw_Rule w)) = Some (Some cfg)" and "pc_Queries cfg = q # qs" and "q_VarEnabled q"
    and "q_PromQl q = p @ ''{'' @ a @ ''{'' @ b @ ''}'' @ c @ ''}'' @ d @ ''{'' @ e" and "Contains (q_PromQl q) ''$''"
    and "list_all no_braces [p, a, b, c, d]"
  shows "Eval ac cs rv w = None"
proof -
  have "ExtractVarMapping (q_PromQl q) = None"
    using extract_stops_at_inner_brace[of p a b c d e] assms(6,8) by simp
  then have "prom_query_points rv q = None"
    using assms(2,5,7) by (simp add: prom_query_points_def VarFillingBeforeQuery_def VarFillingAfterQuery_def)
  moreover have "aw_Rule (with_interval rv w) = aw_Rule w" by (simp add: with_interval_def)
  ultimately show ?thesis
    using assms(1,3,4) by (simp add: Eval_def rule_points_def GetPromAnomalyPoint_def Let_def)
qed

section \<open>Host rules\<close>

lemma GetHostUpdateTime_wf: "mwf (GetHostUpdateTime rd c is)"
proof -
  have batch: "mwf m \<Longrightarrow> mwf (fetchBeatTimeBatch un r ks m)" for un r ks and m :: "(string, int) gomap"
    by (induction ks arbitrary: m) (auto split: option.splits)
  have "mwf m \<Longrightarrow> mwf (fold (\<lambda>ident m. if mhas m ident then m
      else case TargetCache_Get c ident of None \<Rightarrow> m | Some t \<Rightarrow> mput ident (t_BeatTime t) m) js m)" for js and m :: "(string, int) gomap"
    by (induction js arbitrary: m) (auto split: option.splits)
  then show ?thesis
    by (auto simp: GetHostUpdateTime_def FetchBeatTimesFromRedis_def fetch_loop_batch batch split: option.splits)
qed

lemma set_stale: "range_order ord \<Longrightarrow> set (stale t ord m) = {i. \<exists>u. mget m i = Some u \<and> u < t}"
  by (auto simp: stale_def set_range_order in_mkeys_iff mhas_def)

lemma distinct_stale: "range_order ord \<Longrightarrow> mwf m \<Longrightarrow> distinct (stale t ord m)"
  by (simp add: stale_def distinct_range_order distinct_mkeys)

definition rule_idents :: "rule_env \<Rightarrow> string \<Rightarrow> int \<Rightarrow> string list" where
  "rule_idents rv engine rid =
     (if rv_IsCenter rv then (case RuleTargets_Get (rv_rule_targets rv) [] rid of None \<Rightarrow> [] | Some l \<Rightarrow> l) else []) @
     (case RuleTargets_Get (rv_rule_targets rv) engine rid of None \<Rightarrow> [] | Some l \<Rightarrow> l)"

definition last_beat :: "rule_env \<Rightarrow> target \<Rightarrow> int" where
  "last_beat rv t = (case stored_beat (rv_rd rv) (t_Ident t) of Some b \<Rightarrow> b | None \<Rightarrow> t_BeatTime t)"

definition silent :: "rule_env \<Rightarrow> caches \<Rightarrow> string \<Rightarrow> int \<Rightarrow> int \<Rightarrow> string \<Rightarrow> bool" where
  "silent rv cs engine rid dur i \<longleftrightarrow> i \<in> set (rule_idents rv engine rid) \<and>
     (\<exists>t. TargetCache_Get (cs_targets cs) i = Some t \<and> last_beat rv t < rv_now rv - dur)"

lemma map_filter_distinct: "distinct xs \<Longrightarrow> length (List.map_filter f xs) = card {x \<in> set xs. f x \<noteq> None}"
proof -
  assume "distinct xs"
  then have "length (filter (\<lambda>x. f x \<noteq> None) xs) = card {x \<in> set xs. f x \<noteq> None}"
    by (metis distinct_card distinct_filter set_filter)
  then show ?thesis by (simp add: List.map_filter_def comp_def)
qed

text \<open>
  C19. A host rule reports exactly the silent machines. For a trigger on missing machines there is one
  point for every cached machine of the rule whose last heartbeat, taken from Redis or else from the
  cache, is older than the duration, named by the label \<^verbatim>\<open>ident\<close>, and no other point.
\<close>

theorem silent_machines_are_reported:
  assumes "beats_named (rv_rd rv)" and "rd_redis (rv_rd rv) \<noteq> None" and "range_order (rd_ord (rv_rd rv))"
    and "\<forall>i t. TargetCache_Get (cs_targets cs) i = Some t \<longrightarrow> t_Ident t = i"
  shows "{i. \<exists>p \<in> set (miss_points rv cs engine rid tr). mget (ap_Labels p) ''ident'' = Some i} =
      {i. silent rv cs engine rid (ht_Duration tr) i}
    \<and> length (miss_points rv cs engine rid tr) = card {i. silent rv cs engine rid (ht_Duration tr) i}"
proof -
  let ?c = "cs_targets cs" and ?is = "rule_idents rv engine rid" and ?t = "rv_now rv - ht_Duration tr"
  let ?st = "stale ?t (rd_ord (rv_rd rv)) (GetHostUpdateTime (rv_rd rv) ?c ?is)"
  let ?pt = "\<lambda>tg. NewAnomalyPoint (rv_ve rv) (ht_Type tr) (mput ''ident'' (t_Ident tg) (t_TagsMap tg)) (rv_now rv)
    (of_int64 (rv_now rv - t_BeatTime tg)) (ht_Severity tr)"
  have none: "GetHostUpdateTime (rv_rd rv) ?c [] = []"
    using assms(2) by (auto simp: GetHostUpdateTime_def FetchBeatTimesFromRedis_def)
  have "rd_ord (rv_rd rv) [] = []" using assms(3) by (metis mset_zero_iff range_order_def mset.simps(1))
  then have "?is = [] \<Longrightarrow> ?st = []" by (simp add: none stale_def mkeys_def)
  then have miss: "miss_points rv cs engine rid tr = map ?pt (TargetCache_Gets ?c ?st)"
    unfolding miss_points_def Let_def rule_idents_def[symmetric] by (auto simp: TargetCache_Gets_def List.map_filter_def)
  have beat: "mget (GetHostUpdateTime (rv_rd rv) ?c ?is) i = Some (last_beat rv t)"
    if "i \<in> set ?is" "TargetCache_Get ?c i = Some t" for i t
    using that assms(4) by (auto simp: GetHostUpdateTime_lookup[OF assms(1,2)] last_beat_def split: option.splits)
  have mem: "i \<in> set ?st \<and> mget (sc_data ?c) i \<noteq> None \<longleftrightarrow> silent rv cs engine rid (ht_Duration tr) i" for i
    using beat[of i] GetHostUpdateTime_lookup[OF assms(1,2), of ?c ?is i]
    by (auto simp: set_stale[OF assms(3)] silent_def TargetCache_Get_def split: if_splits)
  have "{x \<in> set ?st. mget (sc_data ?c) x \<noteq> None} = {i. silent rv cs engine rid (ht_Duration tr) i}" using mem by blast
  then have "length (TargetCache_Gets ?c ?st) = card {i. silent rv cs engine rid (ht_Duration tr) i}"
    using map_filter_distinct[OF distinct_stale[OF assms(3) GetHostUpdateTime_wf], of "mget (sc_data ?c)"]
    by (simp add: TargetCache_Gets_def)
  moreover have "{i. \<exists>p \<in> set (miss_points rv cs engine rid tr). mget (ap_Labels p) ''ident'' = Some i} =
      t_Ident ` set (TargetCache_Gets ?c ?st)"
    by (auto simp: miss NewAnomalyPoint_def mk_point_def)
  moreover have "t_Ident ` set (TargetCache_Gets ?c ?st) = {i. silent rv cs engine rid (ht_Duration tr) i}"
  proof -
    have gets: "set (TargetCache_Gets ?c ?st) = {t. \<exists>i \<in> set ?st. mget (sc_data ?c) i = Some t}"
      by (force simp: TargetCache_Gets_def List.map_filter_def)
    have "t_Ident ` {t. \<exists>i \<in> set ?st. mget (sc_data ?c) i = Some t} = {i \<in> set ?st. mget (sc_data ?c) i \<noteq> None}"
      using assms(4) by (force simp: TargetCache_Get_def)
    then show ?thesis unfolding gets using mem by auto
  qed
  ultimately show ?thesis by (simp add: miss)
qed

lemma pct_29:
  "\<not> f_ge (f_mul (f_div (of_int64 29) (of_int64 100)) (of_int64 100)) (of_int64 29)"
proof -
  have n: "of_int64 29 = Fin 8162774324609024 (-48)" "of_int64 100 = Fin 7036874417766400 (-46)"
    by (simp_all add: of_int64_def fl_def round_div_def Let_def)
  have q: "f_div (Fin 8162774324609024 (-48)) (Fin 7036874417766400 (-46)) = Fin 5224175567749775 (-54)"
    by (simp add: fl_def round_div_def Let_def)
  have r: "f_mul (Fin 5224175567749775 (-54)) (Fin 7036874417766400 (-46)) = Fin 8162774324609023 (-48)"
    by (simp add: fl_def round_div_def Let_def)
  show ?thesis by (simp only: n q r) simp
qed

text \<open>
  A share that is exactly the threshold can be missed. With a hundred machines, of which
  exactly twenty-nine are silent, a trigger on twenty-nine percent does not fire, because the quotient is
  rounded before it is multiplied.
\<close>

theorem exact_share_is_missed:
  assumes "RuleTargets_Get (rv_rule_targets rv) engine rid = Some idents" and "length idents = 100"
    and "length (stale (rv_now rv - ht_Duration tr) (rd_ord (rv_rd rv)) (GetHostUpdateTime (rv_rd rv) (cs_targets cs) idents)) = 29"
    and "ht_Percent tr = 29"
  shows "pct_points rv cs engine rid tr = []"
  using assms pct_29 by (simp add: pct_points_def Let_def)

section \<open>Missing series\<close>

lemma mget_filter: "mwf m \<Longrightarrow> mget (filter (\<lambda>(k, v). P v) m) k = (case mget m k of Some v \<Rightarrow> if P v then Some v else None | None \<Rightarrow> None)"
  by (induction m) (auto simp: mwf_def map_of_eq_None_iff split: option.splits)

lemma mget_fold_put: "mwf store \<Longrightarrow> mget (fold (\<lambda>(h, s). mput h s) store m) k = (case mget store k of Some s \<Rightarrow> Some s | None \<Rightarrow> mget m k)"
proof (induction store arbitrary: m)
  case (Cons x store)
  obtain h s where x: "x = (h, s)" by (cases x)
  have "mwf store" "mget store h = None" using Cons.prems by (auto simp: x mwf_def map_of_eq_None_iff)
  then show ?case using Cons.IH by (auto simp: x split: option.splits)
qed simp

lemma MakeSeriesMap_wf: "mwf store \<Longrightarrow> mwf (snd (MakeSeriesMap mm ss idx store))"
  by (induction ss arbitrary: idx store) (auto simp: Let_def)

lemma collect_series_wf: "collect_series rv qs store ixs = Inr (store', ixs') \<Longrightarrow> mwf store \<Longrightarrow> mwf store'"
proof (induction qs arbitrary: store ixs)
  case (Cons q qs)
  then show ?case
    using MakeSeriesMap_wf[of store]
    by (auto simp: Let_def split: if_splits option.splits prod.splits) (metis snd_conv)+
qed simp

definition within_limit :: "rule_env \<Rightarrow> nodata_trigger \<Rightarrow> data_resp \<Rightarrow> bool" where
  "within_limit rv nd s \<longleftrightarrow> \<not> nd_ResolveAfterEnable nd \<or>
     (\<exists>t v. DataResp_Last s = Some (t, v) \<and> rv_now rv - to_int64 t \<le> nd_ResolveAfter nd)"

lemma trigger_points_normal:
  "r \<in> set (trigger_points rv queries units store ixs tr) \<Longrightarrow> r = Inl pt \<or> r = Inr pt \<Longrightarrow> ap_TriggerType pt = TriggerTypeNormal"
  by (auto simp: trigger_points_def List.map_filter_def group_point_def mk_point_def Let_def split: if_splits)

lemma nodata_hashes_set:
  assumes "range_order (rv_ordu rv)"
  shows "(\<lambda>h. nodata_point rv nd (the (mget old h))) ` set (nodata_hashes rv nd store old) =
    {nodata_point rv nd s | h s. mget old h = Some s \<and> mget store h = None \<and> within_limit rv nd s}"
proof -
  have "h \<in> set (nodata_hashes rv nd store old) \<longleftrightarrow> (\<exists>s. mget old h = Some s \<and> mget store h = None \<and> within_limit rv nd s)" for h
    by (auto simp: nodata_hashes_def set_range_order[OF assms] in_mkeys_iff mhas_def expired_def within_limit_def split: option.splits)
  then show ?thesis by force
qed

text \<open>
  C20. Missing series. Where a rule watches for missing data, an evaluation that does not fail reports a
  remembered series exactly when it was not answered now and its last value is within the limit, if there
  is a limit; afterwards the answered series are remembered with their new values, the others as they
  were unless they are beyond the limit.
\<close>

theorem missing_series_are_reported:
  assumes "GetAnomalyPoint rv w = (Inr (pts, rec), w')" and "TrimSpace (r_RuleConfig (aw_Rule w)) \<noteq> []"
    and "rv_un_query rv (TrimSpace (r_RuleConfig (aw_Rule w))) = Some rq" and "rq_Queries rq \<noteq> []"
    and "nd_Enable (rq_NodataTrigger rq)" and "collect_series rv (rq_Queries rq) [] [] = Inr (store, ixs)"
    and "range_order (rv_ordu rv)" and "mwf (ew_LastSeriesStore w)"
  shows "{p \<in> set pts. ap_TriggerType p = TriggerTypeNodata} =
      {nodata_point rv (rq_NodataTrigger rq) s | h s.
         mget (ew_LastSeriesStore w) h = Some s \<and> mget store h = None \<and> within_limit rv (rq_NodataTrigger rq) s}
    \<and> (\<forall>h. mget (ew_LastSeriesStore w') h =
         (case mget store h of
            Some s \<Rightarrow> Some s
          | None \<Rightarrow> (case mget (ew_LastSeriesStore w) h of
                       Some s \<Rightarrow> (if expired rv (rq_NodataTrigger rq) s then None else Some s)
                     | None \<Rightarrow> None)))"
proof -
  let ?nd = "rq_NodataTrigger rq" and ?old = "ew_LastSeriesStore w"
  define res where "res = (if rq_ExpTriggerDisable rq then []
    else concat (map (trigger_points rv (map (ExecuteQueryTemplate rv) (rq_Queries rq)) (unit_map rv (rq_Queries rq)) store ixs)
           (rq_Triggers rq)))"
  have res: "pts = List.map_filter (\<lambda>r. case r of Inl p \<Rightarrow> Some p | Inr _ \<Rightarrow> None) res @
        map (\<lambda>h. nodata_point rv ?nd (the (mget ?old h))) (nodata_hashes rv ?nd store ?old)"
      "ew_LastSeriesStore w' = remember rv ?nd store ?old"
    using assms(1) by (auto simp: GetAnomalyPoint_def assms(2-6) Let_def res_def)
  have normal: "ap_TriggerType p = TriggerTypeNormal" if "Inl p \<in> set res" for p
    using that trigger_points_normal by (auto simp: res_def split: if_splits)
  have "ap_TriggerType (nodata_point rv ?nd s) = TriggerTypeNodata" for s by (simp add: nodata_point_def)
  moreover have "ap_TriggerType p = TriggerTypeNormal" if "p \<in> set (List.map_filter (\<lambda>r. case r of Inl p \<Rightarrow> Some p | Inr _ \<Rightarrow> None) res)" for p
    using that normal by (auto simp: List.map_filter_def split: sum.splits)
  ultimately have "{p \<in> set pts. ap_TriggerType p = TriggerTypeNodata} =
      (\<lambda>h. nodata_point rv ?nd (the (mget ?old h))) ` set (nodata_hashes rv ?nd store ?old)"
    by (auto simp: res(1))
  moreover have "mwf store" using collect_series_wf[OF assms(6)] by simp
  ultimately show ?thesis
    using assms(8) by (auto simp: nodata_hashes_set[OF assms(7)] res(2) remember_def mget_fold_put mget_filter split: option.splits)
qed

section \<open>Witnesses\<close>

definition plain_up :: prom_query where
  "plain_up = \<lparr>q_PromQl = ''up == 0'', q_Severity = 2, q_VarEnabled = False,
     q_VarConfig = \<lparr>vc_ParamVal = [], vc_ChildVarConfigs = None\<rparr>, q_Unit = []\<rparr>"

definition sample_nodata :: nodata_trigger where
  "sample_nodata = \<lparr>nd_Enable = True, nd_Severity = 1, nd_ResolveAfterEnable = False, nd_ResolveAfter = 0\<rparr>"

definition sample_rv :: rule_env where
  "sample_rv = \<lparr>rv_ve = sample_ve,
     rv_rd = \<lparr>rd_redis = Some (\<lambda>_. None), rd_un_beat = (\<lambda>_. None), rd_un_meta = (\<lambda>_. None), rd_ord = (\<lambda>ks. ks)\<rparr>,
     rv_rule_targets = \<lparr>rt_lastSig = [], rt_targets = [(''default'', [(1, [''web1''])])]\<rparr>,
     rv_client = True, rv_plug = True, rv_IsCenter = False, rv_now = 1000, rv_interval = 15, rv_mm = sample_mm,
     rv_ordu = (\<lambda>ks. ks), rv_data = (\<lambda>q. if q = VNil then Some [] else None), rv_tmpl = (\<lambda>_. None), rv_calc = (\<lambda>_ _. False),
     rv_ref_unit = (\<lambda>_. ([], [])), rv_fmt_query = (\<lambda>_ _. []), rv_fmt_time = (\<lambda>_. []), rv_fmt_value = (\<lambda>_. []),
     rv_un_prom = (\<lambda>_. Some (Some \<lparr>pc_Queries = [plain_up], pc_Inhibit = False\<rparr>)),
     rv_un_host = (\<lambda>_. None),
     rv_un_query = (\<lambda>_. Some \<lparr>rq_Inhibit = False, rq_Queries = [VNil], rq_ExpTriggerDisable = True, rq_Triggers = [],
                               rq_NodataTrigger = sample_nodata\<rparr>)\<rparr>"

definition sample_worker :: eval_worker where
  "sample_worker = \<lparr>aw_Rule = sample_rule\<lparr>r_Prod := ''metric'', r_Cate := ''prometheus'', r_RuleConfig := ''c''\<rparr>, aw_DatasourceId = 1,
     aw_Processor = NewProcessor ''default'' sample_rule 1 host_caches 15, ew_Inhibit = False,
     ew_LastSeriesStore = [(7, sample_series ''A'' ''x'')]\<rparr>"

lemma sample_worker_type: "GetRuleType (aw_Rule sample_worker) = ''prometheus''"
  by (simp add: sample_worker_def GetRuleType_def)

theorem failed_query_witness:
  "\<exists>w'. Eval sample_ac host_caches sample_rv sample_worker = Some w'
     \<and> aw_Processor w' = aw_Processor (with_interval sample_rv sample_worker)
     \<and> ew_LastSeriesStore w' = ew_LastSeriesStore sample_worker"
proof -
  have trim: "TrimSpace ''up == 0'' = ''up == 0''" by code_simp
  have "query_fails sample_rv (aw_Rule sample_worker)"
    by (simp add: query_fails_def sample_worker_type) (simp add: sample_rv_def plain_up_def trim sample_ve_def)
  then show ?thesis by (rule failed_query_changes_no_alert)
qed

theorem missing_client_witness:
  "map_option aw_Processor (Eval sample_ac host_caches (sample_rv\<lparr>rv_client := False\<rparr>) sample_worker) =
     Handle sample_ac host_caches 1000 [] ''inner'' False (aw_Processor (with_interval (sample_rv\<lparr>rv_client := False\<rparr>) sample_worker))"
  using missing_client_is_no_anomaly[of "sample_rv\<lparr>rv_client := False\<rparr>" sample_worker "\<lparr>pc_Queries = [plain_up], pc_Inhibit = False\<rparr>"]
  by (simp add: sample_worker_type) (simp add: sample_rv_def)

definition braces_q :: prom_query where
  "braces_q = plain_up\<lparr>q_PromQl := ''cpu{ip=~\"10{2}\"} / mem{h=\"$h\"}'', q_VarEnabled := True\<rparr>"

theorem inner_brace_witness:
  "Eval sample_ac host_caches (sample_rv\<lparr>rv_un_prom := (\<lambda>_. Some (Some \<lparr>pc_Queries = [braces_q], pc_Inhibit = False\<rparr>))\<rparr>) sample_worker = None"
proof -
  have c: "Contains (q_PromQl braces_q) ''$''" by (simp add: Contains_singleton braces_q_def)
  have shape: "q_PromQl braces_q = ''cpu'' @ ''{'' @ ''ip=~\"10'' @ ''{'' @ ''2'' @ ''}'' @ ''\"'' @ ''}'' @ '' / mem'' @ ''{'' @ ''h=\"$h\"}''"
    by (simp add: braces_q_def)
  show ?thesis
    by (rule inner_brace_panics[where q = braces_q and qs = "[]" and cfg = "\<lparr>pc_Queries = [braces_q], pc_Inhibit = False\<rparr>", OF _ _ _ _ _ shape c])
      (simp_all add: sample_worker_type, simp_all add: sample_rv_def braces_q_def no_braces_def)
qed

theorem silent_machines_witness:
  "{i. \<exists>p \<in> set (miss_points sample_rv (host_caches\<lparr>cs_targets := Set_cache [(''web1'', sample_target)] 1 1 (New_cache [])\<rparr>) ''default'' 1
        \<lparr>ht_Type = ''target_miss'', ht_Duration = 60, ht_Percent = 0, ht_Severity = 2\<rparr>). mget (ap_Labels p) ''ident'' = Some i} = {''web1''}"
proof -
  let ?cs = "host_caches\<lparr>cs_targets := Set_cache [(''web1'', sample_target)] 1 1 (New_cache [])\<rparr>"
  let ?tr = "\<lparr>ht_Type = ''target_miss'', ht_Duration = 60, ht_Percent = 0, ht_Severity = 2\<rparr>"
  have get: "TargetCache_Get (Set_cache [(''web1'', sample_target)] 1 1 (New_cache [])) i = (if i = ''web1'' then Some sample_target else None)" for i
    by (simp add: TargetCache_Get_def Set_cache_def)
  have tg: "t_Ident sample_target = ''web1''" "t_BeatTime sample_target = 0" by (simp_all add: sample_target_def)
  have rd: "rd_redis (rv_rd sample_rv) \<noteq> None" "range_order (rd_ord (rv_rd sample_rv))" "beats_named (rv_rd sample_rv)"
    by (simp_all add: sample_rv_def beats_named_def)
  have "silent sample_rv ?cs ''default'' 1 60 i \<longleftrightarrow> i = ''web1''" for i
    by (auto simp: silent_def get rule_idents_def last_beat_def stored_beat_def sample_rv_def RuleTargets_Get_def tg)
  then show ?thesis
    using silent_machines_are_reported[OF rd(3,1,2), of ?cs "''default''" 1 ?tr] by (simp add: get tg)
qed

definition fleet :: "string list" where
  "fleet = map (\<lambda>n. replicate n CHR ''a'') [0..<100]"

definition fleet_caches :: caches where
  "fleet_caches = host_caches\<lparr>cs_targets := Set_cache
     (map (\<lambda>n. (replicate n CHR ''a'', sample_target\<lparr>t_BeatTime := if n < 29 then 0 else 1000\<rparr>)) [0..<100]) 1 1 (New_cache [])\<rparr>"

lemma fleet_cached:
  "TargetCache_Get (cs_targets fleet_caches) i =
     (if i \<in> set fleet then Some (sample_target\<lparr>t_BeatTime := if length i < 29 then 0 else 1000\<rparr>) else None)"
proof -
  have "map_of (map (\<lambda>n. (replicate n c, f n)) ns) i = (if \<exists>n \<in> set ns. i = replicate n c then Some (f (length i)) else None)"
    for c :: char and f :: "nat \<Rightarrow> target" and ns
    by (induction ns) auto
  then show ?thesis by (auto simp: TargetCache_Get_def fleet_caches_def Set_cache_def fleet_def)
qed

definition pct_trigger :: host_trigger where
  "pct_trigger = \<lparr>ht_Type = ''pct_target_miss'', ht_Duration = 60, ht_Percent = 29, ht_Severity = 1\<rparr>"

theorem exact_share_witness:
  "pct_points (sample_rv\<lparr>rv_rule_targets := \<lparr>rt_lastSig = [], rt_targets = [(''default'', [(1, fleet)])]\<rparr>\<rparr>) fleet_caches ''default'' 1 pct_trigger = []"
proof -
  let ?rv = "sample_rv\<lparr>rv_rule_targets := \<lparr>rt_lastSig = [], rt_targets = [(''default'', [(1, fleet)])]\<rparr>\<rparr>"
  let ?seen = "GetHostUpdateTime (rv_rd sample_rv) (cs_targets fleet_caches) fleet"
  let ?st = "stale 940 (rd_ord (rv_rd sample_rv)) ?seen"
  have rd: "beats_named (rv_rd sample_rv)" "rd_redis (rv_rd sample_rv) \<noteq> None" "range_order (rd_ord (rv_rd sample_rv))"
    "stored_beat (rv_rd sample_rv) i = None" "rv_now sample_rv = 1000" for i
    by (simp_all add: sample_rv_def beats_named_def stored_beat_def)
  have "mget ?seen i = (if i \<in> set fleet then Some (if length i < 29 then 0 else 1000) else None)" for i
    by (simp add: GetHostUpdateTime_lookup[OF rd(1,2)] rd(4) fleet_cached)
  then have "set ?st = {i \<in> set fleet. length i < 29}" by (auto simp: set_stale[OF rd(3)] split: if_splits)
  also have "\<dots> = (\<lambda>n. replicate n CHR ''a'') ` {..<29}" by (auto simp: fleet_def)
  finally have "card (set ?st) = card {..<29::nat}" by (simp add: card_image inj_on_def replicate_eq_replicate)
  then have "length ?st = 29" using distinct_card[OF distinct_stale[OF rd(3) GetHostUpdateTime_wf]] by simp
  then show ?thesis
    by (intro exact_share_is_missed[where idents = fleet]) (simp_all add: RuleTargets_Get_def pct_trigger_def rd(5), simp_all add: fleet_def)
qed

theorem missing_series_witness:
  "\<exists>pts rec w'. GetAnomalyPoint sample_rv sample_worker = (Inr (pts, rec), w')
     \<and> {p \<in> set pts. ap_TriggerType p = TriggerTypeNodata} = {nodata_point sample_rv sample_nodata (sample_series ''A'' ''x'')}"
proof -
  let ?rq = "\<lparr>rq_Inhibit = False, rq_Queries = [VNil], rq_ExpTriggerDisable = True, rq_Triggers = [], rq_NodataTrigger = sample_nodata\<rparr>"
  have trim: "TrimSpace (r_RuleConfig (aw_Rule sample_worker)) = ''c''" by (simp add: sample_worker_def TrimSpace_def is_space_def)
  have env: "rv_un_query sample_rv c = Some ?rq" "rv_plug sample_rv" "rv_data sample_rv VNil = Some []" "range_order (rv_ordu sample_rv)" for c
    by (simp_all add: sample_rv_def)
  have series: "collect_series sample_rv [VNil] [] [] = Inr ([], [])"
    by (simp add: env ExecuteQueryTemplate_def GetQueryRef_def)
  obtain pts rec w' where run: "GetAnomalyPoint sample_rv sample_worker = (Inr (pts, rec), w')"
    by (simp add: GetAnomalyPoint_def trim env(1) series Let_def del: collect_series.simps)
  have nd: "nd_Enable sample_nodata" "within_limit sample_rv sample_nodata s" for s
    by (simp_all add: sample_nodata_def within_limit_def)
  have wf: "mwf (ew_LastSeriesStore sample_worker)" by (simp add: sample_worker_def mwf_def)
  have "{p \<in> set pts. ap_TriggerType p = TriggerTypeNodata} = {nodata_point sample_rv sample_nodata (sample_series ''A'' ''x'')}"
    using missing_series_are_reported[OF run _ env(1) _ _ _ env(4) wf, of "[]" "[]"] series nd
    by (simp add: trim del: collect_series.simps) (simp add: sample_worker_def)
  then show ?thesis using run by blast
qed

end
