(* ===== verification/Rule_Form.thy ===== *)
theory Rule_Form
  imports Mute
begin

text \<open>
  The form of an alert rule (\<^verbatim>\<open>models/alert_rule.go\<close>): verification, the conversions between the
  columns of the table and the lists of the web interface, the data source filters and severities
  that are filled in on the way, and the operations on the table (\<open>Add\<close>, \<open>Update\<close>, \<open>Upsert\<close>,
  \<open>AlertRuleDels\<close>) with the batch handlers of \<^verbatim>\<open>center/router/router_alert_rule.go\<close> over them.

  A \<open>rule_form\<close> extends the rule of the engine by the fields that only the forms use. Every error
  return is \<open>Inl\<close> with its text; a panic of \<open>DB2FE_rule\<close> is \<open>None\<close>. The table is the list of its rows
  in the order of insertion. The lemmas show that the table holds well-formed rules with distinct
  names, that an accepted schedule is aligned, and that an engine at the edge, which gets its rules
  as JSON from the center, follows the schedule of the center.
\<close>

section \<open>The form\<close>

record rule_form = alert_rule +
  r_AlgoParams :: string
  r_AlgoParamsJson :: goval
  r_Severity :: int
  r_Severities :: "int list"
  r_EnableStimeJSON :: string
  r_EnableStimesJSON :: "string list"
  r_EnableEtimeJSON :: string
  r_EnableEtimesJSON :: "string list"
  r_EnableDaysOfWeekJSON :: "string list"
  r_EnableDaysOfWeeksJSON :: "string list list"
  r_AppendTags :: string
  r_AnnotationsJSON :: "(string, string) gomap option" \<comment> \<open>\<open>None\<close> is the nil map\<close>
  r_ExtraConfig :: string
  r_CreateAt :: int
  r_CreateBy :: string
  r_UpdateAt :: int
  r_UpdateBy :: string
  r_NotifyVersion :: int

text \<open>
  The code outside the repository: the test for dangerous characters of the toolkit, the parser of
  the cron package (an error text or \<open>None\<close>), and the JSON decoder, which takes the value that is
  there and gives the value afterwards with the success of the call. For the two configuration
  documents only what the caller reads is given: the version and the severities of the triggers,
  and the severities of the queries with the severity of the rule.
\<close>

record codec =
  c_Dangerous :: "string \<Rightarrow> bool"
  c_cron :: "string \<Rightarrow> string option"
  c_any :: "string \<Rightarrow> goval \<Rightarrow> goval \<times> bool"
  c_strmap :: "string \<Rightarrow> (string, string) gomap option \<Rightarrow> (string, string) gomap option \<times> bool"
  c_ints :: "string \<Rightarrow> int list \<times> bool"
  c_RuleQuery :: "string \<Rightarrow> (string \<times> int list) \<times> bool"
  c_PromRuleConfig :: "string \<Rightarrow> (int list \<times> int) \<times> bool"
  c_relabel :: "string \<Rightarrow> relabel_config list"

section \<open>Verification\<close>

definition validateCronPattern :: "codec \<Rightarrow> rule_form \<Rightarrow> string option" where
  "validateCronPattern c ar =
     (if r_CronPattern ar = [] then None
      else map_option (\<lambda>err. ''invalid cron pattern: '' @ r_CronPattern ar @ '', error: '' @ err)
             (c_cron c (r_CronPattern ar)))"

text \<open>The loop over the appended tags; \<open>seen\<close> holds the keys so far.\<close>

fun check_tags :: "string list \<Rightarrow> string list \<Rightarrow> string option" where
  "check_tags [] seen = None"
| "check_tags (t # ts) seen =
     (if \<not> Contains t ''='' then Some (''AppendTags('' @ t @ '') invalid'')
      else let key = hd (SplitN2 t ''='')
           in if key \<in> set seen then Some (''AppendTags has duplicate key: '' @ key)
              else check_tags ts (key # seen))"

definition enableStimeCount :: "rule_form \<Rightarrow> nat" where
  "enableStimeCount ar =
     (if r_EnableStimesJSON ar = [] \<and> r_EnableStimeJSON ar \<noteq> [] then 1 else length (r_EnableStimesJSON ar))"

definition enableEtimeCount :: "rule_form \<Rightarrow> nat" where
  "enableEtimeCount ar =
     (if r_EnableEtimesJSON ar = [] \<and> r_EnableEtimeJSON ar \<noteq> [] then 1 else length (r_EnableEtimesJSON ar))"

definition enableWeekCount :: "rule_form \<Rightarrow> nat" where
  "enableWeekCount ar =
     (let n = length (filter (\<lambda>days. days \<noteq> []) (r_EnableDaysOfWeeksJSON ar))
      in if n = 0 \<and> r_EnableDaysOfWeekJSON ar \<noteq> [] then 1 else n)"

definition clear_notify :: "rule_form \<Rightarrow> rule_form" where
  "clear_notify ar =
     (let ar1 = (if r_NotifyVersion ar = 0 then ar\<lparr>r_NotifyRuleIds := []\<rparr> else ar)
      in if r_NotifyVersion ar1 > 0
         then ar1\<lparr>r_NotifyChannelsJSON := [], r_NotifyGroupsJSON := [], r_NotifyChannels := [],
                  r_NotifyGroups := [], r_Callbacks := [], r_CallbacksJSON := []\<rparr>
         else ar1)"

definition Verify_rule :: "env \<Rightarrow> codec \<Rightarrow> rule_form \<Rightarrow> string + rule_form" where
  "Verify_rule x c ar =
     (if r_GroupId ar < 0 then Inl (''GroupId('' @ Itoa (r_GroupId ar) @ '') invalid'') else
      let ar1 = ar\<lparr>r_Name := TrimSpace (r_Name ar)\<rparr> in
      if r_Name ar1 = [] then Inl ''name is blank''
      else if r_TimeZone ar1 \<noteq> [] \<and> x_LoadLocation x (r_TimeZone ar1) = None
      then Inl (''invalid timezone: '' @ r_TimeZone ar1)
      else if c_Dangerous c (r_Name ar1) then Inl ''Name has invalid characters'' else
      let ar2 = (if r_Prod ar1 = [] then ar1\<lparr>r_Prod := ''metric''\<rparr> else ar1);
          ar3 = (if r_Cate ar2 = [] then ar2\<lparr>r_Cate := ''prometheus''\<rparr> else ar2) in
      if r_RuleConfig ar3 = [] then Inl ''rule_config is blank'' else
      let ar4 = (if r_PromEvalInterval ar3 \<le> 0 then ar3\<lparr>r_PromEvalInterval := 15\<rparr> else ar3);
          ar5 = ar4\<lparr>r_AppendTags := TrimSpace (r_AppendTags ar4)\<rparr> in
      case check_tags (Fields (r_AppendTags ar5)) [] of Some err \<Rightarrow> Inl err | None \<Rightarrow>
      if list_ex (\<lambda>g. ParseInt g = None) (Fields (r_NotifyGroups ar5))
      then Inl (''NotifyGroups('' @ r_NotifyGroups ar5 @ '') invalid'')
      else if enableStimeCount ar5 \<noteq> enableEtimeCount ar5 \<or> enableStimeCount ar5 \<noteq> enableWeekCount ar5
      then Inl (''invalid effective time span: start times('' @ Itoa (int (enableStimeCount ar5)) @
                ''), end times('' @ Itoa (int (enableEtimeCount ar5)) @ '') and days-of-week groups('' @
                Itoa (int (enableWeekCount ar5)) @ '') must have the same count'') else
      case validateCronPattern c ar5 of Some err \<Rightarrow> Inl err | None \<Rightarrow> Inr (clear_notify ar5))"

section \<open>Columns and lists\<close>

text \<open>The loop over the groups of days; \<open>n\<close> is the number of all groups, \<open>acc\<close> the column so far.\<close>

fun join_days :: "nat \<Rightarrow> string list list \<Rightarrow> string \<Rightarrow> string" where
  "join_days n [] acc = acc"
| "join_days n (d # ds) acc =
     join_days n ds
       (if n = 1 then Join d '' '' else if ds = [] then acc @ Join d '' '' else acc @ Join d '' '' @ '';'')"

text \<open>The document that stands for the old fields: a query with an expression and a severity.\<close>

definition prom_config :: "string \<Rightarrow> int \<Rightarrow> goval" where
  "prom_config promQl severity =
     VObj [(''queries'', VArr [VObj [(''prom_ql'', VStr promQl), (''severity'', VInt severity),
              (''var_enabled'', VBool False),
              (''var_config'', VObj [(''param_val'', VArr []), (''child_var_configs'', VNil)]),
              (''recover_config'', VObj [(''judge_type'', VInt 0), (''recover_exp'', VStr [])]),
              (''unit'', VStr [])]]),
           (''inhibit'', VBool False), (''prom_ql'', VStr []), (''severity'', VInt 0), (''algo_params'', VNil)]"

text \<open>
  The steps of \<^verbatim>\<open>FE2DB\<close>: the times and the days of the schedule, the lists, the configuration and the
  other documents. Values that came from a JSON document encode without an error.
\<close>

definition fe_times :: "rule_form \<Rightarrow> rule_form" where
  "fe_times ar =
     (if r_EnableStimesJSON ar \<noteq> []
      then ar\<lparr>r_EnableStime := Join (r_EnableStimesJSON ar) '' '', r_EnableEtime := Join (r_EnableEtimesJSON ar) '' ''\<rparr>
      else ar\<lparr>r_EnableStime := r_EnableStimeJSON ar, r_EnableEtime := r_EnableEtimeJSON ar\<rparr>)"

definition fe_days :: "rule_form \<Rightarrow> rule_form" where
  "fe_days ar =
     (if r_EnableDaysOfWeeksJSON ar \<noteq> []
      then ar\<lparr>r_EnableDaysOfWeek := join_days (length (r_EnableDaysOfWeeksJSON ar))
                 (r_EnableDaysOfWeeksJSON ar) (r_EnableDaysOfWeek ar)\<rparr>
      else ar\<lparr>r_EnableDaysOfWeek := Join (r_EnableDaysOfWeekJSON ar) '' ''\<rparr>)"

definition fe_lists :: "rule_form \<Rightarrow> rule_form" where
  "fe_lists ar =
     (let ar1 = ar\<lparr>r_NotifyChannels := Join (r_NotifyChannelsJSON ar) '' '',
                   r_NotifyGroups := Join (r_NotifyGroupsJSON ar) '' '',
                   r_Callbacks := Join (r_CallbacksJSON ar) '' '',
                   r_AppendTagsJSON := map (\<lambda>t. ReplaceAll t '' '' []) (r_AppendTagsJSON ar)\<rparr>
      in if r_AppendTagsJSON ar1 \<noteq> [] then ar1\<lparr>r_AppendTags := Join (r_AppendTagsJSON ar1) '' ''\<rparr> else ar1)"

definition fe_config :: "env \<Rightarrow> rule_form \<Rightarrow> rule_form" where
  "fe_config x ar =
     (let ar1 = (if r_RuleConfigJson ar = VNil \<or> r_PromQl ar \<noteq> []
                 then ar\<lparr>r_RuleConfigJson := prom_config (r_PromQl ar) (r_Severity ar)\<rparr> else ar)
      in if r_RuleConfigJson ar1 \<noteq> VNil
         then ar1\<lparr>r_RuleConfig := x_marshal x (r_RuleConfigJson ar1), r_PromQl := []\<rparr> else ar1)"

definition fe_documents :: "env \<Rightarrow> rule_form \<Rightarrow> rule_form" where
  "fe_documents x ar =
     (let ar1 = (case r_AnnotationsJSON ar of
                   None \<Rightarrow> ar | Some m \<Rightarrow> ar\<lparr>r_Annotations := x_marshal x (map_json m)\<rparr>)
      in if r_ExtraConfigJSON ar1 \<noteq> VNil
         then ar1\<lparr>r_ExtraConfig := x_marshal x (r_ExtraConfigJSON ar1)\<rparr> else ar1)"

definition FE2DB_rule :: "env \<Rightarrow> rule_form \<Rightarrow> rule_form" where
  "FE2DB_rule x ar =
     (let ar1 = fe_lists (fe_days (fe_times ar));
          ar2 = ar1\<lparr>r_AlgoParams := x_marshal x (r_AlgoParamsJson ar1)\<rparr>
      in fe_documents x (fe_config x ar2))"

text \<open>The old list of data source numbers: 0 stands for all data sources and ends the list.\<close>

fun ids_query :: "int list \<Rightarrow> datasource_query \<Rightarrow> datasource_query" where
  "ids_query [] q = q"
| "ids_query (v # vs) q =
     (if v = 0 then q\<lparr>MatchType := 2\<rparr> else ids_query vs (q\<lparr>dq_Values := dq_Values q @ [VInt v]\<rparr>))"

definition FillDatasourceQueries :: "codec \<Rightarrow> rule_form \<Rightarrow> rule_form" where
  "FillDatasourceQueries c ar =
     (if r_DatasourceQueries ar = [] \<and> r_DatasourceIds ar \<noteq> []
      then ar\<lparr>r_DatasourceQueries :=
                [ids_query (fst (c_ints c (r_DatasourceIds ar))) \<lparr>MatchType = 0, Op = ''in'', dq_Values = []\<rparr>]\<rparr>
      else ar)"

text \<open>The severities; \<open>rng\<close> is the order in which the map is ranged over. An error leaves the rule as it is.\<close>

definition FillSeverities :: "(int list \<Rightarrow> int list) \<Rightarrow> codec \<Rightarrow> rule_form \<Rightarrow> rule_form" where
  "FillSeverities rng c ar =
     (if r_RuleConfig ar = [] then ar else
      let ((version, triggers), ok) = c_RuleQuery c (r_RuleConfig ar) in
      if \<not> ok then ar
      else if (r_Cate ar = ''prometheus'' \<or> r_Cate ar = ''loki'') \<and> version \<noteq> ''v2'' then
        (let ((queries, severity), ok) = c_PromRuleConfig c (r_RuleConfig ar) in
         if \<not> ok then ar
         else if queries = [] then ar\<lparr>r_Severities := r_Severities ar @ [severity]\<rparr>
         else ar\<lparr>r_Severities := r_Severities ar @ rng (remdups queries)\<rparr>)
      else ar\<lparr>r_Severities := r_Severities ar @ rng (remdups triggers)\<rparr>)"

text \<open>The steps of \<^verbatim>\<open>DB2FE\<close>; the first start time is read without a test that there is one.\<close>

definition db_times :: "rule_form \<Rightarrow> rule_form option" where
  "db_times ar =
     (let ar1 = ar\<lparr>r_EnableStimesJSON := Fields (r_EnableStime ar), r_EnableEtimesJSON := Fields (r_EnableEtime ar)\<rparr>
      in if r_EnableEtimesJSON ar1 = [] then Some ar1
         else if r_EnableStimesJSON ar1 = [] then None
         else Some (ar1\<lparr>r_EnableStimeJSON := hd (r_EnableStimesJSON ar1), r_EnableEtimeJSON := hd (r_EnableEtimesJSON ar1)\<rparr>))"

definition db_days :: "rule_form \<Rightarrow> rule_form" where
  "db_days ar =
     (let ar1 = ar\<lparr>r_EnableDaysOfWeeksJSON :=
                     r_EnableDaysOfWeeksJSON ar @ map Fields (Split (r_EnableDaysOfWeek ar) '';'')\<rparr>
      in if r_EnableDaysOfWeeksJSON ar1 \<noteq> []
         then ar1\<lparr>r_EnableDaysOfWeekJSON := hd (r_EnableDaysOfWeeksJSON ar1)\<rparr> else ar1)"

definition db_lists :: "codec \<Rightarrow> rule_form \<Rightarrow> rule_form" where
  "db_lists c ar =
     ar\<lparr>r_NotifyChannelsJSON := Fields (r_NotifyChannels ar), r_NotifyGroupsJSON := Fields (r_NotifyGroups ar),
        r_CallbacksJSON := Fields (r_Callbacks ar), r_AppendTagsJSON := Fields (r_AppendTags ar),
        r_AlgoParamsJson := fst (c_any c (r_AlgoParams ar) (r_AlgoParamsJson ar)),
        r_RuleConfigJson := fst (c_any c (r_RuleConfig ar) (r_RuleConfigJson ar)),
        r_AnnotationsJSON := fst (c_strmap c (r_Annotations ar) (r_AnnotationsJSON ar)),
        r_ExtraConfigJSON := fst (c_any c (r_ExtraConfig ar) (r_ExtraConfigJSON ar)),
        r_EventRelabelConfig := c_relabel c (r_RuleConfig ar)\<rparr>"

definition db_cron :: "rule_form \<Rightarrow> rule_form" where
  "db_cron ar =
     (if r_CronPattern ar = [] \<and> r_PromEvalInterval ar \<noteq> 0
      then ar\<lparr>r_CronPattern := ''@every '' @ Itoa (r_PromEvalInterval ar) @ ''s''\<rparr> else ar)"

definition DB2FE_rule :: "(int list \<Rightarrow> int list) \<Rightarrow> codec \<Rightarrow> rule_form \<Rightarrow> rule_form option" where
  "DB2FE_rule rng c ar =
     (case db_times ar of
        None \<Rightarrow> None
      | Some ar1 \<Rightarrow> Some (FillSeverities rng c (FillDatasourceQueries c (db_cron (db_lists c (db_days ar1))))))"

text \<open>
  A rule that travels as JSON to an engine at the edge: the fields with the tag \<^verbatim>\<open>json:"-"\<close> arrive
  empty, the others as they were.
\<close>

definition wire :: "rule_form \<Rightarrow> rule_form" where
  "wire ar =
     ar\<lparr>r_DatasourceIds := [], r_AlgoParams := [], r_RuleConfig := [], r_EnableStime := [], r_EnableEtime := [],
        r_EnableDaysOfWeek := [], r_NotifyChannels := [], r_NotifyGroups := [], r_Callbacks := [],
        r_AppendTags := [], r_Annotations := [], r_ExtraConfig := []\<rparr>"

definition edge_rule :: "env \<Rightarrow> rule_form \<Rightarrow> rule_form" where
  "edge_rule x fe = FE2DB_rule x (wire fe)"

section \<open>The table\<close>

type_synonym rule_table = "rule_form list"

text \<open>A row keeps the columns; the fields with the tag \<^verbatim>\<open>gorm:"-"\<close> are zero in what is read back.\<close>

definition row_of :: "rule_form \<Rightarrow> rule_form" where
  "row_of ar =
     ar\<lparr>r_AlgoParamsJson := VNil, r_Severities := [], r_RuleConfigJson := VNil, r_EventRelabelConfig := [],
        r_EnableStimeJSON := [], r_EnableStimesJSON := [], r_EnableEtimeJSON := [], r_EnableEtimesJSON := [],
        r_EnableDaysOfWeekJSON := [], r_EnableDaysOfWeeksJSON := [], r_NotifyChannelsJSON := [],
        r_NotifyGroupsJSON := [], r_CallbacksJSON := [], r_AppendTagsJSON := [], r_AnnotationsJSON := None,
        r_ExtraConfigJSON := VNil\<rparr>"

text \<open>
  The database: what a query and a write may fail with, the number it gives to a new row, and the
  clock of the process. A row with a number of its own fails on the primary key if it is taken.
\<close>

record rule_db =
  d_find_err :: "string option"
  d_write_err :: "string option"
  d_next_id :: "rule_table \<Rightarrow> int"
  d_now :: int

definition Insert_rule :: "rule_db \<Rightarrow> rule_form \<Rightarrow> rule_table \<Rightarrow> string + rule_table" where
  "Insert_rule d ar tbl =
     (case d_write_err d of Some err \<Rightarrow> Inl err | None \<Rightarrow>
      let rid = (if r_Id ar = 0 then d_next_id d tbl else r_Id ar)
      in if rid \<in> r_Id ` set tbl then Inl ''duplicate entry for primary key''
         else Inr (tbl @ [row_of (ar\<lparr>r_Id := rid\<rparr>)]))"

definition AlertRuleExists :: "rule_db \<Rightarrow> rule_table \<Rightarrow> int \<Rightarrow> int \<Rightarrow> string \<Rightarrow> string + bool" where
  "AlertRuleExists d tbl rid groupId name =
     (case d_find_err d of
        Some err \<Rightarrow> Inl err
      | None \<Rightarrow> Inr (list_ex (\<lambda>r. r_Id r \<noteq> rid \<and> r_GroupId r = groupId \<and> r_Name r = name) tbl))"

definition Add_rule :: "env \<Rightarrow> codec \<Rightarrow> rule_db \<Rightarrow> rule_form \<Rightarrow> rule_table \<Rightarrow> string + rule_table" where
  "Add_rule x c d ar tbl =
     (case Verify_rule x c ar of Inl err \<Rightarrow> Inl err | Inr ar1 \<Rightarrow>
      case AlertRuleExists d tbl 0 (r_GroupId ar1) (r_Name ar1) of
        Inl err \<Rightarrow> Inl err
      | Inr True \<Rightarrow> Inl ''AlertRule already exists''
      | Inr False \<Rightarrow> Insert_rule d (ar1\<lparr>r_CreateAt := d_now d, r_UpdateAt := d_now d\<rparr>) tbl)"

definition Update_rule ::
  "env \<Rightarrow> codec \<Rightarrow> rule_db \<Rightarrow> rule_form \<Rightarrow> rule_form \<Rightarrow> rule_table \<Rightarrow> string + rule_table"
where
  "Update_rule x c d ar arf tbl =
     (case (if r_Name ar \<noteq> r_Name arf then AlertRuleExists d tbl (r_Id ar) (r_GroupId ar) (r_Name arf)
            else Inr False) of
        Inl err \<Rightarrow> Inl err
      | Inr True \<Rightarrow> Inl ''AlertRule already exists''
      | Inr False \<Rightarrow>
          (let arf1 = (FE2DB_rule x arf)\<lparr>r_Id := r_Id ar, r_GroupId := r_GroupId ar, r_CreateAt := r_CreateAt ar,
                        r_CreateBy := r_CreateBy ar, r_UpdateAt := d_now d\<rparr>
           in case Verify_rule x c arf1 of Inl err \<Rightarrow> Inl err | Inr arf2 \<Rightarrow>
              case d_write_err d of Some err \<Rightarrow> Inl err | None \<Rightarrow>
              Inr (map (\<lambda>r. if r_Id r = r_Id ar then row_of arf2 else r) tbl)))"

definition Upsert_rule :: "env \<Rightarrow> codec \<Rightarrow> rule_db \<Rightarrow> rule_form \<Rightarrow> rule_table \<Rightarrow> string + rule_table" where
  "Upsert_rule x c d ar tbl =
     (case d_find_err d of Some err \<Rightarrow> Inl err | None \<Rightarrow>
      case find (\<lambda>r. r_GroupId r = r_GroupId ar \<and> r_Name r = r_Name ar) tbl of
        None \<Rightarrow> Add_rule x c d (FE2DB_rule x ar) tbl
      | Some existing \<Rightarrow> Update_rule x c d existing ar tbl)"

text \<open>
  Deletion goes through the numbers until a statement fails; a rule that was there takes its active
  alerts along. \<open>bgid\<close> is the business group of the optional argument.
\<close>

fun AlertRuleDels ::
  "(int \<Rightarrow> string option) \<Rightarrow> int list \<Rightarrow> int option \<Rightarrow> rule_table \<times> event list \<Rightarrow> string option \<times> rule_table \<times> event list"
where
  "AlertRuleDels err [] bgid (tbl, cur) = (None, tbl, cur)"
| "AlertRuleDels err (i # is') bgid (tbl, cur) =
     (case err i of Some e \<Rightarrow> (Some e, tbl, cur) | None \<Rightarrow>
      let hit = (\<lambda>r. r_Id r = i \<and> (case bgid of None \<Rightarrow> True | Some g \<Rightarrow> r_GroupId r = g));
          tbl1 = filter (\<lambda>r. \<not> hit r) tbl;
          cur1 = (if list_ex hit tbl then filter (\<lambda>e. e_RuleId e \<noteq> i) cur else cur)
      in AlertRuleDels err is' bgid (tbl1, cur1))"

section \<open>The handlers\<close>

definition with_user :: "string \<Rightarrow> rule_form \<Rightarrow> rule_form" where
  "with_user username ar =
     (if username \<noteq> [] then ar\<lparr>r_CreateBy := username, r_UpdateBy := username\<rparr> else ar)"

text \<open>
  One rule of a batch: the answer under its name, \<open>[]\<close> for success, and the table. \<open>hook\<close> is the
  check an outer layer may install, \<open>tr\<close> the translation of an error text. The name is the one the
  form has when the answer is written, which verification has trimmed.
\<close>

definition answer_name :: "env \<Rightarrow> codec \<Rightarrow> rule_form \<Rightarrow> string" where
  "answer_name x c ar = (if r_GroupId ar < 0 then r_Name ar else TrimSpace (r_Name ar))"

definition add_one ::
  "env \<Rightarrow> codec \<Rightarrow> rule_db \<Rightarrow> (rule_form \<Rightarrow> string option) \<Rightarrow> (string \<Rightarrow> string) \<Rightarrow> string \<Rightarrow> int \<Rightarrow> rule_form \<Rightarrow>
     (string, string) gomap \<times> rule_table \<Rightarrow> (string, string) gomap \<times> rule_table"
where
  "add_one x c d hook tr username bgid ar = (\<lambda>(reterr, tbl).
     let ar1 = with_user username (ar\<lparr>r_Id := 0, r_GroupId := bgid\<rparr>)
     in case hook ar1 of Some err \<Rightarrow> (mput (r_Name ar1) (tr err) reterr, tbl) | None \<Rightarrow>
        let ar2 = FE2DB_rule x ar1
        in case Add_rule x c d ar2 tbl of
             Inl err \<Rightarrow> (mput (answer_name x c ar2) (tr err) reterr, tbl)
           | Inr tbl1 \<Rightarrow> (mput (answer_name x c ar2) [] reterr, tbl1))"

definition alertRuleAdd where
  "alertRuleAdd x c d hook tr lst username bgid tbl = fold (add_one x c d hook tr username bgid) lst ([], tbl)"

text \<open>
  In the other batch the answer stays under the name as sent where an update has verified a copy.
\<close>

definition upsert_one ::
  "env \<Rightarrow> codec \<Rightarrow> rule_db \<Rightarrow> (rule_form \<Rightarrow> string option) \<Rightarrow> (string \<Rightarrow> string) \<Rightarrow> string \<Rightarrow> int \<Rightarrow> rule_form \<Rightarrow>
     (string, string) gomap \<times> rule_table \<Rightarrow> (string, string) gomap \<times> rule_table"
where
  "upsert_one x c d hook tr username bgid ar = (\<lambda>(reterr, tbl).
     let ar1 = with_user username (ar\<lparr>r_Id := 0, r_GroupId := bgid\<rparr>)
     in case hook ar1 of Some err \<Rightarrow> (mput (r_Name ar1) (tr err) reterr, tbl) | None \<Rightarrow>
        let name = (if d_find_err d = None \<and> find (\<lambda>r. r_GroupId r = r_GroupId ar1 \<and> r_Name r = r_Name ar1) tbl = None
                    then answer_name x c ar1 else r_Name ar1)
        in case Upsert_rule x c d ar1 tbl of
             Inl err \<Rightarrow> (mput name (tr err) reterr, tbl)
           | Inr tbl1 \<Rightarrow> (mput name [] reterr, tbl1))"

definition alertRuleUpsert where
  "alertRuleUpsert x c d hook tr lst username bgid tbl = fold (upsert_one x c d hook tr username bgid) lst ([], tbl)"

text \<open>
  The edit of one rule; \<open>None\<close> is a panic of the conversion of the stored row. \<open>may\<close> is the answer of
  \<^verbatim>\<open>bgrwCheck\<close> for the business group of the stored rule.
\<close>

definition alertRulePutByFE ::
  "(int list \<Rightarrow> int list) \<Rightarrow> env \<Rightarrow> codec \<Rightarrow> rule_db \<Rightarrow> (rule_form \<Rightarrow> string option) \<Rightarrow> (int \<Rightarrow> bool) \<Rightarrow> string \<Rightarrow>
     int \<Rightarrow> rule_form \<Rightarrow> rule_table \<Rightarrow> (string + rule_table) option"
where
  "alertRulePutByFE rng x c d hook may username arid f tbl =
     (case d_find_err d of Some err \<Rightarrow> Some (Inl err) | None \<Rightarrow>
      case find (\<lambda>r. r_Id r = arid) tbl of
        None \<Rightarrow> Some (Inl ''No such AlertRule'')
      | Some row \<Rightarrow>
          (case DB2FE_rule rng c row of
             None \<Rightarrow> None
           | Some ar \<Rightarrow>
               (if \<not> may (r_GroupId ar) then Some (Inl ''forbidden'') else
                case hook f of
                  Some err \<Rightarrow> Some (Inl err)
                | None \<Rightarrow> Some (Update_rule x c d ar (f\<lparr>r_UpdateBy := username\<rparr>) tbl))))"

definition Clone_rule :: "string \<Rightarrow> int \<Rightarrow> int \<Rightarrow> rule_form \<Rightarrow> rule_form" where
  "Clone_rule operatorName newBgid now ar =
     ar\<lparr>r_Id := 0, r_GroupId := newBgid, r_UpdateBy := operatorName, r_UpdateAt := now,
        r_CreateBy := operatorName, r_CreateAt := now\<rparr>"

text \<open>The rules the engine loads: at the center from the table, at the edge over the wire.\<close>

fun load_all :: "(int list \<Rightarrow> int list) \<Rightarrow> codec \<Rightarrow> rule_table \<Rightarrow> rule_form list option" where
  "load_all rng c [] = Some []"
| "load_all rng c (r # rs) =
     (case DB2FE_rule rng c r of None \<Rightarrow> None | Some fe \<Rightarrow> map_option ((#) fe) (load_all rng c rs))"

definition AlertRuleGetsAll_center where
  "AlertRuleGetsAll_center rng c tbl = load_all rng c (filter (\<lambda>r. r_Disabled r = 0) tbl)"

definition AlertRuleGetsAll_edge where
  "AlertRuleGetsAll_edge x served = map (edge_rule x) served"

section \<open>Well-formed rules\<close>

definition tag_key :: "string \<Rightarrow> string" where
  "tag_key t = hd (SplitN2 t ''='')"

text \<open>
  What a stored rule promises to the engine: a name that is not blank, a known time zone, a
  configuration, a positive interval, tags of the form \<^verbatim>\<open>key=value\<close> with distinct keys, numbers as
  groups, a schedule that the cron package accepts, and one way to notify only.
\<close>

definition rule_wf :: "env \<Rightarrow> codec \<Rightarrow> rule_form \<Rightarrow> bool" where
  "rule_wf x c r \<longleftrightarrow>
     r_GroupId r \<ge> 0 \<and> r_Name r \<noteq> [] \<and> TrimSpace (r_Name r) = r_Name r \<and> \<not> c_Dangerous c (r_Name r) \<and>
     (r_TimeZone r = [] \<or> x_LoadLocation x (r_TimeZone r) \<noteq> None) \<and>
     r_Prod r \<noteq> [] \<and> r_Cate r \<noteq> [] \<and> r_RuleConfig r \<noteq> [] \<and> r_PromEvalInterval r > 0 \<and>
     list_all (\<lambda>t. Contains t ''='') (Fields (r_AppendTags r)) \<and> distinct (map tag_key (Fields (r_AppendTags r))) \<and>
     list_all (\<lambda>g. ParseInt g \<noteq> None) (Fields (r_NotifyGroups r)) \<and>
     (r_CronPattern r = [] \<or> c_cron c (r_CronPattern r) = None) \<and>
     (r_NotifyVersion r = 0 \<longrightarrow> r_NotifyRuleIds r = []) \<and>
     (r_NotifyVersion r > 0 \<longrightarrow> r_NotifyChannels r = [] \<and> r_NotifyGroups r = [] \<and> r_Callbacks r = [])"

definition rule_rows_ok :: "env \<Rightarrow> codec \<Rightarrow> rule_table \<Rightarrow> bool" where
  "rule_rows_ok x c tbl \<longleftrightarrow> list_all (rule_wf x c) tbl \<and> 0 \<notin> r_Id ` set tbl \<and> distinct (map r_Id tbl)"

definition names_unique :: "rule_table \<Rightarrow> bool" where
  "names_unique tbl \<longleftrightarrow> distinct (map (\<lambda>r. (r_GroupId r, r_Name r)) tbl)"

text \<open>Both at once; \<open>u\<close> says whether the names are promised to be unique.\<close>

definition rule_table_ok :: "bool \<Rightarrow> env \<Rightarrow> codec \<Rightarrow> rule_table \<Rightarrow> bool" where
  "rule_table_ok u x c tbl \<longleftrightarrow> rule_rows_ok x c tbl \<and> (u \<longrightarrow> names_unique tbl)"

lemmas table_ok_defs = rule_table_ok_def rule_rows_ok_def names_unique_def

lemma check_tags_None:
  "check_tags ts seen = None \<longleftrightarrow>
     list_all (\<lambda>t. Contains t ''='') ts \<and> distinct (map tag_key ts) \<and> tag_key ` set ts \<inter> set seen = {}"
  by (induction ts arbitrary: seen) (auto simp: tag_key_def Let_def)

lemma ltrim_head: "ltrim s = [] \<or> \<not> is_space (hd (ltrim s))"
  by (induction s) auto

lemma ltrim_id: "s = [] \<or> \<not> is_space (hd s) \<Longrightarrow> ltrim s = s"
  by (cases s) auto

lemma ltrim_suffix: "\<exists>p. s = p @ ltrim s"
proof (induction s)
  case (Cons a s)
  then obtain p where "s = p @ ltrim s" by blast
  then show ?case by (cases "is_space a") (auto intro: exI [of _ "a # p"])
qed simp

lemma TrimSpace_idem [simp]: "TrimSpace (TrimSpace s) = TrimSpace s"
proof -
  define a b where "a = ltrim s" and "b = ltrim (rev a)"
  obtain p where "rev a = p @ b" using ltrim_suffix [of "rev a"] b_def by metis
  then have a: "a = rev b @ rev p" by (metis rev_append rev_rev_ident)
  have "rev b = [] \<or> \<not> is_space (hd (rev b))"
    using ltrim_head [of s] a unfolding a_def [symmetric] by (cases "rev b") auto
  moreover have "ltrim b = b" unfolding b_def by (rule ltrim_id) (rule ltrim_head)
  ultimately show ?thesis by (simp add: TrimSpace_def a_def [symmetric] b_def [symmetric] ltrim_id)
qed

text \<open>The form after verification has put its defaults in, and what verification demands of it.\<close>

definition defaults :: "rule_form \<Rightarrow> rule_form" where
  "defaults ar =
     ar\<lparr>r_Name := TrimSpace (r_Name ar), r_Prod := (if r_Prod ar = [] then ''metric'' else r_Prod ar),
        r_Cate := (if r_Cate ar = [] then ''prometheus'' else r_Cate ar),
        r_PromEvalInterval := (if r_PromEvalInterval ar \<le> 0 then 15 else r_PromEvalInterval ar),
        r_AppendTags := TrimSpace (r_AppendTags ar)\<rparr>"

lemma if_update:
  "(if b then ar\<lparr>r_Prod := p\<rparr> else ar) = ar\<lparr>r_Prod := (if b then p else r_Prod ar)\<rparr>"
  "(if b then ar\<lparr>r_Cate := p\<rparr> else ar) = ar\<lparr>r_Cate := (if b then p else r_Cate ar)\<rparr>"
  "(if b then ar\<lparr>r_PromEvalInterval := i\<rparr> else ar) =
     ar\<lparr>r_PromEvalInterval := (if b then i else r_PromEvalInterval ar)\<rparr>"
  for ar :: rule_form
  by simp_all

lemma guard_Inr:
  "(if b then Inl e else r) = Inr v \<longleftrightarrow> \<not> b \<and> r = Inr v"
  "(case err of Some e' \<Rightarrow> Inl e' | None \<Rightarrow> r) = Inr v \<longleftrightarrow> err = None \<and> r = Inr v"
  by (auto split: option.split)

lemma validateCronPattern_None:
  "validateCronPattern c ar = None \<longleftrightarrow> r_CronPattern ar = [] \<or> c_cron c (r_CronPattern ar) = None"
  by (simp add: validateCronPattern_def)

lemma count_update [simp]:
  "enableStimeCount (r_Name_update f ar) = enableStimeCount ar"
  "enableStimeCount (r_Prod_update f ar) = enableStimeCount ar"
  "enableStimeCount (r_Cate_update f ar) = enableStimeCount ar"
  "enableStimeCount (r_PromEvalInterval_update g ar) = enableStimeCount ar"
  "enableStimeCount (r_AppendTags_update f ar) = enableStimeCount ar"
  "enableEtimeCount (r_Name_update f ar) = enableEtimeCount ar"
  "enableEtimeCount (r_Prod_update f ar) = enableEtimeCount ar"
  "enableEtimeCount (r_Cate_update f ar) = enableEtimeCount ar"
  "enableEtimeCount (r_PromEvalInterval_update g ar) = enableEtimeCount ar"
  "enableEtimeCount (r_AppendTags_update f ar) = enableEtimeCount ar"
  "enableWeekCount (r_Name_update f ar) = enableWeekCount ar"
  "enableWeekCount (r_Prod_update f ar) = enableWeekCount ar"
  "enableWeekCount (r_Cate_update f ar) = enableWeekCount ar"
  "enableWeekCount (r_PromEvalInterval_update g ar) = enableWeekCount ar"
  "enableWeekCount (r_AppendTags_update f ar) = enableWeekCount ar"
  by (simp_all add: enableStimeCount_def enableEtimeCount_def enableWeekCount_def)

lemma Verify_rule_iff:
  "Verify_rule x c ar = Inr ar' \<longleftrightarrow>
     0 \<le> r_GroupId ar \<and> TrimSpace (r_Name ar) \<noteq> [] \<and>
     \<not> (r_TimeZone ar \<noteq> [] \<and> x_LoadLocation x (r_TimeZone ar) = None) \<and>
     \<not> c_Dangerous c (TrimSpace (r_Name ar)) \<and> r_RuleConfig ar \<noteq> [] \<and>
     check_tags (Fields (TrimSpace (r_AppendTags ar))) [] = None \<and>
     \<not> list_ex (\<lambda>g. ParseInt g = None) (Fields (r_NotifyGroups ar)) \<and>
     \<not> (enableStimeCount ar \<noteq> enableEtimeCount ar \<or> enableStimeCount ar \<noteq> enableWeekCount ar) \<and>
     validateCronPattern c ar = None \<and> clear_notify (defaults ar) = ar'"
  unfolding Verify_rule_def Let_def if_update guard_Inr
  by (simp add: validateCronPattern_None defaults_def not_less cong: if_cong split del: if_split)

text \<open>Verification gives a well-formed rule and keeps the number, the group and the trimmed name.\<close>

lemma clear_notify_fields [simp]:
  "r_Id (clear_notify ar) = r_Id ar" "r_GroupId (clear_notify ar) = r_GroupId ar"
  "r_Name (clear_notify ar) = r_Name ar"
  by (simp_all add: clear_notify_def Let_def)

lemma Verify_rule_fields:
  assumes "Verify_rule x c ar = Inr ar'"
  shows "r_Id ar' = r_Id ar" and "r_GroupId ar' = r_GroupId ar" and "r_Name ar' = TrimSpace (r_Name ar)"
proof -
  have ar': "ar' = clear_notify (defaults ar)" using assms by (simp add: Verify_rule_iff)
  show "r_Id ar' = r_Id ar" and "r_GroupId ar' = r_GroupId ar" and "r_Name ar' = TrimSpace (r_Name ar)"
    by (simp_all add: ar' defaults_def)
qed

lemma Verify_rule_wf:
  assumes "Verify_rule x c ar = Inr ar'"
  shows "rule_wf x c (row_of ar')"
proof -
  have ar': "ar' = clear_notify (defaults ar)" using assms by (simp add: Verify_rule_iff)
  from assms show ?thesis
    by (simp add: Verify_rule_iff ar' rule_wf_def row_of_def clear_notify_def defaults_def Let_def check_tags_None
        validateCronPattern_None list_ex_iff list_all_iff Fields_def)
qed

lemma row_of_fields [simp]:
  "r_Id (row_of ar) = r_Id ar" "r_GroupId (row_of ar) = r_GroupId ar" "r_Name (row_of ar) = r_Name ar"
  by (simp_all add: row_of_def)

text \<open>What the conversion leaves alone, and the columns of the schedule after it.\<close>

lemma fe_keeps [simp]:
  "r_Name (fe_times ar) = r_Name ar" "r_Name (fe_days ar) = r_Name ar" "r_Name (fe_lists ar) = r_Name ar"
  "r_Name (fe_config x ar) = r_Name ar" "r_Name (fe_documents x ar) = r_Name ar"
  "r_EnableStime (fe_days ar) = r_EnableStime ar" "r_EnableStime (fe_lists ar) = r_EnableStime ar"
  "r_EnableStime (fe_config x ar) = r_EnableStime ar" "r_EnableStime (fe_documents x ar) = r_EnableStime ar"
  "r_EnableEtime (fe_days ar) = r_EnableEtime ar" "r_EnableEtime (fe_lists ar) = r_EnableEtime ar"
  "r_EnableEtime (fe_config x ar) = r_EnableEtime ar" "r_EnableEtime (fe_documents x ar) = r_EnableEtime ar"
  "r_EnableDaysOfWeek (fe_lists ar) = r_EnableDaysOfWeek ar"
  "r_EnableDaysOfWeek (fe_config x ar) = r_EnableDaysOfWeek ar"
  "r_EnableDaysOfWeek (fe_documents x ar) = r_EnableDaysOfWeek ar"
  "r_TimeZone (fe_times ar) = r_TimeZone ar" "r_TimeZone (fe_days ar) = r_TimeZone ar"
  "r_TimeZone (fe_lists ar) = r_TimeZone ar" "r_TimeZone (fe_config x ar) = r_TimeZone ar"
  "r_TimeZone (fe_documents x ar) = r_TimeZone ar"
  by (simp_all add: fe_times_def fe_days_def fe_lists_def fe_config_def fe_documents_def Let_def split: option.split)

lemma FE2DB_rule_keeps [simp]:
  "r_Name (FE2DB_rule x ar) = r_Name ar" "r_TimeZone (FE2DB_rule x ar) = r_TimeZone ar"
  by (simp_all add: FE2DB_rule_def Let_def)

text \<open>The operations of the table keep it well-formed, for a new row and for a row that is replaced.\<close>

lemma table_ok_insert:
  assumes "rule_table_ok u x c tbl" and "rule_wf x c r" and "r_Id r \<notin> r_Id ` set tbl" and "r_Id r \<noteq> 0"
    and "u \<Longrightarrow> \<forall>q \<in> set tbl. r_GroupId q = r_GroupId r \<longrightarrow> r_Name q \<noteq> r_Name r"
  shows "rule_table_ok u x c (tbl @ [r])"
  using assms by (auto simp: table_ok_defs)

lemma table_ok_replace:
  assumes "rule_table_ok u x c tbl" and "rule_wf x c r"
    and "u \<Longrightarrow> \<forall>q \<in> set tbl. r_Id q \<noteq> r_Id r \<longrightarrow> r_GroupId q = r_GroupId r \<longrightarrow> r_Name q \<noteq> r_Name r"
  shows "rule_table_ok u x c (map (\<lambda>q. if r_Id q = r_Id r then r else q) tbl)"
proof -
  let ?f = "\<lambda>q. if r_Id q = r_Id r then r else q" and ?key = "\<lambda>q. (r_GroupId q, r_Name q)"
  have ids: "map r_Id (map ?f tbl) = map r_Id tbl" by simp
  have d: "distinct (map r_Id tbl)" using assms(1) by (simp add: table_ok_defs)
  have "distinct (map ?key (map ?f tbl))" if u
  proof -
    have k: "distinct (map ?key tbl)" using assms(1) that by (simp add: table_ok_defs)
    have "inj_on (\<lambda>q. ?key (?f q)) (set tbl)"
    proof (rule inj_onI)
      fix p q assume pq: "p \<in> set tbl" "q \<in> set tbl" "?key (?f p) = ?key (?f q)"
      show "p = q"
      proof (cases "r_Id p = r_Id r \<or> r_Id q = r_Id r")
        case True
        with pq assms(3) [OF that] have "r_Id p = r_Id q" by (auto split: if_splits)
        with d pq show ?thesis by (meson distinct_map inj_onD)
      next
        case False
        with pq k show ?thesis by (auto simp: distinct_map dest: inj_onD)
      qed
    qed
    moreover have "distinct tbl" using d by (simp add: distinct_map)
    ultimately show ?thesis by (simp add: distinct_map comp_def)
  qed
  moreover have "list_all (rule_wf x c) (map ?f tbl)"
    using assms(1,2) by (auto simp: table_ok_defs list_all_iff)
  moreover have "0 \<notin> r_Id ` set (map ?f tbl)" using assms(1) by (auto simp: table_ok_defs split: if_splits)
  ultimately show ?thesis using d unfolding table_ok_defs ids by blast
qed

lemma table_ok_filter: "rule_table_ok u x c tbl \<Longrightarrow> rule_table_ok u x c (filter P tbl)"
  by (auto simp: table_ok_defs list_all_iff distinct_map inj_on_subset)

lemma table_ok_Add:
  assumes "rule_table_ok u x c tbl" and "Add_rule x c d ar tbl = Inr tbl'"
    and nz: "d_next_id d tbl \<noteq> 0"
  shows "rule_table_ok u x c tbl'"
proof -
  obtain ar1 where v: "Verify_rule x c ar = Inr ar1"
    and ex: "AlertRuleExists d tbl 0 (r_GroupId ar1) (r_Name ar1) = Inr False"
    and ins: "Insert_rule d (ar1\<lparr>r_CreateAt := d_now d, r_UpdateAt := d_now d\<rparr>) tbl = Inr tbl'"
    using assms(2) by (auto simp: Add_rule_def split: sum.splits bool.splits)
  obtain i where i: "i \<notin> r_Id ` set tbl" "i \<noteq> 0"
    and tbl': "tbl' = tbl @ [row_of (ar1\<lparr>r_CreateAt := d_now d, r_UpdateAt := d_now d, r_Id := i\<rparr>)]"
    using ins nz by (auto simp: Insert_rule_def Let_def split: option.splits if_splits)
  have "rule_wf x c (row_of (ar1\<lparr>r_CreateAt := d_now d, r_UpdateAt := d_now d, r_Id := i\<rparr>))"
    using Verify_rule_wf [OF v] by (simp add: rule_wf_def row_of_def)
  then show ?thesis unfolding tbl'
    by (rule table_ok_insert [OF assms(1)])
      (use i ex assms(1) in \<open>auto simp: AlertRuleExists_def list_ex_iff table_ok_defs split: option.splits\<close>)
qed

lemma table_ok_Update:
  assumes "rule_table_ok u x c tbl" and "Update_rule x c d ar arf tbl = Inr tbl'" and "row \<in> set tbl"
    and same: "r_Id row = r_Id ar" "r_GroupId row = r_GroupId ar" "r_Name row = r_Name ar"
    and trimmed: "u \<Longrightarrow> TrimSpace (r_Name arf) = r_Name arf"
  shows "rule_table_ok u x c tbl'"
proof -
  define arf1 where "arf1 = (FE2DB_rule x arf)\<lparr>r_Id := r_Id ar, r_GroupId := r_GroupId ar, r_CreateAt := r_CreateAt ar,
                              r_CreateBy := r_CreateBy ar, r_UpdateAt := d_now d\<rparr>"
  obtain arf2 where v: "Verify_rule x c arf1 = Inr arf2"
    and tbl': "tbl' = map (\<lambda>r. if r_Id r = r_Id ar then row_of arf2 else r) tbl"
    and free: "r_Name ar \<noteq> r_Name arf \<Longrightarrow> AlertRuleExists d tbl (r_Id ar) (r_GroupId ar) (r_Name arf) = Inr False"
    using assms(2) unfolding Update_rule_def arf1_def [symmetric] Let_def
    by (auto split: sum.splits bool.splits option.splits if_splits)
  have f: "r_Id arf2 = r_Id ar" "r_GroupId arf2 = r_GroupId ar" "u \<Longrightarrow> r_Name arf2 = r_Name arf"
    using Verify_rule_fields [OF v] trimmed by (simp_all add: arf1_def)
  have "r_Name q \<noteq> r_Name arf" if u and q: "q \<in> set tbl" "r_Id q \<noteq> r_Id ar" "r_GroupId q = r_GroupId ar" for q
  proof (cases "r_Name ar = r_Name arf")
    case True
    have "inj_on (\<lambda>r. (r_GroupId r, r_Name r)) (set tbl)" using assms(1) \<open>u\<close> by (simp add: table_ok_defs distinct_map)
    from inj_onD [OF this _ q(1) assms(3)] q(2,3) same True show ?thesis by auto
  next
    case False
    from free [OF False] q show ?thesis
      by (auto simp: AlertRuleExists_def list_ex_iff split: option.splits)
  qed
  then show ?thesis
    using table_ok_replace [OF assms(1) Verify_rule_wf [OF v]] by (simp add: f tbl')
qed

lemma FillSeverities_keeps [simp]:
  "r_Id (FillSeverities rng c ar) = r_Id ar" "r_GroupId (FillSeverities rng c ar) = r_GroupId ar"
  "r_Name (FillSeverities rng c ar) = r_Name ar" "r_TimeZone (FillSeverities rng c ar) = r_TimeZone ar"
  "r_EnableStimesJSON (FillSeverities rng c ar) = r_EnableStimesJSON ar" "r_EnableEtimesJSON (FillSeverities rng c ar) = r_EnableEtimesJSON ar"
  "r_EnableStimeJSON (FillSeverities rng c ar) = r_EnableStimeJSON ar" "r_EnableEtimeJSON (FillSeverities rng c ar) = r_EnableEtimeJSON ar"
  "r_EnableDaysOfWeeksJSON (FillSeverities rng c ar) = r_EnableDaysOfWeeksJSON ar"
  by (simp_all add: FillSeverities_def Let_def case_prod_unfold)

lemma FillDatasourceQueries_keeps [simp]:
  "r_Id (FillDatasourceQueries c ar) = r_Id ar" "r_GroupId (FillDatasourceQueries c ar) = r_GroupId ar"
  "r_Name (FillDatasourceQueries c ar) = r_Name ar" "r_TimeZone (FillDatasourceQueries c ar) = r_TimeZone ar"
  "r_EnableStimesJSON (FillDatasourceQueries c ar) = r_EnableStimesJSON ar" "r_EnableEtimesJSON (FillDatasourceQueries c ar) = r_EnableEtimesJSON ar"
  "r_EnableStimeJSON (FillDatasourceQueries c ar) = r_EnableStimeJSON ar" "r_EnableEtimeJSON (FillDatasourceQueries c ar) = r_EnableEtimeJSON ar"
  "r_EnableDaysOfWeeksJSON (FillDatasourceQueries c ar) = r_EnableDaysOfWeeksJSON ar"
  by (simp_all add: FillDatasourceQueries_def)

lemma db_cron_keeps [simp]:
  "r_Id (db_cron ar) = r_Id ar" "r_GroupId (db_cron ar) = r_GroupId ar"
  "r_Name (db_cron ar) = r_Name ar" "r_TimeZone (db_cron ar) = r_TimeZone ar"
  "r_EnableStimesJSON (db_cron ar) = r_EnableStimesJSON ar" "r_EnableEtimesJSON (db_cron ar) = r_EnableEtimesJSON ar"
  "r_EnableStimeJSON (db_cron ar) = r_EnableStimeJSON ar" "r_EnableEtimeJSON (db_cron ar) = r_EnableEtimeJSON ar"
  "r_EnableDaysOfWeeksJSON (db_cron ar) = r_EnableDaysOfWeeksJSON ar"
  by (simp_all add: db_cron_def)

lemma db_lists_keeps [simp]:
  "r_Id (db_lists c ar) = r_Id ar" "r_GroupId (db_lists c ar) = r_GroupId ar"
  "r_Name (db_lists c ar) = r_Name ar" "r_TimeZone (db_lists c ar) = r_TimeZone ar"
  "r_EnableStimesJSON (db_lists c ar) = r_EnableStimesJSON ar" "r_EnableEtimesJSON (db_lists c ar) = r_EnableEtimesJSON ar"
  "r_EnableStimeJSON (db_lists c ar) = r_EnableStimeJSON ar" "r_EnableEtimeJSON (db_lists c ar) = r_EnableEtimeJSON ar"
  "r_EnableDaysOfWeeksJSON (db_lists c ar) = r_EnableDaysOfWeeksJSON ar"
  by (simp_all add: db_lists_def)

lemma db_days_keeps [simp]:
  "r_Id (db_days ar) = r_Id ar" "r_GroupId (db_days ar) = r_GroupId ar"
  "r_Name (db_days ar) = r_Name ar" "r_TimeZone (db_days ar) = r_TimeZone ar"
  "r_EnableStimesJSON (db_days ar) = r_EnableStimesJSON ar" "r_EnableEtimesJSON (db_days ar) = r_EnableEtimesJSON ar"
  "r_EnableStimeJSON (db_days ar) = r_EnableStimeJSON ar" "r_EnableEtimeJSON (db_days ar) = r_EnableEtimeJSON ar"
  by (simp_all add: db_days_def Let_def)

lemma DB2FE_rule_keeps:
  assumes "DB2FE_rule rng c ar = Some fe"
  shows "r_Id fe = r_Id ar" "r_GroupId fe = r_GroupId ar" "r_Name fe = r_Name ar" "r_TimeZone fe = r_TimeZone ar"
    and "r_EnableStimesJSON fe = Fields (r_EnableStime ar)" "r_EnableEtimesJSON fe = Fields (r_EnableEtime ar)"
    and "r_EnableDaysOfWeeksJSON fe = r_EnableDaysOfWeeksJSON ar @ map Fields (Split (r_EnableDaysOfWeek ar) '';'')"
    and "Fields (r_EnableEtime ar) = [] \<Longrightarrow>
           r_EnableStimeJSON fe = r_EnableStimeJSON ar \<and> r_EnableEtimeJSON fe = r_EnableEtimeJSON ar"
    and "Fields (r_EnableStime ar) = [] \<Longrightarrow> Fields (r_EnableEtime ar) = []"
proof -
  obtain ar1 where t: "db_times ar = Some ar1"
    and fe: "fe = FillSeverities rng c (FillDatasourceQueries c (db_cron (db_lists c (db_days ar1))))"
    using assms by (auto simp: DB2FE_rule_def split: option.splits)
  have k: "r_Id fe = r_Id ar1" "r_GroupId fe = r_GroupId ar1" "r_Name fe = r_Name ar1" "r_TimeZone fe = r_TimeZone ar1"
    "r_EnableStimesJSON fe = r_EnableStimesJSON ar1" "r_EnableEtimesJSON fe = r_EnableEtimesJSON ar1"
    "r_EnableStimeJSON fe = r_EnableStimeJSON ar1" "r_EnableEtimeJSON fe = r_EnableEtimeJSON ar1"
    "r_EnableDaysOfWeeksJSON fe = r_EnableDaysOfWeeksJSON ar1 @ map Fields (Split (r_EnableDaysOfWeek ar1) '';'')"
    by (simp_all add: fe) (simp add: db_days_def Let_def)
  show "r_Id fe = r_Id ar" "r_GroupId fe = r_GroupId ar" "r_Name fe = r_Name ar" "r_TimeZone fe = r_TimeZone ar"
    "r_EnableStimesJSON fe = Fields (r_EnableStime ar)" "r_EnableEtimesJSON fe = Fields (r_EnableEtime ar)"
    "r_EnableDaysOfWeeksJSON fe = r_EnableDaysOfWeeksJSON ar @ map Fields (Split (r_EnableDaysOfWeek ar) '';'')"
    "Fields (r_EnableEtime ar) = [] \<Longrightarrow>
       r_EnableStimeJSON fe = r_EnableStimeJSON ar \<and> r_EnableEtimeJSON fe = r_EnableEtimeJSON ar"
    "Fields (r_EnableStime ar) = [] \<Longrightarrow> Fields (r_EnableEtime ar) = []"
    using t unfolding k by (auto simp: db_times_def Let_def split: if_splits)
qed

section \<open>Sequences of requests\<close>

datatype rule_op =
    OpAdd rule_form
  | OpImport bool "rule_form list" string int
  | OpPut "int \<Rightarrow> bool" int rule_form string
  | OpDel "int list" "int option"

definition run_rule_op ::
  "(int list \<Rightarrow> int list) \<Rightarrow> env \<Rightarrow> codec \<Rightarrow> (rule_form \<Rightarrow> string option) \<Rightarrow> (string \<Rightarrow> string) \<Rightarrow> rule_db \<times> rule_op \<Rightarrow>
     rule_table \<Rightarrow> rule_table"
where
  "run_rule_op rng x c hook tr = (\<lambda>(d, op) tbl.
     case op of
       OpAdd f \<Rightarrow> (case Add_rule x c d (FE2DB_rule x f) tbl of Inl err \<Rightarrow> tbl | Inr tbl1 \<Rightarrow> tbl1)
     | OpImport force lst username bgid \<Rightarrow>
         snd (if force then alertRuleUpsert x c d hook tr lst username bgid tbl
              else alertRuleAdd x c d hook tr lst username bgid tbl)
     | OpPut may arid f username \<Rightarrow>
         (case alertRulePutByFE rng x c d hook may username arid f tbl of
            Some (Inr tbl1) \<Rightarrow> tbl1 | _ \<Rightarrow> tbl)
     | OpDel rids bgid \<Rightarrow> fst (snd (AlertRuleDels (\<lambda>i. d_write_err d) rids bgid (tbl, []))))"

fun trimmed_op :: "rule_db \<times> rule_op \<Rightarrow> bool" where
  "trimmed_op (d, OpPut may arid f username) \<longleftrightarrow> TrimSpace (r_Name f) = r_Name f"
| "trimmed_op (d, op) \<longleftrightarrow> True"

lemma table_ok_Dels: "rule_table_ok u x c tbl \<Longrightarrow> rule_table_ok u x c (fst (snd (AlertRuleDels err rids bgid (tbl, cur))))"
  by (induction err rids bgid "(tbl, cur)" arbitrary: tbl cur rule: AlertRuleDels.induct)
    (auto simp: Let_def table_ok_filter split: option.split)

lemma fold_table_ok:
  assumes "\<And>a m tbl. rule_table_ok u x c tbl \<Longrightarrow> rule_table_ok u x c (snd (f a (m, tbl)))" and "rule_table_ok u x c tbl"
  shows "rule_table_ok u x c (snd (fold f lst (m, tbl)))"
  using assms(2)
proof (induction lst arbitrary: m tbl)
  case (Cons a lst)
  from Cons.IH [of "snd (f a (m, tbl))" "fst (f a (m, tbl))"] assms(1) [OF Cons.prems, of a m]
  show ?case by simp
qed simp

lemma table_ok_add_one:
  assumes "rule_table_ok u x c tbl" and "\<And>t. d_next_id d t \<noteq> 0"
  shows "rule_table_ok u x c (snd (add_one x c d hook tr username bgid ar (m, tbl)))"
  using assms by (auto simp: add_one_def Let_def split: option.split sum.split dest: table_ok_Add)

lemma table_ok_Upsert:
  assumes ok: "rule_table_ok u x c tbl" and "Upsert_rule x c d ar tbl = Inr tbl'" and "\<And>t. d_next_id d t \<noteq> 0"
  shows "rule_table_ok u x c tbl'"
proof (cases "find (\<lambda>r. r_GroupId r = r_GroupId ar \<and> r_Name r = r_Name ar) tbl")
  case None
  with assms show ?thesis by (auto simp: Upsert_rule_def split: option.splits dest: table_ok_Add)
next
  case (Some row)
  then have row: "row \<in> set tbl" "r_Name row = r_Name ar" by (auto simp: find_Some_iff)
  then have "TrimSpace (r_Name ar) = r_Name ar" using ok by (auto simp: table_ok_defs list_all_iff rule_wf_def)
  moreover have "Update_rule x c d row ar tbl = Inr tbl'"
    using assms(2) Some by (auto simp: Upsert_rule_def split: option.splits)
  ultimately show ?thesis using table_ok_Update [OF ok _ row(1)] by blast
qed

lemma table_ok_upsert_one:
  assumes "rule_table_ok u x c tbl" and "\<And>t. d_next_id d t \<noteq> 0"
  shows "rule_table_ok u x c (snd (upsert_one x c d hook tr username bgid ar (m, tbl)))"
  using assms by (auto simp: upsert_one_def Let_def split: option.split sum.split dest: table_ok_Upsert)

lemma table_ok_Put:
  assumes ok: "rule_table_ok u x c tbl" and "alertRulePutByFE rng x c d hook may username arid f tbl = Some (Inr tbl')"
    and "u \<Longrightarrow> TrimSpace (r_Name f) = r_Name f"
  shows "rule_table_ok u x c tbl'"
proof -
  obtain row ar where row: "find (\<lambda>r. r_Id r = arid) tbl = Some row" and ar: "DB2FE_rule rng c row = Some ar"
    and u: "Update_rule x c d ar (f\<lparr>r_UpdateBy := username\<rparr>) tbl = Inr tbl'"
    using assms(2) by (auto simp: alertRulePutByFE_def split: option.splits if_splits)
  have "row \<in> set tbl" using row by (auto simp: find_Some_iff)
  then show ?thesis
    using table_ok_Update [OF ok u] DB2FE_rule_keeps(1-3) [OF ar] assms(3) by simp
qed

lemma table_ok_run_op:
  assumes "rule_table_ok u x c tbl" and "u \<longrightarrow> trimmed_op a" and "\<And>t. d_next_id (fst a) t \<noteq> 0"
  shows "rule_table_ok u x c (run_rule_op rng x c hook tr a tbl)"
proof -
  obtain d op where a: "a = (d, op)" by force
  show ?thesis
  proof (cases op)
    case (OpAdd f)
    with assms show ?thesis by (auto simp: run_rule_op_def a split: sum.split dest: table_ok_Add)
  next
    case (OpImport force lst username bgid)
    then show ?thesis
      using assms fold_table_ok [where f = "add_one x c d hook tr username bgid", OF table_ok_add_one]
        fold_table_ok [where f = "upsert_one x c d hook tr username bgid", OF table_ok_upsert_one]
      by (simp add: run_rule_op_def a alertRuleAdd_def alertRuleUpsert_def)
  next
    case (OpPut may arid f username)
    with assms show ?thesis by (auto simp: run_rule_op_def a split: option.split sum.split dest: table_ok_Put)
  next
    case (OpDel rids bgid)
    with assms show ?thesis by (simp add: run_rule_op_def a table_ok_Dels)
  qed
qed

section \<open>The schedule\<close>

lemma join_days_append:
  "ds \<noteq> [] \<Longrightarrow> n \<noteq> 1 \<Longrightarrow> join_days n ds acc = acc @ Join (map (\<lambda>d. Join d '' '') ds) '';''"
proof (induction n ds acc rule: join_days.induct)
  case (2 n d ds acc)
  then show ?case by (cases ds) auto
qed simp

lemma join_days_fresh:
  "ds \<noteq> [] \<Longrightarrow> join_days (length ds) ds [] = Join (map (\<lambda>d. Join d '' '') ds) '';''"
proof (cases "length ds = 1")
  case True
  then obtain d where "ds = [d]" by (metis One_nat_def length_0_conv length_Suc_conv)
  then show ?thesis by simp
qed (simp add: join_days_append)

lemma FE2DB_rule_schedule:
  "r_EnableStime (FE2DB_rule x ar) =
     (if r_EnableStimesJSON ar \<noteq> [] then Join (r_EnableStimesJSON ar) '' '' else r_EnableStimeJSON ar)"
  "r_EnableEtime (FE2DB_rule x ar) =
     (if r_EnableStimesJSON ar \<noteq> [] then Join (r_EnableEtimesJSON ar) '' '' else r_EnableEtimeJSON ar)"
  "r_EnableDaysOfWeek ar = [] \<Longrightarrow> r_EnableDaysOfWeek (FE2DB_rule x ar) =
     (if r_EnableDaysOfWeeksJSON ar \<noteq> [] then Join (map (\<lambda>d. Join d '' '') (r_EnableDaysOfWeeksJSON ar)) '';''
      else Join (r_EnableDaysOfWeekJSON ar) '' '')"
  by (simp_all add: FE2DB_rule_def Let_def fe_times_def) (simp add: fe_days_def join_days_fresh)

text \<open>Words of a text and the text of the words.\<close>

abbreviation compact :: "string \<Rightarrow> string" where
  "compact \<equiv> filter (\<lambda>ch. \<not> is_space ch)"

lemma fields_acc_words:
  "\<forall>ch \<in> set w. \<not> is_space ch \<Longrightarrow> list_all plain_word (fields_acc w s) \<and> concat (fields_acc w s) = w @ compact s"
  by (induction w s rule: fields_acc.induct) (auto simp: plain_word_def)

lemma Fields_plain: "list_all plain_word (Fields s)"
  and concat_Fields: "concat (Fields s) = compact s"
  using fields_acc_words [of "[]" s] by (simp_all add: Fields_def)

lemma compact_plain: "plain_word w \<Longrightarrow> compact w = w"
  by (simp add: plain_word_def filter_id_conv)

lemma space_blank: "is_space (CHR '' '')"
  by (simp add: is_space_def)

lemma space_code: "is_space ch \<Longrightarrow> (of_char ch :: nat) \<le> 32"
  by (auto simp: is_space_def)

lemma compact_Join: "list_all plain_word ws \<Longrightarrow> compact (Join ws '' '') = concat ws"
  by (induction ws "'' ''" rule: Join.induct) (auto simp: compact_plain space_blank)

lemma Fields_Fields: "Fields (Join (Fields s) '' '') = Fields s"
  by (rule Fields_words) (rule Fields_plain)

lemma compact_Fields: "compact (Join (Fields s) '' '') = compact s"
  by (simp add: compact_Join Fields_plain concat_Fields)

lemma Join_plain_Nil: "list_all plain_word ws \<Longrightarrow> Join ws '' '' = [] \<longleftrightarrow> ws = []"
  by (cases ws) (auto simp: plain_word_def Join_Cons split: list.split elim: Join.elims)

lemma set_Join: "set (Join ws '' '') \<subseteq> insert (CHR '' '') (\<Union> (set ` set ws))"
  by (induction ws "'' ''" rule: Join.induct) auto

lemma Replace1_Cons: "Replace1 (a # s) [p] [q] = (if a = p then q # s else a # Replace1 s [p] [q])"
  by (cases "Cut s [p]") (auto simp: Replace1_def)

lemma Replace1_compact:
  "\<not> is_space ch \<Longrightarrow> \<not> is_space p \<Longrightarrow> \<not> is_space q \<Longrightarrow>
     ch \<in> set (Replace1 (compact s) [p] [q]) \<longleftrightarrow> ch \<in> set (Replace1 s [p] [q])"
proof (induction s)
  case (Cons a s)
  then show ?case by (cases "is_space a") (auto simp: Replace1_Cons)
qed simp

text \<open>A group of days counts by its characters other than white space.\<close>

lemma span_effective_compact:
  assumes "compact d = compact d'" and "tw = [ch]" and "\<not> is_space ch"
  shows "span_effective tt tw st et d = span_effective tt tw st et d'"
proof -
  have "ch \<in> set (Replace1 d ''7'' ''0'') \<longleftrightarrow> ch \<in> set (Replace1 d' ''7'' ''0'')"
    using Replace1_compact [OF assms(3), of "CHR ''7''" "CHR ''0''" d]
      Replace1_compact [OF assms(3), of "CHR ''7''" "CHR ''0''" d']
    unfolding assms(1) by (simp add: is_space_def)
  then show ?thesis by (simp add: span_effective_def assms(2) Contains_singleton)
qed

lemma span_loop_compact:
  assumes "map compact ds = map compact ds'" and "tw = [ch]" and "\<not> is_space ch"
  shows "span_loop tt tw ss es ds = span_loop tt tw ss es ds'"
  using assms
proof (induction tt tw ss es ds arbitrary: ds' rule: span_loop.induct)
  case (1 tt tw s ss e es d ds)
  then obtain d1 ds1 where ds': "ds' = d1 # ds1" and "compact d = compact d1" "map compact ds = map compact ds1"
    by (cases ds') auto
  moreover have "span_effective tt tw s e d = span_effective tt tw s e d1"
    by (rule span_effective_compact) (use calculation "1.prems" in auto)
  ultimately show ?case using 1 by simp
qed auto

lemma fe_keeps_form [simp]:
  "r_EnableStimesJSON (fe_times ar) = r_EnableStimesJSON ar" "r_EnableStimesJSON (fe_days ar) = r_EnableStimesJSON ar"
  "r_EnableStimesJSON (fe_lists ar) = r_EnableStimesJSON ar" "r_EnableStimesJSON (fe_config x ar) = r_EnableStimesJSON ar"
  "r_EnableStimesJSON (fe_documents x ar) = r_EnableStimesJSON ar"
  "r_EnableEtimesJSON (fe_times ar) = r_EnableEtimesJSON ar" "r_EnableEtimesJSON (fe_days ar) = r_EnableEtimesJSON ar"
  "r_EnableEtimesJSON (fe_lists ar) = r_EnableEtimesJSON ar" "r_EnableEtimesJSON (fe_config x ar) = r_EnableEtimesJSON ar"
  "r_EnableEtimesJSON (fe_documents x ar) = r_EnableEtimesJSON ar"
  "r_EnableStimeJSON (fe_times ar) = r_EnableStimeJSON ar" "r_EnableStimeJSON (fe_days ar) = r_EnableStimeJSON ar"
  "r_EnableStimeJSON (fe_lists ar) = r_EnableStimeJSON ar" "r_EnableStimeJSON (fe_config x ar) = r_EnableStimeJSON ar"
  "r_EnableStimeJSON (fe_documents x ar) = r_EnableStimeJSON ar"
  "r_EnableEtimeJSON (fe_times ar) = r_EnableEtimeJSON ar" "r_EnableEtimeJSON (fe_days ar) = r_EnableEtimeJSON ar"
  "r_EnableEtimeJSON (fe_lists ar) = r_EnableEtimeJSON ar" "r_EnableEtimeJSON (fe_config x ar) = r_EnableEtimeJSON ar"
  "r_EnableEtimeJSON (fe_documents x ar) = r_EnableEtimeJSON ar"
  "r_EnableDaysOfWeeksJSON (fe_times ar) = r_EnableDaysOfWeeksJSON ar" "r_EnableDaysOfWeeksJSON (fe_days ar) = r_EnableDaysOfWeeksJSON ar"
  "r_EnableDaysOfWeeksJSON (fe_lists ar) = r_EnableDaysOfWeeksJSON ar" "r_EnableDaysOfWeeksJSON (fe_config x ar) = r_EnableDaysOfWeeksJSON ar"
  "r_EnableDaysOfWeeksJSON (fe_documents x ar) = r_EnableDaysOfWeeksJSON ar"
  "r_EnableDaysOfWeekJSON (fe_times ar) = r_EnableDaysOfWeekJSON ar" "r_EnableDaysOfWeekJSON (fe_days ar) = r_EnableDaysOfWeekJSON ar"
  "r_EnableDaysOfWeekJSON (fe_lists ar) = r_EnableDaysOfWeekJSON ar" "r_EnableDaysOfWeekJSON (fe_config x ar) = r_EnableDaysOfWeekJSON ar"
  "r_EnableDaysOfWeekJSON (fe_documents x ar) = r_EnableDaysOfWeekJSON ar"
  by (simp_all add: fe_times_def fe_days_def fe_lists_def fe_config_def fe_documents_def Let_def split: option.split)

lemma FE2DB_rule_counts:
  "enableStimeCount (FE2DB_rule x ar) = enableStimeCount ar" "enableEtimeCount (FE2DB_rule x ar) = enableEtimeCount ar"
  "enableWeekCount (FE2DB_rule x ar) = enableWeekCount ar"
  by (simp_all add: FE2DB_rule_def enableStimeCount_def enableEtimeCount_def enableWeekCount_def Let_def)

text \<open>
  A schedule as the web interface sends it: times and days are words, the old and the new fields are
  not mixed, and every group has a day.
\<close>

definition day_word :: "string \<Rightarrow> bool" where
  "day_word w \<longleftrightarrow> plain_word w \<and> CHR '';'' \<notin> set w"

definition plain_times :: "rule_form \<Rightarrow> bool" where
  "plain_times f \<longleftrightarrow>
     list_all plain_word (r_EnableStimesJSON f @ r_EnableEtimesJSON f) \<and>
     list_all (\<lambda>w. w = [] \<or> plain_word w) [r_EnableStimeJSON f, r_EnableEtimeJSON f] \<and>
     (r_EnableStimesJSON f = [] \<longleftrightarrow> r_EnableEtimesJSON f = [])"

definition plain_days :: "rule_form \<Rightarrow> bool" where
  "plain_days f \<longleftrightarrow>
     list_all day_word (r_EnableDaysOfWeekJSON f) \<and> list_all (list_all day_word) (r_EnableDaysOfWeeksJSON f) \<and>
     ([] \<in> set (r_EnableDaysOfWeeksJSON f) \<longrightarrow> r_EnableDaysOfWeeksJSON f = [[]] \<and> r_EnableDaysOfWeekJSON f = []) \<and>
     r_EnableDaysOfWeek f = []"

lemma Fields_word: "plain_word w \<Longrightarrow> Fields w = [w]"
  using Fields_words [of "[w]"] by simp

lemma times_counted:
  assumes "plain_times f"
  shows "length (Fields (r_EnableStime (FE2DB_rule x f))) = enableStimeCount f"
    and "length (Fields (r_EnableEtime (FE2DB_rule x f))) = enableEtimeCount f"
  using assms by (auto simp: plain_times_def FE2DB_rule_schedule enableStimeCount_def enableEtimeCount_def
      Fields_words Fields_word Fields_def [of "[]"])

lemma day_words:
  assumes "list_all day_word ws"
  shows "list_all plain_word ws" and "CHR '';'' \<notin> set (Join ws '' '')"
  using assms set_Join [of ws] by (auto simp: day_word_def list_all_iff)

lemma groups_split:
  assumes "gs \<noteq> []" and "list_all (list_all day_word) gs"
  shows "Split (Join (map (\<lambda>d. Join d '' '') gs) '';'') '';'' = map (\<lambda>d. Join d '' '') gs"
  by (rule Split_Join) (use assms day_words(2) in \<open>auto simp: list_all_iff\<close>)

lemma days_counted:
  assumes "plain_days f"
  shows "if enableWeekCount f = 0 then r_EnableDaysOfWeek (FE2DB_rule x f) = []
         else r_EnableDaysOfWeek (FE2DB_rule x f) \<noteq> [] \<and>
              length (Split (r_EnableDaysOfWeek (FE2DB_rule x f)) '';'') = enableWeekCount f"
proof -
  let ?gs = "r_EnableDaysOfWeeksJSON f" and ?dw = "r_EnableDaysOfWeekJSON f"
  let ?col = "r_EnableDaysOfWeek (FE2DB_rule x f)"
  have wf: "list_all day_word ?dw" "list_all (list_all day_word) ?gs" "r_EnableDaysOfWeek f = []"
    "[] \<in> set ?gs \<longrightarrow> ?gs = [[]] \<and> ?dw = []"
    using assms by (simp_all add: plain_days_def)
  consider "?gs = []" | "?gs = [[]]" "?dw = []" | "?gs \<noteq> []" "[] \<notin> set ?gs" using wf(4) by blast
  then show ?thesis
  proof cases
    case 1
    then have col: "?col = Join ?dw '' ''" using wf(3) by (simp add: FE2DB_rule_schedule)
    show ?thesis
      using 1 day_words [OF wf(1)] Join_plain_Nil [of ?dw]
      by (simp add: col enableWeekCount_def Let_def Split_None Cut_char_None)
  next
    case 2
    then show ?thesis using wf(3) by (simp add: FE2DB_rule_schedule enableWeekCount_def Let_def)
  next
    case 3
    then have col: "?col = Join (map (\<lambda>d. Join d '' '') ?gs) '';''" using wf(3) by (simp add: FE2DB_rule_schedule)
    have sp: "Split ?col '';'' = map (\<lambda>d. Join d '' '') ?gs" unfolding col by (rule groups_split) (use 3 wf(2) in auto)
    have "filter (\<lambda>days. days \<noteq> []) ?gs = ?gs" using 3 by (auto simp: filter_id_conv)
    then have n: "enableWeekCount f = length ?gs" using 3 by (simp add: enableWeekCount_def)
    have "?col \<noteq> []"
    proof
      assume "?col = []"
      with sp have "map (\<lambda>d. Join d '' '') ?gs = [[]]" by (simp add: Split_None)
      then obtain g where "?gs = [g]" "Join g '' '' = []" by (auto simp: map_eq_Cons_conv)
      with wf(2) 3 day_words(1) [of g] show False by (simp add: Join_plain_Nil)
    qed
    with n sp 3 show ?thesis by simp
  qed
qed

lemma Verify_rule_schedule:
  assumes "Verify_rule x c ar = Inr r"
  shows "r_EnableStime r = r_EnableStime ar" "r_EnableEtime r = r_EnableEtime ar"
    "r_EnableDaysOfWeek r = r_EnableDaysOfWeek ar"
    and "enableEtimeCount ar = enableStimeCount ar" "enableWeekCount ar = enableStimeCount ar"
proof -
  have r: "r = clear_notify (defaults ar)" using assms by (simp add: Verify_rule_iff)
  show "r_EnableStime r = r_EnableStime ar" "r_EnableEtime r = r_EnableEtime ar"
    "r_EnableDaysOfWeek r = r_EnableDaysOfWeek ar"
    by (simp_all add: r clear_notify_def defaults_def Let_def)
  show "enableEtimeCount ar = enableStimeCount ar" "enableWeekCount ar = enableStimeCount ar"
    using assms by (simp_all add: Verify_rule_iff)
qed

lemma DB2FE_rule_defined:
  "length (Fields (r_EnableStime ar)) = length (Fields (r_EnableEtime ar)) \<Longrightarrow> DB2FE_rule rng c ar \<noteq> None"
  by (auto simp: DB2FE_rule_def db_times_def Let_def)

lemma row_of_schedule [simp]:
  "r_EnableStime (row_of ar) = r_EnableStime ar" "r_EnableEtime (row_of ar) = r_EnableEtime ar"
  "r_EnableDaysOfWeek (row_of ar) = r_EnableDaysOfWeek ar" "r_TimeZone (row_of ar) = r_TimeZone ar"
  "r_EnableDaysOfWeeksJSON (row_of ar) = []" "r_EnableStimeJSON (row_of ar) = []" "r_EnableEtimeJSON (row_of ar) = []"
  by (simp_all add: row_of_def)

text \<open>The schedule of a rule is read from four of its fields.\<close>

lemma TimeSpan_cong:
  assumes "r_TimeZone r = r_TimeZone r'" "Fields (r_EnableStime r) = Fields (r_EnableStime r')"
    "Fields (r_EnableEtime r) = Fields (r_EnableEtime r')" "r_EnableDaysOfWeek r = [] \<longleftrightarrow> r_EnableDaysOfWeek r' = []"
    "map compact (Split (r_EnableDaysOfWeek r) '';'') = map compact (Split (r_EnableDaysOfWeek r') '';'')"
  shows "TimeSpanMuteStrategy x r event = TimeSpanMuteStrategy x r' event"
proof -
  have loc: "rule_location x r = rule_location x r'" by (simp add: rule_location_def assms(1))
  let ?w = "Weekday (rule_location x r') (e_TriggerTime event)"
  have r: "0 \<le> ?w" "?w < 10" using Weekday_range [of "rule_location x r'" "e_TriggerTime event"] by auto
  then have w: "Itoa ?w = [char_of (48 + nat ?w)]" by (rule Itoa_digit)
  have "nat ?w < 10" using r by linarith
  then have sp: "\<not> is_space (char_of (48 + nat ?w))"
    using of_char_digit [of "nat ?w"] space_code [of "char_of (48 + nat ?w)"] by auto
  show ?thesis
    unfolding TimeSpanMuteStrategy_def loc Let_def assms(2-4)
    using span_loop_compact [OF assms(5) w sp] by simp
qed

lemma Cut_first: "Cut s [ch] = Some (a, b) \<Longrightarrow> ch \<notin> set a"
  by (induction s arbitrary: a b) (auto split: if_splits option.splits)

lemma parts_without_separator: "p \<in> set (Split s [ch]) \<Longrightarrow> ch \<notin> set p"
proof (induction s "[ch]" arbitrary: p rule: Split.induct)
  case (1 s)
  show ?case
  proof (cases "Cut s [ch]")
    case None
    with 1 have "p = s" by (simp add: Split_None)
    with None show ?thesis using Contains_singleton [of s ch] by (simp add: Contains_def)
  next
    case (Some ab)
    obtain a b where ab: "ab = (a, b)" by force
    with 1 Some show ?thesis using Cut_first [of s ch a b] by (auto simp: Split_Some)
  qed
qed

lemma groups_of_Fields:
  "list_all (list_all day_word) (map Fields (Split s '';''))"
proof -
  have "day_word w" if "p \<in> set (Split s '';'')" "w \<in> set (Fields p)" for p w
  proof -
    have "set w \<subseteq> set p" using that(2) concat_Fields [of p] by (metis filter_is_subset set_concat Union_upper image_eqI order_trans)
    moreover have "CHR '';'' \<notin> set p" by (rule parts_without_separator [OF that(1)])
    ultimately show ?thesis using that(2) Fields_plain [of p] by (auto simp: day_word_def list_all_iff)
  qed
  then show ?thesis by (auto simp: list_all_iff)
qed

text \<open>The columns of the schedule after the trip to the edge.\<close>

lemma edge_columns:
  assumes "DB2FE_rule rng c (row_of row) = Some fe"
  shows "Fields (r_EnableStime (edge_rule x fe)) = Fields (r_EnableStime row)"
    and "Fields (r_EnableEtime (edge_rule x fe)) = Fields (r_EnableEtime row)"
    and "r_EnableDaysOfWeek (edge_rule x fe) =
           Join (map (\<lambda>d. Join (Fields d) '' '') (Split (r_EnableDaysOfWeek row) '';'')) '';''"
    and "r_TimeZone (edge_rule x fe) = r_TimeZone row"
proof -
  note k = DB2FE_rule_keeps [OF assms, simplified]
  have w: "r_EnableStimesJSON (wire fe) = Fields (r_EnableStime row)" "r_EnableEtimesJSON (wire fe) = Fields (r_EnableEtime row)"
    "r_EnableDaysOfWeeksJSON (wire fe) = map Fields (Split (r_EnableDaysOfWeek row) '';'')" "r_EnableDaysOfWeek (wire fe) = []"
    "r_TimeZone (wire fe) = r_TimeZone row" "r_EnableStimeJSON (wire fe) = r_EnableStimeJSON fe"
    "r_EnableEtimeJSON (wire fe) = r_EnableEtimeJSON fe"
    by (simp_all add: wire_def k)
  show "Fields (r_EnableStime (edge_rule x fe)) = Fields (r_EnableStime row)"
    "Fields (r_EnableEtime (edge_rule x fe)) = Fields (r_EnableEtime row)"
    using k(8,9) by (auto simp: edge_rule_def FE2DB_rule_schedule w Fields_Fields Fields_def [of "[]"])
  show "r_TimeZone (edge_rule x fe) = r_TimeZone row" by (simp add: edge_rule_def w)
  show "r_EnableDaysOfWeek (edge_rule x fe) =
      Join (map (\<lambda>d. Join (Fields d) '' '') (Split (r_EnableDaysOfWeek row) '';'')) '';''"
    by (simp add: edge_rule_def FE2DB_rule_schedule w Split_neq_Nil comp_def)
qed

lemma days_column_blank:
  assumes "s = [] \<or> Fields s \<noteq> []"
  shows "Join (map (\<lambda>d. Join (Fields d) '' '') (Split s '';'')) '';'' = [] \<longleftrightarrow> s = []"
proof
  let ?gs = "map Fields (Split s '';'')"
  assume "Join (map (\<lambda>d. Join (Fields d) '' '') (Split s '';'')) '';'' = []"
  then have "Split [] '';'' = map (\<lambda>d. Join d '' '') ?gs"
    using groups_split [OF _ groups_of_Fields, of s] by (simp add: Split_neq_Nil comp_def)
  then obtain p where p: "Split s '';'' = [p]" "Join (Fields p) '' '' = []"
    by (auto simp: Split_None map_eq_Cons_conv Cons_eq_map_conv)
  then have "Fields p = []" using Join_plain_Nil [OF Fields_plain] by blast
  moreover have "p = s" using Join_Split [of "'';''" s] p(1) by simp
  ultimately show "s = []" using assms by blast
next
  assume "s = []"
  then show "Join (map (\<lambda>d. Join (Fields d) '' '') (Split s '';'')) '';'' = []"
    by (simp add: Split_None Fields_def)
qed

section \<open>Properties\<close>

definition form_codec :: codec where
  "form_codec =
     \<lparr>c_Dangerous = (\<lambda>s. False), c_cron = (\<lambda>s. None), c_any = (\<lambda>s v. (VObj [], True)),
      c_strmap = (\<lambda>s m. (Some [], True)), c_ints = (\<lambda>s. ([], True)), c_RuleQuery = (\<lambda>s. (([], []), True)),
      c_PromRuleConfig = (\<lambda>s. (([], 2), True)), c_relabel = (\<lambda>s. [])\<rparr>"

definition sample_db :: rule_db where
  "sample_db = \<lparr>d_find_err = None, d_write_err = None, d_next_id = (\<lambda>t. int (length t) + 1), d_now = 100\<rparr>"

definition sample_form :: rule_form where
  "sample_form = alert_rule.extend sample_rule
     \<lparr>r_AlgoParams = [], r_AlgoParamsJson = VNil, r_Severity = 2, r_Severities = [], r_EnableStimeJSON = [],
      r_EnableStimesJSON = [''09:00'', ''20:00''], r_EnableEtimeJSON = [], r_EnableEtimesJSON = [''12:00'', ''22:00''],
      r_EnableDaysOfWeekJSON = [], r_EnableDaysOfWeeksJSON = [[''1'', ''2''], [''3'']], r_AppendTags = [],
      r_AnnotationsJSON = None, r_ExtraConfig = [], r_CreateAt = 0, r_CreateBy = [], r_UpdateAt = 0, r_UpdateBy = [],
      r_NotifyVersion = 1\<rparr>"

text \<open>
  C21. Whatever sequence of additions, imports with and without overwriting, edits and deletions the rule
  table goes through, failing ones included, it holds only rules the engine can work with: a number of its own, a trimmed
  name that is not blank, a known time zone, a configuration, a
  positive interval, tags with distinct keys, groups that are numbers, an accepted cron pattern, and one
  way to notify. The names of a business group stay unique as long as no edit carries a name with white space at its ends.
\<close>

theorem rule_table_stays_well_formed:
  assumes "rule_rows_ok x c tbl" and "\<forall>a \<in> set ops. \<forall>t. d_next_id (fst a) t \<noteq> 0"
  shows "rule_rows_ok x c (fold (run_rule_op rng x c hook tr) ops tbl) \<and>
    (names_unique tbl \<and> list_all trimmed_op ops \<longrightarrow> names_unique (fold (run_rule_op rng x c hook tr) ops tbl))"
proof -
  have "rule_table_ok u x c (fold (run_rule_op rng x c hook tr) ops tbl)"
    if "rule_table_ok u x c tbl" and "u \<longrightarrow> list_all trimmed_op ops" for u
    using that assms(2) by (induction ops arbitrary: tbl) (auto intro: table_ok_run_op)
  from this [of False] this [of True] assms(1) show ?thesis by (simp add: rule_table_ok_def)
qed

theorem rule_table_witness:
  "rule_rows_ok sample_env form_codec
     (fold (run_rule_op (\<lambda>ks. ks) sample_env form_codec (\<lambda>f. None) (\<lambda>s. s))
        [(sample_db, OpAdd sample_form), (sample_db, OpPut (\<lambda>g. True) 1 (sample_form\<lparr>r_Name := ''mem''\<rparr>) ''root'')] []) \<and>
   names_unique
     (fold (run_rule_op (\<lambda>ks. ks) sample_env form_codec (\<lambda>f. None) (\<lambda>s. s))
        [(sample_db, OpAdd sample_form), (sample_db, OpPut (\<lambda>g. True) 1 (sample_form\<lparr>r_Name := ''mem''\<rparr>) ''root'')] [])"
  using rule_table_stays_well_formed [of sample_env form_codec "[]"
      "[(sample_db, OpAdd sample_form), (sample_db, OpPut (\<lambda>g. True) 1 (sample_form\<lparr>r_Name := ''mem''\<rparr>) ''root'')]"
      "\<lambda>ks. ks" "\<lambda>f. None" "\<lambda>s. s"]
  by (simp add: rule_rows_ok_def names_unique_def sample_db_def sample_form_def TrimSpace_def is_space_def del: fold_simps)

text \<open>
  C22. When verification accepts a form whose times are single words, with the lists of start and end times
  both given or both left out, the stored rule has as many start times as end times, and
  reading it back does not panic. If moreover the days are words and no group of days is empty beside others,
  the stored rule has as many groups of days as start times, and no days if it has no times.
\<close>

theorem accepted_schedule_is_aligned:
  assumes "Verify_rule x c (FE2DB_rule x f) = Inr r" and "plain_times f"
  shows "length (Fields (r_EnableEtime r)) = length (Fields (r_EnableStime r)) \<and>
    DB2FE_rule rng c (row_of r) \<noteq> None \<and>
    (plain_days f \<longrightarrow>
      (if Fields (r_EnableStime r) = [] then r_EnableDaysOfWeek r = []
       else r_EnableDaysOfWeek r \<noteq> [] \<and>
            length (Split (r_EnableDaysOfWeek r) '';'') = length (Fields (r_EnableStime r))))"
proof -
  note v = Verify_rule_schedule [OF assms(1), unfolded FE2DB_rule_counts]
  note t = times_counted [OF assms(2), of x]
  have "DB2FE_rule rng c (row_of r) \<noteq> None" by (rule DB2FE_rule_defined) (simp add: v t)
  with t v days_counted [of f x] show ?thesis by (auto split: if_splits)
qed

theorem accepted_schedule_witness:
  "let r = clear_notify (defaults (FE2DB_rule sample_env sample_form)) in
   Fields (r_EnableStime r) = [''09:00'', ''20:00''] \<and> DB2FE_rule (\<lambda>ks. ks) form_codec (row_of r) \<noteq> None \<and>
   length (Split (r_EnableDaysOfWeek r) '';'') = 2"
proof -
  let ?r = "clear_notify (defaults (FE2DB_rule sample_env sample_form))"
  have v: "Verify_rule sample_env form_codec (FE2DB_rule sample_env sample_form) = Inr ?r"
    by (simp add: Verify_rule_iff validateCronPattern_None
      sample_form_def form_codec_def FE2DB_rule_def Let_def fe_times_def fe_days_def fe_lists_def fe_config_def
      fe_documents_def enableStimeCount_def enableEtimeCount_def enableWeekCount_def alert_rule.extend_def
      sample_rule_def sample_env_def prom_config_def TrimSpace_def Fields_def is_space_def)
  have plain: "plain_times sample_form" "plain_days sample_form"
    by (simp_all add: plain_times_def plain_days_def plain_word_def day_word_def is_space_def sample_form_def sample_rule_def alert_rule.extend_def)
  have "r_EnableStime ?r = ''09:00 20:00''"
    unfolding Verify_rule_schedule(1) [OF v] FE2DB_rule_schedule by (simp add: sample_form_def alert_rule.extend_def)
  then have "Fields (r_EnableStime ?r) = [''09:00'', ''20:00'']" by (simp add: Fields_def is_space_def)
  with accepted_schedule_is_aligned [OF v plain(1), of "\<lambda>ks. ks"] plain(2) show ?thesis by (simp add: Let_def)
qed

text \<open>
  C23. An engine at the edge, which gets the rules as JSON and rebuilds their columns, mutes by schedule
  exactly the events that an engine at the center mutes, for every stored schedule that is empty or
  names something.
\<close>

theorem edge_follows_the_schedule:
  assumes "DB2FE_rule rng c (row_of row) = Some fe"
    and "r_EnableDaysOfWeek row = [] \<or> Fields (r_EnableDaysOfWeek row) \<noteq> []"
  shows "TimeSpanMuteStrategy x (alert_rule.truncate (edge_rule x fe)) event =
         TimeSpanMuteStrategy x (alert_rule.truncate row) event"
proof (rule TimeSpan_cong)
  note e = edge_columns [OF assms(1), of x]
  let ?days = "Split (r_EnableDaysOfWeek row) '';''"
  have "Split (r_EnableDaysOfWeek (edge_rule x fe)) '';'' = map (\<lambda>d. Join (Fields d) '' '') ?days"
    using groups_split [OF _ groups_of_Fields, of "r_EnableDaysOfWeek row"]
    by (simp add: e(3) Split_neq_Nil comp_def)
  then show "map compact (Split (r_EnableDaysOfWeek (alert_rule.truncate (edge_rule x fe))) '';'') =
      map compact (Split (r_EnableDaysOfWeek (alert_rule.truncate row)) '';'')"
    by (simp add: alert_rule.truncate_def compact_Fields)
  show "(r_EnableDaysOfWeek (alert_rule.truncate (edge_rule x fe)) = []) =
      (r_EnableDaysOfWeek (alert_rule.truncate row) = [])"
    using days_column_blank [OF assms(2)] by (simp add: alert_rule.truncate_def e(3))
qed (simp_all add: alert_rule.truncate_def edge_columns [OF assms(1)])

theorem edge_schedule_witness:
  "\<exists>fe. DB2FE_rule (\<lambda>ks. ks) form_codec (row_of (sample_form\<lparr>r_EnableDaysOfWeek := '' 1 2;3''\<rparr>)) = Some fe \<and>
     TimeSpanMuteStrategy sample_env (alert_rule.truncate (edge_rule sample_env fe)) sample_event =
     TimeSpanMuteStrategy sample_env (alert_rule.truncate (sample_form\<lparr>r_EnableDaysOfWeek := '' 1 2;3''\<rparr>)) sample_event"
proof -
  let ?row = "sample_form\<lparr>r_EnableDaysOfWeek := '' 1 2;3''\<rparr>"
  have "DB2FE_rule (\<lambda>ks. ks) form_codec (row_of ?row) \<noteq> None"
    by (rule DB2FE_rule_defined) (simp add: sample_form_def alert_rule.extend_def sample_rule_def Fields_def)
  then obtain fe where "DB2FE_rule (\<lambda>ks. ks) form_codec (row_of ?row) = Some fe" by blast
  then show ?thesis
    using edge_follows_the_schedule [of "\<lambda>ks. ks" form_codec ?row fe sample_env sample_event]
    by (simp add: Fields_def is_space_def)
qed

text \<open>
  The number of groups is checked without the empty ones but stored with them: the second of two
  windows then meets the empty group, and the days of the third group have no window.
\<close>

theorem empty_group_shifts_the_windows:
  "case Verify_rule sample_env form_codec
          (FE2DB_rule sample_env (sample_form\<lparr>r_EnableDaysOfWeeksJSON := [[''1''], [], [''2'']]\<rparr>)) of
     Inl err \<Rightarrow> False
   | Inr r \<Rightarrow> Split (r_EnableDaysOfWeek r) '';'' = [''1'', [], ''2''] \<and> length (Fields (r_EnableStime r)) = 2"
  by code_simp

text \<open>
  An empty list of groups beside the old field passes the check of the counts, but the empty list wins
  when the rule is stored: the rule then has times and no days, and is effective all the time.
\<close>

theorem empty_group_hides_the_days:
  "case Verify_rule sample_env form_codec
          (FE2DB_rule sample_env (sample_form\<lparr>r_EnableStimesJSON := [''09:00''], r_EnableEtimesJSON := [''12:00''],
             r_EnableDaysOfWeeksJSON := [[]], r_EnableDaysOfWeekJSON := [''1'']\<rparr>)) of
     Inl err \<Rightarrow> False
   | Inr r \<Rightarrow> r_EnableDaysOfWeek r = [] \<and> Fields (r_EnableStime r) = [''09:00'']"
  by code_simp

text \<open>
  The name of an edit is compared with the other rules before it is trimmed, so a name with a blank in
  front passes and is stored as a second rule of the same name.
\<close>

theorem padded_rename_duplicates:
  "let f = sample_form\<lparr>r_Id := 2, r_Name := ''mem''\<rparr>; put = OpPut (\<lambda>g. True) 2 (sample_form\<lparr>r_Name := '' cpu''\<rparr>) [];
       tbl = fold (run_rule_op (\<lambda>ks. ks) sample_env form_codec (\<lambda>f. None) (\<lambda>s. s))
               [(sample_db, OpAdd sample_form), (sample_db, OpAdd f), (sample_db, put)] []
   in map r_Name tbl = [''cpu'', ''cpu''] \<and> map r_GroupId tbl = [7, 7]"
  by code_simp

end
