(* ===== verification/Write_Queue.thy ===== *)
theory Write_Queue
  imports Relabel
begin

text \<open>
  The write path behind the receivers: the bounded queues of \<^verbatim>\<open>pushgw/writer/queue.go\<close> and the writers of
  \<^verbatim>\<open>pushgw/writer/writer.go\<close> and \<^verbatim>\<open>pushgw/writer/kafka_writer.go\<close> that empty them into the backends.

  A queue is a list whose head is the front; samples enter at the front and leave at the back. Many
  requests push at the same time, and the test for a free place and the push are two steps: the
  relation \<open>q_step\<close> interleaves them with the consumer. The HTTP client and the Kafka producer are
  functions that give the answer of an attempt; the metrics and the log are left out.

  The lemmas show that a queue is first in, first out and bounded up to the requests in flight, how
  often a batch is posted, and that a backend that is not critical never has more writers than its limit.
\<close>

section \<open>Queues\<close>

definition PushFront_list :: "'a \<Rightarrow> 'a list \<Rightarrow> 'a list" where
  "PushFront_list v l = v # l"

definition PushFrontBatch_list :: "'a list \<Rightarrow> 'a list \<Rightarrow> 'a list" where
  "PushFrontBatch_list vs l = fold PushFront_list vs l"

text \<open>\<open>PopBack\<close>: the elements that leave, the oldest first, and what stays.\<close>

definition PopBack_list :: "nat \<Rightarrow> 'a list \<Rightarrow> 'a list \<times> 'a list" where
  "PopBack_list mx l =
     (if l = [] then ([], l)
      else let count = (if length l > mx then mx else length l)
           in (take count (rev l), rev (drop count (rev l))))"

record 'a limited =
  lq_maxSize :: nat
  lq_list :: "'a list"

definition NewSafeListLimited :: "nat \<Rightarrow> 'a limited" where
  "NewSafeListLimited mx = \<lparr>lq_maxSize = mx, lq_list = []\<rparr>"

definition PopBack :: "nat \<Rightarrow> 'a limited \<Rightarrow> 'a list \<times> 'a limited" where
  "PopBack mx q = (let (out, rest) = PopBack_list mx (lq_list q) in (out, q\<lparr>lq_list := rest\<rparr>))"

definition PushFront :: "'a \<Rightarrow> 'a limited \<Rightarrow> bool \<times> 'a limited" where
  "PushFront v q =
     (if length (lq_list q) \<ge> lq_maxSize q then (False, q)
      else (True, q\<lparr>lq_list := PushFront_list v (lq_list q)\<rparr>))"

definition PushFrontBatch :: "'a list \<Rightarrow> 'a limited \<Rightarrow> bool \<times> 'a limited" where
  "PushFrontBatch vs q =
     (if length (lq_list q) \<ge> lq_maxSize q then (False, q)
      else (True, q\<lparr>lq_list := PushFrontBatch_list vs (lq_list q)\<rparr>))"

definition RemoveAll :: "'a limited \<Rightarrow> 'a limited" where
  "RemoveAll q = q\<lparr>lq_list := []\<rparr>"

section \<open>Requests and the consumer on one queue\<close>

text \<open>
  \<open>Tested v\<close> is a request between the test of the length and the push of \<open>v\<close>. \<open>qs_in\<close> and \<open>qs_out\<close> record
  what was pushed and what was popped, in order.
\<close>

datatype 'a pusher = Idle | Tested 'a

record ('p, 'a) q_state =
  qs_queue :: "'a limited"
  qs_pc :: "'p \<Rightarrow> 'a pusher"
  qs_in :: "'a list"
  qs_out :: "'a list"

inductive q_step :: "('p, 'a) q_state \<Rightarrow> ('p, 'a) q_state \<Rightarrow> bool" where
  Test_ok: "qs_pc s p = Idle \<Longrightarrow> length (lq_list (qs_queue s)) < lq_maxSize (qs_queue s) \<Longrightarrow>
     q_step s (s\<lparr>qs_pc := (qs_pc s)(p := Tested v)\<rparr>)"
| Push: "qs_pc s p = Tested v \<Longrightarrow>
     q_step s (s\<lparr>qs_pc := (qs_pc s)(p := Idle), qs_in := qs_in s @ [v],
                 qs_queue := (qs_queue s)\<lparr>lq_list := PushFront_list v (lq_list (qs_queue s))\<rparr>\<rparr>)"
| Pop: "PopBack mx (qs_queue s) = (out, q) \<Longrightarrow>
     q_step s (s\<lparr>qs_queue := q, qs_out := qs_out s @ out\<rparr>)"

definition q_init :: "nat \<Rightarrow> ('p, 'a) q_state" where
  "q_init mx = \<lparr>qs_queue = NewSafeListLimited mx, qs_pc = (\<lambda>p. Idle), qs_in = [], qs_out = []\<rparr>"

section \<open>Backends\<close>

datatype http_answer = NoRequest | NoAnswer string | Status int

text \<open>
  \<open>Post\<close>: the URLs in turn until one takes the data. A request that cannot be built and an answer
  between 400 and 499 go on with the next URL and leave the error as it is.
\<close>

fun post_urls :: "(string \<Rightarrow> http_answer) \<Rightarrow> string list \<Rightarrow> string option \<Rightarrow> string option" where
  "post_urls ans [] err = err"
| "post_urls ans (u # us) err =
     (case ans u of
        NoRequest \<Rightarrow> post_urls ans us err
      | NoAnswer e \<Rightarrow> post_urls ans us (Some e)
      | Status c \<Rightarrow>
          (if 400 \<le> c \<and> c < 500 then post_urls ans us err
           else if c \<ge> 500 then post_urls ans us (Some (''push data with remote write:'' @ u @ '' request got status code: '' @ Itoa c))
           else None))"

record http_writer =
  hw_Url :: string
  hw_AsyncWrite :: bool
  hw_WriteRelabels :: "relabel_config list"
  hw_ForceUseServerTS :: bool
  hw_RetryCount :: nat

definition Post :: "http_writer \<Rightarrow> (string \<Rightarrow> http_answer) \<Rightarrow> string option" where
  "Post w ans = post_urls ans (Split (hw_Url w) '','') None"

definition forceSampleTS :: "int \<Rightarrow> time_series list \<Rightarrow> time_series list" where
  "forceSampleTS now items =
     map (\<lambda>t. case ts_Samples t of [] \<Rightarrow> t | s # ss \<Rightarrow> t\<lparr>ts_Samples := (now * 1000, snd s) # ss\<rparr>) items"

text \<open>The loop of attempts from number \<open>i\<close>: how many were made and whether one succeeded.\<close>

fun post_attempts :: "(nat \<Rightarrow> string option) \<Rightarrow> nat \<Rightarrow> nat \<Rightarrow> nat \<times> bool" where
  "post_attempts res i 0 = (i, False)"
| "post_attempts res i (Suc n) = (if res i = None then (Suc i, True) else post_attempts res (Suc i) n)"

text \<open>
  What a write did: nothing was left to send, encoding failed, or a batch was sent in a number of
  attempts. \<open>None\<close> is a panic of the relabelling.
\<close>

datatype write_result = NothingToWrite | EncodeFailed | Sent "time_series list" nat bool

definition Write_http ::
  "env \<Rightarrow> (time_series list \<Rightarrow> string option) \<Rightarrow> int \<Rightarrow> (nat \<Rightarrow> string \<Rightarrow> http_answer) \<Rightarrow> http_writer \<Rightarrow> time_series list \<Rightarrow>
     write_result option"
where
  "Write_http x encode now ans w items =
     (if items = [] then Some NothingToWrite else
      do {
        items1 \<leftarrow> Relabel_items x (hw_WriteRelabels w) items;
        if items1 = [] then Some NothingToWrite else
        let items2 = (if hw_ForceUseServerTS w then forceSampleTS now items1 else items1)
        in case encode items2 of
             None \<Rightarrow> Some EncodeFailed
           | Some body \<Rightarrow>
               (let (n, ok) = post_attempts (\<lambda>i. Post w (ans i)) 0 (hw_RetryCount w) in Some (Sent items2 n ok))
      })"

text \<open>A value that is not a number, and the filter in front of the JSON encoder.\<close>

definition hasNaN :: "(goval \<Rightarrow> bool) \<Rightarrow> time_series list \<Rightarrow> bool" where
  "hasNaN isnan items \<longleftrightarrow> list_ex (\<lambda>t. list_ex (\<lambda>s. isnan (snd s)) (ts_Samples t)) items"

text \<open>
  The filter in place: \<open>valid\<close> is \<^verbatim>\<open>validCount\<close>, the prefix that is kept so far; the sample at \<open>j\<close> is
  copied down when the two indices differ.
\<close>

fun compact_samples :: "('b \<Rightarrow> bool) \<Rightarrow> nat \<Rightarrow> nat \<Rightarrow> nat \<Rightarrow> 'b list \<Rightarrow> 'b list" where
  "compact_samples bad 0 j valid ss = take valid ss"
| "compact_samples bad (Suc n) j valid ss =
     (if bad (ss ! j) then compact_samples bad n (Suc j) valid ss
      else compact_samples bad n (Suc j) (Suc valid) (if valid \<noteq> j then ss[valid := ss ! j] else ss))"

definition filterNaNSamples :: "(goval \<Rightarrow> bool) \<Rightarrow> time_series list \<Rightarrow> time_series list" where
  "filterNaNSamples isnan items =
     (if \<not> hasNaN isnan items then items
      else map (\<lambda>t. t\<lparr>ts_Samples := compact_samples (\<lambda>s. isnan (snd s)) (length (ts_Samples t)) 0 0 (ts_Samples t)\<rparr>) items)"

record kafka_writer =
  kw_WriteRelabels :: "relabel_config list"
  kw_ForceUseServerTS :: bool
  kw_RetryCount :: nat

definition beforeWrite_json ::
  "(goval \<Rightarrow> bool) \<Rightarrow> (time_series list \<Rightarrow> string option) \<Rightarrow> int \<Rightarrow> bool \<Rightarrow> time_series list \<Rightarrow> (time_series list \<times> string) option"
where
  "beforeWrite_json isnan json now force items =
     (let items1 = filterNaNSamples isnan (if force then forceSampleTS now items else items)
      in map_option (\<lambda>b. (items1, b)) (json items1))"

definition Write_kafka ::
  "env \<Rightarrow> (goval \<Rightarrow> bool) \<Rightarrow> (time_series list \<Rightarrow> string option) \<Rightarrow> int \<Rightarrow> (nat \<Rightarrow> string option) \<Rightarrow> kafka_writer \<Rightarrow>
     time_series list \<Rightarrow> write_result option"
where
  "Write_kafka x isnan json now send w items =
     (if items = [] then Some NothingToWrite else
      do {
        items1 \<leftarrow> Relabel_items x (kw_WriteRelabels w) items;
        if items1 = [] then Some NothingToWrite else
        case beforeWrite_json isnan json now (kw_ForceUseServerTS w) items1 of
          None \<Rightarrow> Some EncodeFailed
        | Some (items2, body) \<Rightarrow>
            (let (n, ok) = post_attempts send 0 (kw_RetryCount w) in Some (Sent items2 n ok))
      })"

datatype backend = HttpBackend http_writer | KafkaBackend kafka_writer

definition nonCriticalRetryCount :: nat where
  "nonCriticalRetryCount = 3"

definition init_http :: "bool \<Rightarrow> nat \<Rightarrow> string \<times> bool \<times> relabel_config list \<Rightarrow> http_writer" where
  "init_http force retryCount = (\<lambda>(url, async, rc).
     \<lparr>hw_Url = url, hw_AsyncWrite = async, hw_WriteRelabels = rc, hw_ForceUseServerTS = force,
      hw_RetryCount = (if async then min retryCount nonCriticalRetryCount else retryCount)\<rparr>)"

definition init_kafka :: "bool \<Rightarrow> nat \<Rightarrow> relabel_config list \<Rightarrow> kafka_writer" where
  "init_kafka force retryCount rc =
     \<lparr>kw_WriteRelabels = rc, kw_ForceUseServerTS = force, kw_RetryCount = min retryCount nonCriticalRetryCount\<rparr>"

text \<open>
  The writers of the process: the backends by name, the number of writes in flight of each, and the
  queues by number. A queue that is removed
  is closed: its consumer ends and what it holds is lost.
\<close>

record ident_queue =
  iq_list :: "time_series limited"
  iq_ts :: int

record writers =
  ws_QueueMaxSize :: nat
  ws_QueuePopSize :: nat
  ws_backends :: "(string, backend) gomap"
  ws_concurrency :: "(string, int) gomap"
  ws_limit :: int
  ws_queues :: "(string, ident_queue) gomap"

definition Put :: "string \<Rightarrow> backend \<Rightarrow> writers \<Rightarrow> writers" where
  "Put name b ws = ws\<lparr>ws_backends := mput name b (ws_backends ws), ws_concurrency := mput name 0 (ws_concurrency ws)\<rparr>"

definition isCriticalBackend :: "writers \<Rightarrow> string \<Rightarrow> bool" where
  "isCriticalBackend ws key =
     (case mget (ws_backends ws) key of
        None \<Rightarrow> False
      | Some (HttpBackend w) \<Rightarrow> \<not> hw_AsyncWrite w
      | Some (KafkaBackend w) \<Rightarrow> False)"

definition SetAllQueueLen :: "writers \<Rightarrow> nat" where
  "SetAllQueueLen ws = sum_list (map (\<lambda>(k, q). length (lq_list (iq_list q))) (ws_queues ws))"

definition CleanExpQueue :: "int \<Rightarrow> writers \<Rightarrow> writers" where
  "CleanExpQueue now ws = ws\<lparr>ws_queues := filter (\<lambda>(k, q). \<not> now - iq_ts q > 3600) (ws_queues ws)\<rparr>"

definition PushSample :: "int \<Rightarrow> string \<Rightarrow> time_series \<Rightarrow> writers \<Rightarrow> writers" where
  "PushSample now queueid v ws =
     (let queue = (case mget (ws_queues ws) queueid of
                     Some q \<Rightarrow> q
                   | None \<Rightarrow> \<lparr>iq_list = NewSafeListLimited (ws_QueueMaxSize ws), iq_ts = now\<rparr>);
          (succ, l) = PushFront v (iq_list queue)
      in ws\<lparr>ws_queues := mput queueid (queue\<lparr>iq_ts := now, iq_list := l\<rparr>) (ws_queues ws)\<rparr>)"

text \<open>
  A write to a backend that is not critical: the counter goes up, and down again at once when the
  limit is passed, which drops the data; otherwise a goroutine holds the place until \<open>finish\<close>. The two
  atomic additions of a write that is dropped are one step here: between them another consumer may see the counter one too high and
  drop its own data for that backend, which this model of one consumer does not show.
\<close>

definition in_flight :: "writers \<Rightarrow> string \<Rightarrow> int" where
  "in_flight ws key = (case mget (ws_concurrency ws) key of None \<Rightarrow> 0 | Some n \<Rightarrow> n)"

definition writeToNonCriticalBackend :: "string \<Rightarrow> writers \<Rightarrow> bool \<times> writers" where
  "writeToNonCriticalBackend key ws =
     (let cur = in_flight ws key + 1
      in if cur > ws_limit ws then (False, ws)
         else (True, ws\<lparr>ws_concurrency := mput key cur (ws_concurrency ws)\<rparr>))"

definition finish :: "string \<Rightarrow> writers \<Rightarrow> writers" where
  "finish key ws =
     ws\<lparr>ws_concurrency := mput key (in_flight ws key - 1) (ws_concurrency ws)\<rparr>"

text \<open>One batch of the consumer: which backends get it, in the order of the range over the map.\<close>

fun hand_out :: "string list \<Rightarrow> writers \<Rightarrow> string list \<times> writers" where
  "hand_out [] ws = ([], ws)"
| "hand_out (key # keys) ws =
     (if isCriticalBackend ws key then (let (got, ws1) = hand_out keys ws in (key # got, ws1))
      else let (ok, ws1) = writeToNonCriticalBackend key ws; (got, ws2) = hand_out keys ws1
           in (if ok then key # got else got, ws2))"

definition consume_once ::
  "(string list \<Rightarrow> string list) \<Rightarrow> string \<Rightarrow> writers \<Rightarrow> (time_series list \<times> string list) option \<times> writers"
where
  "consume_once rng queueid ws =
     (case mget (ws_queues ws) queueid of
        None \<Rightarrow> (None, ws)
      | Some q \<Rightarrow>
          (let (series, l) = PopBack (ws_QueuePopSize ws) (iq_list q);
               ws1 = ws\<lparr>ws_queues := mput queueid (q\<lparr>iq_list := l\<rparr>) (ws_queues ws)\<rparr>
           in if series = [] then (None, ws1)
              else let (got, ws2) = hand_out (rng (mkeys (ws_backends ws1))) ws1 in (Some (series, got), ws2)))"

section \<open>First in, first out\<close>

lemma PopBack_list_parts:
  "PopBack_list mx l = (out, rest) \<Longrightarrow> out @ rev rest = rev l \<and> length out \<le> mx \<and> length rest \<le> length l"
  by (auto simp: PopBack_list_def Let_def split: if_splits)

locale fifo =
  fixes view :: "'q \<Rightarrow> 'a list" and enq :: "'a \<Rightarrow> 'q \<Rightarrow> bool \<times> 'q" and deq :: "nat \<Rightarrow> 'q \<Rightarrow> 'a list \<times> 'q"
  assumes enq_taken: "enq v q = (True, q') \<Longrightarrow> view q' = view q @ [v]"
    and enq_refused: "enq v q = (False, q') \<Longrightarrow> view q' = view q"
    and deq_order: "deq n q = (out, q') \<Longrightarrow> view q = out @ view q' \<and> length out \<le> n"
begin

text \<open>A sequence of pushes (\<open>Inl\<close>) and pops (\<open>Inr\<close>): what was taken, what came out and the queue.\<close>

fun run :: "('a + nat) list \<Rightarrow> 'q \<Rightarrow> 'a list \<times> 'a list \<times> 'q" where
  "run [] q = ([], [], q)"
| "run (Inl v # ops) q =
     (let (ok, q1) = enq v q; (ins, outs, q2) = run ops q1 in (if ok then v # ins else ins, outs, q2))"
| "run (Inr n # ops) q =
     (let (out, q1) = deq n q; (ins, outs, q2) = run ops q1 in (ins, out @ outs, q2))"

lemma run_order: "run ops q = (ins, outs, q') \<Longrightarrow> view q @ ins = outs @ view q'"
proof (induction ops arbitrary: q ins outs)
  case (Cons op ops)
  show ?case
  proof (cases op)
    case (Inl v)
    obtain ok q1 where e: "enq v q = (ok, q1)" by force
    obtain ins1 where r: "run ops q1 = (ins1, outs, q')" and ins: "ins = (if ok then v # ins1 else ins1)"
      using Cons.prems by (auto simp: Inl e split: prod.splits)
    show ?thesis
      using Cons.IH [OF r] enq_taken [of v q q1] enq_refused [of v q q1] e ins by (cases ok) auto
  next
    case (Inr n)
    obtain out q1 where d: "deq n q = (out, q1)" by force
    obtain outs1 where r: "run ops q1 = (ins, outs1, q')" and outs: "outs = out @ outs1"
      using Cons.prems by (auto simp: Inr d split: prod.splits)
    show ?thesis using Cons.IH [OF r] deq_order [OF d] outs by simp
  qed
qed simp

end

interpretation limited_queue: fifo "\<lambda>q. rev (lq_list q)" PushFront PopBack
  by unfold_locales
    (auto simp: PushFront_def PushFront_list_def PopBack_def PopBack_list_parts split: if_splits prod.splits)

text \<open>
  The invariant of the interleaving: the order, and the places that are taken or promised.
\<close>

definition q_inv :: "nat \<Rightarrow> ('p :: finite, 'a) q_state \<Rightarrow> bool" where
  "q_inv mx s \<longleftrightarrow>
     lq_maxSize (qs_queue s) = mx \<and> qs_out s @ rev (lq_list (qs_queue s)) = qs_in s \<and>
     length (lq_list (qs_queue s)) + card {p. qs_pc s p \<noteq> Idle} \<le> mx - 1 + CARD('p)"

lemma q_inv_init: "0 < mx \<Longrightarrow> q_inv mx (q_init mx :: ('p :: finite, 'a) q_state)"
  by (simp add: q_inv_def q_init_def NewSafeListLimited_def)

lemma q_inv_step:
  assumes "q_step s t" and inv: "q_inv mx s"
  shows "q_inv mx (t :: ('p :: finite, 'a) q_state)"
  using assms(1)
proof (cases rule: q_step.cases)
  case (Test_ok p v)
  have "card {q. ((qs_pc s)(p := Tested v)) q \<noteq> Idle} \<le> CARD('p)" by (rule card_mono) auto
  moreover have "length (lq_list (qs_queue s)) \<le> mx - 1" using Test_ok inv by (simp add: q_inv_def)
  ultimately show ?thesis using inv by (simp add: q_inv_def Test_ok(1))
next
  case (Push p v)
  have "{q. ((qs_pc s)(p := Idle)) q \<noteq> Idle} = {q. qs_pc s q \<noteq> Idle} - {p}" by auto
  moreover have "card {q. qs_pc s q \<noteq> Idle} = Suc (card ({q. qs_pc s q \<noteq> Idle} - {p}))"
    by (rule card.remove) (use Push in auto)
  ultimately show ?thesis using inv by (simp add: q_inv_def Push(1) PushFront_list_def)
next
  case (Pop n out q)
  then have "rev (lq_list (qs_queue s)) = out @ rev (lq_list q)" using limited_queue.deq_order by blast
  moreover from this have "length (lq_list q) \<le> length (lq_list (qs_queue s))" by (metis length_append length_rev le_add2)
  moreover have "lq_maxSize q = lq_maxSize (qs_queue s)" using Pop(2) by (auto simp: PopBack_def split: prod.splits)
  ultimately show ?thesis using inv by (simp add: q_inv_def Pop(1))
qed

lemma q_inv_reachable:
  "q_step\<^sup>*\<^sup>* (q_init mx) s \<Longrightarrow> 0 < mx \<Longrightarrow> q_inv mx (s :: ('p :: finite, 'a) q_state)"
  by (induction rule: rtranclp_induct) (auto intro: q_inv_init q_inv_step)

section \<open>Attempts\<close>

lemma post_attempts_from:
  "post_attempts res i n =
     (if \<exists>k < n. res (i + k) = None then (i + (LEAST k. res (i + k) = None) + 1, True) else (i + n, False))"
proof (induction res i n rule: post_attempts.induct)
  case (2 res i n)
  show ?case
  proof (cases "res i = None")
    case True
    then have "(LEAST k. res (i + k) = None) = 0" by (intro Least_equality) auto
    with True show ?thesis by auto
  next
    case False
    have shift: "(\<exists>k < Suc n. res (i + k) = None) \<longleftrightarrow> (\<exists>k < n. res (Suc i + k) = None)"
      using False by (auto simp: less_Suc_eq_0_disj)
    have "(LEAST k. res (i + k) = None) = Suc (LEAST k. res (Suc i + k) = None)" if "res (Suc i + k) = None" for k
      using Least_Suc [of "\<lambda>k. res (i + k) = None" "Suc k"] that False by simp
    with False 2 shift show ?thesis by auto
  qed
qed simp

definition refused :: "http_answer \<Rightarrow> bool" where
  "refused a \<longleftrightarrow> (case a of NoRequest \<Rightarrow> True | NoAnswer e \<Rightarrow> True | Status c \<Rightarrow> c \<ge> 400)"

definition failing :: "http_answer \<Rightarrow> bool" where
  "failing a \<longleftrightarrow> (case a of NoRequest \<Rightarrow> False | NoAnswer e \<Rightarrow> True | Status c \<Rightarrow> c \<ge> 500)"

lemma post_urls_None:
  "post_urls ans us err = None \<longleftrightarrow>
     (\<exists>u \<in> set us. \<not> refused (ans u)) \<or> (err = None \<and> \<not> (\<exists>u \<in> set us. failing (ans u)))"
  by (induction ans us err rule: post_urls.induct) (auto simp: refused_def failing_def split: http_answer.split)

section \<open>The filter in place\<close>

lemma compact_samples_filter:
  assumes "valid \<le> j" and "j + n = length ss"
  shows "compact_samples bad n j valid ss = take valid ss @ filter (\<lambda>s. \<not> bad s) (drop j ss)"
  using assms
proof (induction n arbitrary: j valid ss)
  case (Suc n)
  have j: "j < length ss" using Suc.prems(2) by simp
  have d: "drop j ss = ss ! j # drop (Suc j) ss" using j by (simp add: Cons_nth_drop_Suc)
  show ?case
  proof (cases "bad (ss ! j)")
    case True
    with Suc.IH [of valid "Suc j" ss] Suc.prems d show ?thesis by simp
  next
    case False
    let ?ss = "if valid \<noteq> j then ss[valid := ss ! j] else ss"
    have "take (Suc valid) ?ss = take valid ss @ [ss ! j]"
      using Suc.prems(1) j by (simp add: take_Suc_conv_app_nth)
    moreover have "drop (Suc j) ?ss = drop (Suc j) ss" using Suc.prems(1) by simp
    moreover have "compact_samples bad n (Suc j) (Suc valid) ?ss =
        take (Suc valid) ?ss @ filter (\<lambda>s. \<not> bad s) (drop (Suc j) ?ss)"
      by (rule Suc.IH) (use Suc.prems in auto)
    ultimately show ?thesis using False d by simp
  qed
qed simp

lemma filterNaNSamples_spec:
  "filterNaNSamples isnan items = map (\<lambda>t. t\<lparr>ts_Samples := filter (\<lambda>s. \<not> isnan (snd s)) (ts_Samples t)\<rparr>) items"
proof (cases "hasNaN isnan items")
  case False
  have "t\<lparr>ts_Samples := filter (\<lambda>s. \<not> isnan (snd s)) (ts_Samples t)\<rparr> = t" if "t \<in> set items" for t
  proof -
    have "filter (\<lambda>s. \<not> isnan (snd s)) (ts_Samples t) = ts_Samples t"
      using False that by (auto simp: hasNaN_def list_ex_iff filter_id_conv)
    then show ?thesis by simp
  qed
  with False show ?thesis by (simp add: filterNaNSamples_def map_idI)
qed (simp add: filterNaNSamples_def compact_samples_filter)

section \<open>Handing out a batch\<close>

lemma write_keeps:
  "writeToNonCriticalBackend key ws = (ok, ws') \<Longrightarrow> ws_backends ws' = ws_backends ws \<and> ws_limit ws' = ws_limit ws \<and>
     ws_queues ws' = ws_queues ws \<and> (\<forall>k. in_flight ws' k = (if k = key \<and> ok then in_flight ws k + 1 else in_flight ws k)) \<and>
     (ok \<longleftrightarrow> in_flight ws key < ws_limit ws)"
  by (auto simp: writeToNonCriticalBackend_def in_flight_def Let_def split: if_splits option.splits)

lemma isCritical_cong: "ws_backends ws' = ws_backends ws \<Longrightarrow> isCriticalBackend ws' = isCriticalBackend ws"
  by (simp add: isCriticalBackend_def fun_eq_iff)

lemma hand_out_spec:
  "hand_out keys ws = (got, ws') \<Longrightarrow> distinct keys \<Longrightarrow>
     got = filter (\<lambda>k. isCriticalBackend ws k \<or> in_flight ws k < ws_limit ws) keys \<and>
     (\<forall>k. in_flight ws' k =
        (if k \<in> set keys \<and> \<not> isCriticalBackend ws k \<and> in_flight ws k < ws_limit ws then in_flight ws k + 1 else in_flight ws k))
     \<and> ws_limit ws' = ws_limit ws \<and> ws_backends ws' = ws_backends ws \<and> ws_queues ws' = ws_queues ws"
proof (induction keys arbitrary: ws got)
  case (Cons key keys)
  show ?case
  proof (cases "isCriticalBackend ws key")
    case True
    with Cons show ?thesis by (auto split: prod.splits)
  next
    case False
    obtain ok ws1 where w: "writeToNonCriticalBackend key ws = (ok, ws1)" by force
    obtain got1 where h: "hand_out keys ws1 = (got1, ws')" and got: "got = (if ok then key # got1 else got1)"
      using Cons.prems False by (auto simp: w split: prod.splits)
    note k = write_keeps [OF w] and crit = isCritical_cong [of ws1 ws]
    have fl: "in_flight ws1 q = in_flight ws q" if "q \<in> set keys" for q using k Cons.prems(2) that by auto
    have "filter (\<lambda>q. isCriticalBackend ws q \<or> in_flight ws1 q < ws_limit ws) keys =
        filter (\<lambda>q. isCriticalBackend ws q \<or> in_flight ws q < ws_limit ws) keys"
      by (rule filter_cong) (auto simp: fl)
    with Cons.IH [OF h] Cons.prems(2) k crit got False show ?thesis by auto
  qed
qed simp

section \<open>Properties\<close>

lemma PopBack_taken:
  "0 < mx \<Longrightarrow> lq_list q \<noteq> [] \<Longrightarrow> PopBack mx q = (out, q') \<Longrightarrow> out = take mx (rev (lq_list q)) \<and> out \<noteq> [] \<and>
     rev (lq_list q') = drop mx (rev (lq_list q))"
  by (auto simp: PopBack_def PopBack_list_def Let_def split: prod.splits if_splits)

text \<open>
  C26. A queue gives its samples back in the order in which they were pushed, none lost and none twice,
  however the requests and the consumer interleave. Since the test for a place and the push are two
  steps, a queue may pass its maximum, but by less than the number of requests that push at the same
  time.
\<close>

theorem queue_is_ordered_and_bounded:
  fixes s :: "('p :: finite, 'a) q_state"
  assumes "q_step\<^sup>*\<^sup>* (q_init mx) s" and "0 < mx"
  shows "qs_out s @ rev (lq_list (qs_queue s)) = qs_in s \<and> length (lq_list (qs_queue s)) \<le> mx - 1 + CARD('p)"
  using q_inv_reachable [OF assms] by (simp add: q_inv_def)

theorem queue_is_ordered_and_bounded_witness:
  "\<exists>s :: (bool, nat) q_state. q_step\<^sup>*\<^sup>* (q_init 1) s \<and> lq_list (qs_queue s) = [6, 5] \<and>
     qs_out s @ rev (lq_list (qs_queue s)) = qs_in s \<and> length (lq_list (qs_queue s)) \<le> 1 - 1 + CARD(bool)"
proof -
  define s0 :: "(bool, nat) q_state" where "s0 = q_init 1"
  define s1 where "s1 = s0\<lparr>qs_pc := (qs_pc s0)(True := Tested 5)\<rparr>"
  define s2 where "s2 = s1\<lparr>qs_pc := (qs_pc s1)(False := Tested 6)\<rparr>"
  define s3 where "s3 = s2\<lparr>qs_pc := (qs_pc s2)(True := Idle), qs_in := qs_in s2 @ [5],
                 qs_queue := (qs_queue s2)\<lparr>lq_list := PushFront_list 5 (lq_list (qs_queue s2))\<rparr>\<rparr>"
  define s4 where "s4 = s3\<lparr>qs_pc := (qs_pc s3)(False := Idle), qs_in := qs_in s3 @ [6],
                 qs_queue := (qs_queue s3)\<lparr>lq_list := PushFront_list 6 (lq_list (qs_queue s3))\<rparr>\<rparr>"
  note d = s0_def s1_def s2_def s3_def s4_def q_init_def NewSafeListLimited_def PushFront_list_def
  have "q_step s0 s1" unfolding s1_def by (rule Test_ok) (simp_all add: d)
  moreover have "q_step s1 s2" unfolding s2_def by (rule Test_ok) (simp_all add: d)
  moreover have "q_step s2 s3" unfolding s3_def by (rule Push) (simp add: d)
  moreover have "q_step s3 s4" unfolding s4_def by (rule Push) (simp add: d)
  ultimately have r: "q_step\<^sup>*\<^sup>* (q_init 1) s4" unfolding s0_def by (meson converse_rtranclp_into_rtranclp rtranclp.rtrancl_refl)
  have "lq_list (qs_queue s4) = [6, 5]" by (simp add: d)
  with queue_is_ordered_and_bounded [OF r] r show ?thesis by auto
qed

text \<open>
  C27. Every batch the consumer takes holds the oldest samples of the queue and goes to every critical
  backend exactly once; a backend that is not critical gets it exactly if it has a place free, so a
  backend that is stuck loses its own data only. A round of one consumer is taken as a whole.
\<close>

theorem batch_reaches_every_critical_backend:
  assumes "range_order rng" and "mwf (ws_backends ws)" and "mget (ws_queues ws) qid = Some q"
    and "lq_list (iq_list q) \<noteq> []" and "0 < ws_QueuePopSize ws"
  shows "\<exists>got ws' q'. consume_once rng qid ws = (Some (take (ws_QueuePopSize ws) (rev (lq_list (iq_list q))), got), ws') \<and>
    mset got = mset (filter (\<lambda>k. isCriticalBackend ws k \<or> in_flight ws k < ws_limit ws) (mkeys (ws_backends ws))) \<and>
    distinct got \<and> mget (ws_queues ws') qid = Some q' \<and>
    rev (lq_list (iq_list q')) = drop (ws_QueuePopSize ws) (rev (lq_list (iq_list q)))"
proof -
  obtain out l where p: "PopBack (ws_QueuePopSize ws) (iq_list q) = (out, l)" by force
  note t = PopBack_taken [OF assms(5,4) p]
  let ?ws = "ws\<lparr>ws_queues := mput qid (q\<lparr>iq_list := l\<rparr>) (ws_queues ws)\<rparr>" and ?keys = "rng (mkeys (ws_backends ws))"
  obtain got ws' where h: "hand_out ?keys ?ws = (got, ws')" by force
  have keys: "distinct ?keys" "mset ?keys = mset (mkeys (ws_backends ws))"
    using assms(1,2) by (auto simp: distinct_range_order distinct_mkeys range_order_def)
  have "isCriticalBackend ?ws = isCriticalBackend ws" "in_flight ?ws = in_flight ws"
    by (auto simp: isCriticalBackend_def in_flight_def)
  with hand_out_spec [OF h keys(1)] have got: "got = filter (\<lambda>k. isCriticalBackend ws k \<or> in_flight ws k < ws_limit ws) ?keys"
    and q': "ws_queues ws' = mput qid (q\<lparr>iq_list := l\<rparr>) (ws_queues ws)" by auto
  have "consume_once rng qid ws = (Some (out, got), ws')"
    using t h assms(4,5) by (simp add: consume_once_def assms(3) p Let_def)
  moreover have "mset got = mset (filter (\<lambda>k. isCriticalBackend ws k \<or> in_flight ws k < ws_limit ws) (mkeys (ws_backends ws)))"
    by (simp add: got keys(2))
  ultimately show ?thesis using t q' keys(1) by (auto simp: got)
qed

definition up_series :: time_series where
  "up_series = \<lparr>ts_Labels = [(''__name__'', ''up''), (''ident'', ''web1'')], ts_Samples = [(1000, VInt 1)]\<rparr>"

definition sample_writers :: writers where
  "sample_writers =
     \<lparr>ws_QueueMaxSize = 2, ws_QueuePopSize = 1,
      ws_backends = [(''a'', HttpBackend (init_http False 5 (''http://a'', False, []))), (''k'', KafkaBackend (init_kafka False 5 []))],
      ws_concurrency = [(''a'', 0), (''k'', 16)], ws_limit = 16,
      ws_queues = [(''1'', \<lparr>iq_list = \<lparr>lq_maxSize = 2, lq_list = [up_series]\<rparr>, iq_ts = 0\<rparr>)]\<rparr>"

theorem batch_reaches_witness:
  "\<exists>got ws'. consume_once (\<lambda>ks. ks) ''1'' sample_writers = (Some ([up_series], got), ws') \<and> mset got = {#''a''#}"
  using batch_reaches_every_critical_backend [of "\<lambda>ks. ks" sample_writers "''1''"
      "\<lparr>iq_list = \<lparr>lq_maxSize = 2, lq_list = [up_series]\<rparr>, iq_ts = 0\<rparr>"]
  by (auto simp: sample_writers_def mwf_def mkeys_def isCriticalBackend_def init_http_def in_flight_def)

text \<open>
  A batch is posted until an attempt is taken and never again after it, and at most as often as the
  writer is configured for; it is reported as sent exactly if one of these attempts was taken. An attempt
  is taken if one of the URLs accepts the data, or if none of them fails, which includes the case that
  all of them refuse the data with a status between 400 and 499.
\<close>

theorem batch_is_posted_until_taken:
  assumes "Write_http x encode now ans w items = Some (Sent batch n ok)"
  shows "(ok \<longleftrightarrow> (\<exists>k < hw_RetryCount w. Post w (ans k) = None)) \<and>
    n = (if ok then Suc (LEAST k. Post w (ans k) = None) else hw_RetryCount w) \<and> n \<le> hw_RetryCount w \<and>
    (Post w (ans k) = None \<longleftrightarrow>
       (\<exists>u \<in> set (Split (hw_Url w) '',''). \<not> refused (ans k u)) \<or>
       \<not> (\<exists>u \<in> set (Split (hw_Url w) '',''). failing (ans k u)))"
proof -
  have a: "post_attempts (\<lambda>i. Post w (ans i)) 0 (hw_RetryCount w) = (n, ok)"
    using assms by (auto simp: Write_http_def Let_def bind_eq_Some_conv split: if_splits option.splits prod.splits)
  have "Suc (LEAST k. Post w (ans k) = None) \<le> hw_RetryCount w" if "k < hw_RetryCount w" "Post w (ans k) = None" for k
    using Least_le [of "\<lambda>k. Post w (ans k) = None", OF that(2)] that(1) by linarith
  with a show ?thesis
    by (auto simp: post_attempts_from Post_def post_urls_None split: if_splits)
qed

theorem batch_is_posted_witness:
  "\<exists>batch. Write_http sample_env (\<lambda>b. Some []) 0 (\<lambda>i u. if i = 0 then NoAnswer ''refused'' else Status 204)
       (init_http False 5 (''http://a'', False, [])) [up_series] = Some (Sent batch 2 True) \<and> 2 \<le> (5 :: nat)"
proof -
  let ?w = "init_http False 5 (''http://a'', False, [])"
  let ?ans = "\<lambda>i u. if i = 0 then NoAnswer ''refused'' else Status 204 :: http_answer"
  have "Write_http sample_env (\<lambda>b. Some []) 0 ?ans ?w [up_series] = Some (Sent [up_series] 2 True)"
    by (simp add: Write_http_def init_http_def up_series_def Post_def Split_None numeral_eq_Suc)
  from batch_is_posted_until_taken [OF this, of 0] this show ?thesis by (auto simp: init_http_def)
qed

text \<open>
  The filter in front of the JSON encoder, which moves the samples inside their array, leaves exactly
  the samples that are numbers, in their order, and keeps every series.
\<close>

theorem nan_filter_in_place:
  "filterNaNSamples isnan items = map (\<lambda>t. t\<lparr>ts_Samples := filter (\<lambda>s. \<not> isnan (snd s)) (ts_Samples t)\<rparr>) items"
  by (rule filterNaNSamples_spec)

end
