(* ===== verification/Ingest.thy ===== *)
theory Ingest
  imports Write_Queue Target_Cache
begin

text \<open>
  The receivers of metrics and heartbeats: \<^verbatim>\<open>pushgw/router/router_remotewrite.go\<close>, \<^verbatim>\<open>pushgw/router/fns.go\<close>, the
  filters of \<^verbatim>\<open>pushgw/router/router.go\<close> and the set of seen machines of \<^verbatim>\<open>pushgw/idents/idents.go\<close>, which writes the
  time of the last sign of life to Redis and registers new machines.

  The lemmas say which labels a series has when it is queued, which series are dropped, that the two
  ways to look for a duplicate label agree, and that what a metric says of a machine is what the
  evaluation of the host rules later reads.
\<close>

section \<open>The settings\<close>

record pushgw_conf =
  pg_BusiGroupLabelKey :: string
  pg_LabelRewrite :: bool
  pg_IdentMetrics :: "string list"
  pg_DropSample :: "(string, string) gomap list"
  pg_GetHeartbeatFromMetric :: bool
  pg_AllQueueMaxSize :: int
  pg_OverLimitStatusCode :: int
  pg_QueueNumber :: "64 word"
  pg_UpdateTargetRetryCount :: nat
  pg_UpdateTargetBatchSize :: nat
  pg_UpdateTargetRetryIntervalMills :: int
  pg_UpdateTargetTimeoutMills :: int

section \<open>Filters\<close>

text \<open>The filters in two groups: names alone, and the others.\<close>

fun initDropSampleFilters ::
  "(string, string) gomap list \<Rightarrow> (string, unit) gomap \<times> (string, string) gomap list \<Rightarrow>
     (string, unit) gomap \<times> (string, string) gomap list"
where
  "initDropSampleFilters [] (byName, cpx) = (byName, cpx)"
| "initDropSampleFilters (f # fs) (byName, cpx) =
     (if f = [] then initDropSampleFilters fs (byName, cpx)
      else case (if length f = 1 then mget f ''__name__'' else None) of
             Some name \<Rightarrow> initDropSampleFilters fs (mput name () byName, cpx)
           | None \<Rightarrow> initDropSampleFilters fs (byName, cpx @ [f]))"

definition matchSample :: "(string, string) gomap \<Rightarrow> (string, string) gomap \<Rightarrow> bool" where
  "matchSample filterMap sampleMap = list_all (\<lambda>(k, v). mget sampleMap k = Some v) filterMap"

definition label_map :: "label list \<Rightarrow> (string, string) gomap" where
  "label_map ls = fold (\<lambda>l. mput (fst l) (snd l)) ls []"

definition DropSample :: "(string, unit) gomap \<Rightarrow> (string, string) gomap list \<Rightarrow> label list \<Rightarrow> bool" where
  "DropSample byName cpx ls =
     (if byName \<noteq> [] \<and> (case find (\<lambda>l. fst l = ''__name__'') ls of None \<Rightarrow> False | Some l \<Rightarrow> mhas byName (snd l))
      then True
      else if cpx = [] then False
      else list_ex (\<lambda>f. matchSample f (label_map ls)) cpx)"

section \<open>Labels\<close>

text \<open>Two ways to look for a name that occurs twice, and the choice by the number of labels.\<close>

fun dup_linear :: "label list \<Rightarrow> bool" where
  "dup_linear [] = False"
| "dup_linear (l # ls) = (if list_ex (\<lambda>m. fst m = fst l) ls then True else dup_linear ls)"

fun dup_map :: "label list \<Rightarrow> (string, unit) gomap \<Rightarrow> bool" where
  "dup_map [] seen = False"
| "dup_map (l # ls) seen = (if mhas seen (fst l) then True else dup_map ls (mput (fst l) () seen))"

definition duplicateLabelKey :: "label list \<Rightarrow> bool" where
  "duplicateLabelKey ls = (if length ls \<le> 64 then dup_linear ls else dup_map ls [])"

text \<open>The position of the last label of a name.\<close>

fun label_index :: "string \<Rightarrow> nat \<Rightarrow> label list \<Rightarrow> nat option \<Rightarrow> nat option" where
  "label_index name i [] r = r"
| "label_index name i (l # ls) r = label_index name (Suc i) ls (if fst l = name then Some i else r)"

definition rename_label :: "label list \<Rightarrow> nat \<Rightarrow> label list" where
  "rename_label ls i = ls[i := (''ident'', snd (ls ! i))]"

text \<open>\<open>extractIdentFromTimeSeries\<close>: the labels afterwards, the machine and whether it is to be registered.\<close>

definition extractIdentFromTimeSeries ::
  "label list \<Rightarrow> bool \<Rightarrow> bool \<Rightarrow> string list \<Rightarrow> label list \<times> string \<times> bool"
where
  "extractIdentFromTimeSeries ls ignoreIdent ignoreHost identMetrics =
     (let idx = (\<lambda>name. label_index name 0 ls None);
          ident0 = (case idx ''ident'' of None \<Rightarrow> [] | Some i \<Rightarrow> snd (ls ! i));
          (ls1, ident1) =
            (case idx ''agent_hostname'' of
               Some i \<Rightarrow> if ident0 = [] then (rename_label ls i, snd (ls ! i)) else (ls, ident0)
             | None \<Rightarrow> (ls, ident0));
          (ls2, ident2) =
            (case idx ''host'' of
               Some i \<Rightarrow> if \<not> ignoreHost \<and> ident1 = [] then (rename_label ls1 i, snd (ls1 ! i)) else (ls1, ident1)
             | None \<Rightarrow> (ls1, ident1))
      in if ident2 = [] then (ls2, [], False)
         else if identMetrics \<noteq> [] \<and>
                 \<not> (case idx ''__name__'' of None \<Rightarrow> False | Some i \<Rightarrow> snd (ls2 ! i) \<in> set identMetrics)
         then (ls2, ident2, False)
         else (ls2, ident2, \<not> ignoreIdent))"

text \<open>
  \<open>AppendLabels\<close>. The positions are those of the labels before anything was added; \<open>tags\<close> are the tags of
  the machine in the order of the range.
\<close>

fun append_tags ::
  "pushgw_conf \<Rightarrow> (string \<Rightarrow> nat option) \<Rightarrow> (string \<times> string) list \<Rightarrow> label list \<Rightarrow> label list"
where
  "append_tags pg keys [] ls = ls"
| "append_tags pg keys ((key, val) # tags) ls =
     append_tags pg keys tags
       (case keys key of
          Some i \<Rightarrow>
            (if keys (pg_BusiGroupLabelKey pg) \<noteq> None then ls
             else if pg_LabelRewrite pg then ls[i := (fst (ls ! i), val)] else ls)
        | None \<Rightarrow> ls @ [(key, val)])"

definition AppendLabels ::
  "pushgw_conf \<Rightarrow> (string list \<Rightarrow> string list) \<Rightarrow> (int, busi_group) gomap stat_cache \<Rightarrow> target \<Rightarrow> label list \<Rightarrow> label list"
where
  "AppendLabels pg rng bgCache target ls =
     (let keys = (\<lambda>name. label_index name 0 ls None);
          tags = map (\<lambda>k. (k, the (mget (t_TagsMap target) k))) (rng (mkeys (t_TagsMap target)));
          ls1 = append_tags pg keys tags ls
      in if keys (pg_BusiGroupLabelKey pg) \<noteq> None then ls1
         else if t_GroupId target > 0 \<and> pg_BusiGroupLabelKey pg \<noteq> [] then
           (case GetByBusiGroupId bgCache (t_GroupId target) of
              None \<Rightarrow> ls1
            | Some bg \<Rightarrow>
                (if bg_LabelEnable bg = 0 then ls1 else ls1 @ [(pg_BusiGroupLabelKey pg, bg_LabelValue bg)]))
         else ls1)"

section \<open>The receiver\<close>

text \<open>
  The gateway: the writers, the length of all queues as last measured, the counter that spreads the
  requests over the queues, and the machines seen since the last write to Redis. \<open>handle\<close> is the hook of
  the router, the identity unless an outer layer replaces it.
\<close>

record gateway =
  gw_writers :: writers
  gw_allLen :: int
  gw_counter :: "64 word"
  gw_idents :: "(string, unit) gomap"

record label_caches =
  ca_targets :: "(string, target) gomap stat_cache"
  ca_groups :: "(int, busi_group) gomap stat_cache"
  ca_rng :: "string list \<Rightarrow> string list"

definition ForwardToQueue ::
  "(time_series \<Rightarrow> time_series option) \<Rightarrow> pushgw_conf \<Rightarrow> int \<Rightarrow> string \<Rightarrow> time_series \<Rightarrow> writers \<Rightarrow> writers"
where
  "ForwardToQueue handle pg now queueid v ws =
     (case handle v of
        None \<Rightarrow> ws
      | Some v' \<Rightarrow>
          (let (byName, cpx) = initDropSampleFilters (pg_DropSample pg) ([], [])
           in if DropSample byName cpx (ts_Labels v') then ws else PushSample now queueid v' ws))"

definition enrich :: "pushgw_conf \<Rightarrow> label_caches \<Rightarrow> bool \<Rightarrow> bool \<Rightarrow> label list \<Rightarrow> label list \<times> string \<times> bool" where
  "enrich pg ca ignoreIdent ignoreHost ls =
     (let (ls1, ident, insertTarget) = extractIdentFromTimeSeries ls ignoreIdent ignoreHost (pg_IdentMetrics pg)
      in (if ident = [] then ls1
          else case TargetCache_Get (ca_targets ca) ident of
                 None \<Rightarrow> ls1
               | Some target \<Rightarrow> AppendLabels pg (ca_rng ca) (ca_groups ca) target ls1, ident, insertTarget))"

fun write_series ::
  "(time_series \<Rightarrow> time_series option) \<Rightarrow> pushgw_conf \<Rightarrow> label_caches \<Rightarrow> int \<Rightarrow> string \<Rightarrow> bool \<Rightarrow> bool \<Rightarrow> time_series list \<Rightarrow>
     writers \<times> (string, unit) gomap \<Rightarrow> writers \<times> (string, unit) gomap"
where
  "write_series handle pg ca now queueid ignoreIdent ignoreHost [] (ws, ids) = (ws, ids)"
| "write_series handle pg ca now queueid ignoreIdent ignoreHost (v # vs) (ws, ids) =
     (if duplicateLabelKey (ts_Labels v) then write_series handle pg ca now queueid ignoreIdent ignoreHost vs (ws, ids)
      else let (ls, ident, insertTarget) = enrich pg ca ignoreIdent ignoreHost (ts_Labels v);
               ids1 = (if pg_GetHeartbeatFromMetric pg \<and> insertTarget then mput ident () ids else ids)
           in write_series handle pg ca now queueid ignoreIdent ignoreHost vs
                (ForwardToQueue handle pg now queueid (v\<lparr>ts_Labels := ls\<rparr>) ws, ids1))"

definition MSet :: "(string, unit) gomap \<Rightarrow> (string, unit) gomap \<Rightarrow> (string, unit) gomap" where
  "MSet items s = fold (\<lambda>(k, u). mput k u) items s"

text \<open>
  The request: \<open>None\<close> in the body is one that does not decode. The answer is the status; \<open>None\<close> is the
  division by a number of queues that is zero.
\<close>

definition remoteWrite ::
  "(time_series \<Rightarrow> time_series option) \<Rightarrow> pushgw_conf \<Rightarrow> label_caches \<Rightarrow> int \<Rightarrow> bool \<Rightarrow> bool \<Rightarrow> time_series list option \<Rightarrow>
     gateway \<Rightarrow> (int \<times> gateway) option"
where
  "remoteWrite handle pg ca now ignoreIdent ignoreHost body g =
     (if gw_allLen g > pg_AllQueueMaxSize pg then Some (pg_OverLimitStatusCode pg, g)
      else case body of
             None \<Rightarrow> Some (400, g)
           | Some series \<Rightarrow>
               (if series = [] then Some (200, g)
                else let n = gw_counter g + 1; g1 = g\<lparr>gw_counter := n\<rparr>
                     in if pg_QueueNumber pg = 0 then None
                        else let queueid = utoa (unat (n mod pg_QueueNumber pg));
                                 (ws, ids) = write_series handle pg ca now queueid ignoreIdent ignoreHost series (gw_writers g1, [])
                             in Some (200, g1\<lparr>gw_writers := ws, gw_idents := MSet ids (gw_idents g1)\<rparr>)))"

section \<open>Signs of life\<close>

text \<open>
  The Redis client: \<open>io n deadline t r c\<close> is the write number \<open>n\<close> of the entries \<open>c\<close>, begun at time \<open>t\<close> with a context that ends at
  \<open>deadline\<close>, on the store \<open>r\<close>: whether it succeeded, the time when it returned, and the store afterwards. What the
  client makes of an expired context is its own affair. Times are milliseconds; a run is the number of
  writes so far, the time and the store. The expiry of the entries after a day is not modelled.
\<close>

type_synonym redis_io = "nat \<Rightarrow> int \<Rightarrow> int \<Rightarrow> redis \<Rightarrow> (string \<times> string) list \<Rightarrow> bool \<times> int \<times> redis"

type_synonym redis_run = "nat \<times> int \<times> redis"

text \<open>The attempts that are left; the loop sleeps after a failed attempt that is not the last.\<close>

fun writeTargetTsInRedis ::
  "redis_io \<Rightarrow> int \<Rightarrow> int \<Rightarrow> nat \<Rightarrow> (string \<times> string) list \<Rightarrow> redis_run \<Rightarrow> bool \<times> redis_run"
where
  "writeTargetTsInRedis io interval deadline 0 content (n, t, r) = (False, (n, t, r))"
| "writeTargetTsInRedis io interval deadline (Suc retries) content (n, t, r) =
     (let (ok, t1, r1) = io n deadline t r content
      in if ok then (True, (Suc n, t1, r1))
         else writeTargetTsInRedis io interval deadline retries content
                (Suc n, if retries > 0 then t1 + interval else t1, r1))"

definition write_batch :: "redis_io \<Rightarrow> pushgw_conf \<Rightarrow> int \<Rightarrow> (string \<times> string) list \<Rightarrow> redis_run \<Rightarrow> bool \<times> redis_run" where
  "write_batch io pg deadline content s =
     writeTargetTsInRedis io (pg_UpdateTargetRetryIntervalMills pg) deadline (pg_UpdateTargetRetryCount pg) content s"

text \<open>The loop over the entries; \<open>batch\<close> is the batch being collected, \<open>i\<close> the position and \<open>err\<close> whether a batch failed.\<close>

fun ts_loop ::
  "redis_io \<Rightarrow> pushgw_conf \<Rightarrow> int \<Rightarrow> (string \<times> string) list \<Rightarrow> nat \<Rightarrow> (string \<times> string) list \<Rightarrow> bool \<Rightarrow> redis_run \<Rightarrow> bool \<times> redis_run"
where
  "ts_loop io pg deadline [] i batch err s =
     (if batch \<noteq> [] then (let (ok, s1) = write_batch io pg deadline batch s in (err \<or> \<not> ok, s1)) else (err, s))"
| "ts_loop io pg deadline (e # es) i batch err s =
     (let batch1 = batch @ [e]
      in if (i + 1) mod pg_UpdateTargetBatchSize pg = 0
         then (let (ok, s1) = write_batch io pg deadline batch1 s in ts_loop io pg deadline es (i + 1) [] (err \<or> \<not> ok) s1)
         else ts_loop io pg deadline es (i + 1) batch1 err s)"

text \<open>
  The context covers all batches and their attempts. \<open>None\<close> is the division by a batch size that is zero; otherwise the answer is
  whether an error is returned.
\<close>

definition updateTargetTsInRedis ::
  "redis_io \<Rightarrow> pushgw_conf \<Rightarrow> (string list \<Rightarrow> string list) \<Rightarrow> (string, string) gomap \<Rightarrow> redis_run \<Rightarrow> (bool \<times> redis_run) option"
where
  "updateTargetTsInRedis io pg ord newMap = (\<lambda>(n, t, r).
     if newMap = [] then Some (False, (n, t, r))
     else let deadline = t + pg_UpdateTargetTimeoutMills pg in
     if length newMap \<le> pg_UpdateTargetBatchSize pg
     then (let (ok, s) = write_batch io pg deadline newMap (n, t, r) in Some (\<not> ok, s))
     else if pg_UpdateTargetBatchSize pg = 0 then None
     else Some (ts_loop io pg deadline (map (\<lambda>k. (k, the (mget newMap k))) (ord (mkeys newMap))) 0 [] False (n, t, r)))"

text \<open>
  One batch of machines: the times go to Redis, and at the center the machines that the table does not
  have are inserted. \<open>mar\<close> encodes a time, \<open>sub\<close> is the difference of two lists of the toolkit, \<open>dbq\<close> fails the
  query and \<open>dbi\<close> the insertion of a machine. At the edge the list is posted to the center instead, unless
  too many posts are under way. A process without Redis writes no times. \<open>is_failed\<close> counts the errors
  that are logged for lists whose times could not be written.
\<close>

record ident_env =
  ie_io :: redis_io
  ie_ord :: "string list \<Rightarrow> string list"
  ie_mar :: "string \<Rightarrow> int \<Rightarrow> string"
  ie_sub :: "string list \<Rightarrow> string list \<Rightarrow> string list"
  ie_hasRedis :: bool
  ie_isCenter :: bool
  ie_TryAcquire :: "string list \<Rightarrow> bool"
  ie_dbq :: bool
  ie_dbi :: "string \<Rightarrow> bool"

record ident_state =
  is_writes :: nat
  is_clock :: int
  is_redis :: redis
  is_failed :: nat
  is_table :: "(string \<times> int) list"
  is_posted :: "string list list"

definition updateTargetsUpdateTs ::
  "ident_env \<Rightarrow> pushgw_conf \<Rightarrow> string list \<Rightarrow> int \<Rightarrow> ident_state \<Rightarrow> (bool \<times> ident_state) option"
where
  "updateTargetsUpdateTs ie pg lst now st =
     (if \<not> ie_hasRedis ie then Some (False, st)
      else let newMap = fold (\<lambda>i. mput (WrapIdentUpdateTime i) (ie_mar ie i now)) lst []
           in map_option (\<lambda>(err, n, t, r). (err, st\<lparr>is_writes := n, is_clock := t, is_redis := r\<rparr>))
                (updateTargetTsInRedis (ie_io ie) pg (ie_ord ie) newMap (is_writes st, is_clock st, is_redis st)))"

definition UpdateTargets :: "ident_env \<Rightarrow> pushgw_conf \<Rightarrow> string list \<Rightarrow> int \<Rightarrow> ident_state \<Rightarrow> ident_state option" where
  "UpdateTargets ie pg lst now st =
     (if lst = [] then Some st
      else map_option (\<lambda>(err, st0).
        let st1 = (if err then st0\<lparr>is_failed := is_failed st0 + 1\<rparr> else st0)
        in if \<not> ie_isCenter ie then
             (if \<not> ie_TryAcquire ie lst then st1 else st1\<lparr>is_posted := is_posted st1 @ [lst]\<rparr>)
           else if ie_dbq ie then st1
           else let exists = filter (\<lambda>i. i \<in> fst ` set (is_table st1)) lst;
                    news = filter (\<lambda>i. \<not> ie_dbi ie i) (ie_sub ie lst exists)
                in st1\<lparr>is_table := is_table st1 @ map (\<lambda>i. (i, now)) news\<rparr>)
        (updateTargetsUpdateTs ie pg lst now st))"

text \<open>\<open>lst\<close> is the batch being collected.\<close>

fun updateTimestamp ::
  "ident_env \<Rightarrow> pushgw_conf \<Rightarrow> int \<Rightarrow> string list \<Rightarrow> string list \<Rightarrow> ident_state \<Rightarrow> ident_state option"
where
  "updateTimestamp ie pg now [] lst st = UpdateTargets ie pg lst now st"
| "updateTimestamp ie pg now (i # idents) lst st =
     (let lst1 = lst @ [i]
      in if length lst1 = 100
         then (case UpdateTargets ie pg lst1 now st of None \<Rightarrow> None | Some st1 \<Rightarrow> updateTimestamp ie pg now idents [] st1)
         else updateTimestamp ie pg now idents lst1 st)"

definition persist_idents ::
  "(string list \<Rightarrow> string list) \<Rightarrow> ident_env \<Rightarrow> pushgw_conf \<Rightarrow> int \<Rightarrow> gateway \<times> ident_state \<Rightarrow> (gateway \<times> ident_state) option"
where
  "persist_idents rng ie pg now = (\<lambda>(g, st).
     if gw_idents g = [] then Some (g, st)
     else map_option (\<lambda>st1. (g\<lparr>gw_idents := []\<rparr>, st1)) (updateTimestamp ie pg now (rng (mkeys (gw_idents g))) [] st))"

section \<open>Lemmas: duplicates and filters\<close>

lemma dup_linear_names: "map fst ls = ns \<Longrightarrow> dup_linear ls \<longleftrightarrow> \<not> distinct ns"
proof (induction ns arbitrary: ls)
  case (Cons n ns)
  then obtain l ls' where ls: "ls = l # ls'" "fst l = n" "map fst ls' = ns" by (cases ls) auto
  have "list_ex (\<lambda>m. fst m = n) ls' \<longleftrightarrow> n \<in> set ns" unfolding ls(3) [symmetric] list_ex_iff by auto
  with Cons.IH [OF ls(3)] ls show ?case by simp
qed simp

lemma dup_map_names: "map fst ls = ns \<Longrightarrow> dup_map ls seen \<longleftrightarrow> \<not> distinct ns \<or> (\<exists>k \<in> set ns. mhas seen k)"
proof (induction ns arbitrary: ls seen)
  case (Cons n ns)
  then obtain l ls' where ls: "ls = l # ls'" "fst l = n" "map fst ls' = ns" by (cases ls) auto
  with Cons.IH [OF ls(3)] show ?case by (auto simp: mhas_def)
qed simp

lemma duplicateLabelKey_iff: "duplicateLabelKey ls \<longleftrightarrow> \<not> distinct (map fst ls)"
  by (simp add: duplicateLabelKey_def dup_linear_names dup_map_names mhas_def)

lemma label_map_lookup:
  assumes "distinct (map fst ls)"
  shows "mget (label_map ls) k = map_of ls k"
proof -
  have "mget (fold (\<lambda>l. mput (fst l) (snd l)) ls m) k = (case map_of ls k of Some v \<Rightarrow> Some v | None \<Rightarrow> mget m k)" for m
    using assms
  proof (induction ls arbitrary: m)
    case (Cons l ls)
    then have "map_of ls (fst l) = None" by (simp add: map_of_eq_None_iff)
    with Cons show ?case by (cases l) (auto split: option.split)
  qed simp
  then show ?thesis by (simp add: label_map_def split: option.split)
qed

lemma find_name: "find (\<lambda>l. fst l = k) ls = None \<longleftrightarrow> map_of ls k = None"
  "find (\<lambda>l. fst l = k) ls = Some l \<Longrightarrow> map_of ls k = Some (snd l)"
  by (induction ls) (auto split: if_splits)

lemma name_only: "f \<noteq> [] \<Longrightarrow> (if length f = 1 then mget f k else None) = Some n \<longleftrightarrow> f = [(k, n)]"
  by (cases f) auto

lemma initDropSampleFilters_spec:
  "initDropSampleFilters fs (b, c) = (b', c') \<Longrightarrow>
     (\<forall>n. mhas b' n \<longleftrightarrow> mhas b n \<or> [(''__name__'', n)] \<in> set fs) \<and>
     set c' = set c \<union> {f \<in> set fs. f \<noteq> [] \<and> (\<forall>n. f \<noteq> [(''__name__'', n)])}"
proof (induction fs "(b, c)" arbitrary: b c rule: initDropSampleFilters.induct)
  case (2 f fs b c)
  show ?case
  proof (cases "f = []")
    case True
    with 2 show ?thesis by auto
  next
    case False
    show ?thesis
    proof (cases "if length f = 1 then mget f ''__name__'' else None")
      case None
      then have n: "\<forall>n. f \<noteq> [(''__name__'', n)]" using name_only [OF False] by (metis option.distinct(1))
      have "initDropSampleFilters fs (b, c @ [f]) = (b', c')" using 2(4) False None by simp
      from 2(2) [OF False None this] n False show ?thesis by auto
    next
      case (Some n)
      then have f: "f = [(''__name__'', n)]" using name_only [OF False] by blast
      have "initDropSampleFilters fs (mput n () b, c) = (b', c')" using 2(4) False Some by simp
      from 2(3) [OF False Some this] f show ?thesis by (auto simp: mhas_def)
    qed
  qed
qed auto

section \<open>Lemmas: the labels of a machine\<close>

lemma label_index_None: "label_index name i ls r = None \<longleftrightarrow> r = None \<and> name \<notin> fst ` set ls"
  by (induction ls arbitrary: i r) auto

lemma label_index_Some:
  "label_index name i ls r = Some j \<Longrightarrow> r = Some j \<or> (i \<le> j \<and> j < i + length ls \<and> fst (ls ! (j - i)) = name)"
proof (induction ls arbitrary: i r)
  case (Cons l ls)
  from Cons.IH [of "Suc i" "if fst l = name then Some i else r"] Cons.prems
  show ?case by (auto simp: nth_Cons split: nat.split if_splits) (metis Suc_diff_Suc Suc_le_lessD diff_Suc_1 nth_Cons_Suc)+
qed simp

lemma label_index_nth:
  assumes "label_index name 0 ls None = Some j"
  shows "j < length ls" and "fst (ls ! j) = name"
  using label_index_Some [OF assms] by auto

lemma map_of_nth: "distinct (map fst ls) \<Longrightarrow> j < length ls \<Longrightarrow> map_of ls (fst (ls ! j)) = Some (snd (ls ! j))"
  by (metis map_of_is_SomeI nth_mem prod.collapse)

text \<open>Replacing the value of a label, and adding one.\<close>

lemma map_of_update:
  assumes "distinct (map fst ls)" and "j < length ls"
  shows "map_of (ls[j := (fst (ls ! j), v)]) k = (if k = fst (ls ! j) then Some v else map_of ls k)"
    and "map fst (ls[j := (fst (ls ! j), v)]) = map fst ls"
proof -
  show names: "map fst (ls[j := (fst (ls ! j), v)]) = map fst ls"
    using assms(2) by (simp add: map_update list_update_same_conv)
  let ?ls = "ls[j := (fst (ls ! j), v)]"
  have d: "distinct (map fst ?ls)" using names assms(1) by simp
  have "map_of ?ls k = Some w \<longleftrightarrow> (if k = fst (ls ! j) then w = v else map_of ls k = Some w)" for w
  proof -
    have inj: "fst (ls ! i) \<noteq> fst (ls ! j)" if "i < length ls" "i \<noteq> j" for i
      using assms that by (metis distinct_conv_nth length_map nth_map)
    have "(k, w) \<in> set ?ls \<longleftrightarrow> (if k = fst (ls ! j) then w = v else (k, w) \<in> set ls)"
    proof (cases "k = fst (ls ! j)")
      case True
      have "(k, w) \<in> set ?ls \<longleftrightarrow> w = v"
      proof
        assume "(k, w) \<in> set ?ls"
        then obtain i where i: "i < length ls" "?ls ! i = (k, w)" by (auto simp: in_set_conv_nth)
        show "w = v"
        proof (cases "i = j")
          case False
          with i inj [of i] True show ?thesis by (metis fst_conv nth_list_update_neq)
        qed (use i in auto)
      next
        assume "w = v"
        with True assms(2) show "(k, w) \<in> set ?ls" by (simp add: set_update_memI)
      qed
      with True show ?thesis by simp
    next
      case False
      have "(k, w) \<in> set ?ls \<longleftrightarrow> (k, w) \<in> set ls"
      proof
        assume "(k, w) \<in> set ?ls"
        then obtain i where i: "i < length ls" "?ls ! i = (k, w)" by (auto simp: in_set_conv_nth)
        then have "i \<noteq> j" using False by auto
        with i show "(k, w) \<in> set ls" by (metis nth_list_update_neq nth_mem)
      next
        assume "(k, w) \<in> set ls"
        then obtain i where i: "i < length ls" "ls ! i = (k, w)" by (auto simp: in_set_conv_nth)
        then have "i \<noteq> j" using False by auto
        with i show "(k, w) \<in> set ?ls" by (metis length_list_update nth_list_update_neq nth_mem)
      qed
      with False show ?thesis by simp
    qed
    then show ?thesis using map_of_eq_Some_iff [OF d] map_of_eq_Some_iff [OF assms(1)] by simp
  qed
  then show "map_of ?ls k = (if k = fst (ls ! j) then Some v else map_of ls k)"
    by (metis option.exhaust)
qed

lemma map_of_snoc: "k' \<notin> fst ` set ls \<Longrightarrow> map_of (ls @ [(k', v)]) k = (if k = k' then Some v else map_of ls k)"
  by (induction ls) auto

text \<open>
  The loop over the tags, on the labels \<open>ls'\<close> that have grown out of \<open>ls\<close>: the names at the old positions
  are the old ones, and a tag that is new is not among the names.
\<close>

lemma append_tags_spec:
  assumes "\<And>name. keys name = label_index name 0 ls None"
    and "distinct (map fst ls')" and "length ls \<le> length ls'" and "\<forall>i < length ls. fst (ls' ! i) = fst (ls ! i)"
    and "distinct (map fst tags)" and "\<forall>k \<in> fst ` set tags. keys k = None \<longrightarrow> k \<notin> fst ` set ls'"
  shows "distinct (map fst (append_tags pg keys tags ls')) \<and>
    fst ` set (append_tags pg keys tags ls') = fst ` set ls' \<union> {k \<in> fst ` set tags. keys k = None} \<and>
    map_of (append_tags pg keys tags ls') k =
      (if keys k \<noteq> None \<and> (keys (pg_BusiGroupLabelKey pg) \<noteq> None \<or> \<not> pg_LabelRewrite pg) then map_of ls' k
       else case map_of tags k of Some v \<Rightarrow> Some v | None \<Rightarrow> map_of ls' k)"
  using assms(2-)
proof (induction tags arbitrary: ls')
  case (Cons tag tags)
  obtain key v where tag: "tag = (key, v)" by force
  let ?bg = "keys (pg_BusiGroupLabelKey pg) \<noteq> None"
  have tags: "map_of tags key = None" using Cons.prems(4) by (simp add: tag map_of_eq_None_iff)
  show ?case
  proof (cases "keys key")
    case None
    have new: "key \<notin> fst ` set ls'" using Cons.prems(5) None by (simp add: tag)
    have d: "distinct (map fst (ls' @ [(key, v)]))" using Cons.prems(1) new by simp
    have "\<forall>i < length ls. fst ((ls' @ [(key, v)]) ! i) = fst (ls ! i)" using Cons.prems(2,3) by (simp add: nth_append)
    moreover have "\<forall>k \<in> fst ` set tags. keys k = None \<longrightarrow> k \<notin> fst ` set (ls' @ [(key, v)])"
      using Cons.prems(4,5) by (auto simp: tag)
    ultimately have ih: "distinct (map fst (append_tags pg keys tags (ls' @ [(key, v)])))"
        "fst ` set (append_tags pg keys tags (ls' @ [(key, v)])) = fst ` set (ls' @ [(key, v)]) \<union> {k \<in> fst ` set tags. keys k = None}"
        "map_of (append_tags pg keys tags (ls' @ [(key, v)])) k =
           (if keys k \<noteq> None \<and> (?bg \<or> \<not> pg_LabelRewrite pg) then map_of (ls' @ [(key, v)]) k
            else case map_of tags k of Some v \<Rightarrow> Some v | None \<Rightarrow> map_of (ls' @ [(key, v)]) k)"
      using Cons.IH [OF d] Cons.prems(2,4) by (simp_all add: tag del: map_of_append)
    have step: "append_tags pg keys (tag # tags) ls' = append_tags pg keys tags (ls' @ [(key, v)])"
      using None by (simp add: tag)
    have "{k \<in> fst ` set (tag # tags). keys k = None} = insert key {k \<in> fst ` set tags. keys k = None}"
      using None by (auto simp: tag)
    then show ?thesis
      unfolding step ih(2) using ih(1,3) None tags
      by (simp add: tag map_of_snoc [OF new] del: map_of_append split: option.split)
  next
    case (Some i)
    have i: "i < length ls" "fst (ls ! i) = key" using label_index_nth Some assms(1) by auto
    then have i': "i < length ls'" "fst (ls' ! i) = key" using Cons.prems(2,3) by auto
    show ?thesis
    proof (cases "?bg \<or> \<not> pg_LabelRewrite pg")
      case True
      then show ?thesis
        using Cons.IH [OF Cons.prems(1-3)] Cons.prems(4,5) Some by (auto simp: tag split: option.splits if_splits)
    next
      case False
      let ?ls = "ls'[i := (fst (ls' ! i), v)]"
      note u = map_of_update [OF Cons.prems(1) i'(1), of v]
      have names: "fst ` set ?ls = fst ` set ls'" using arg_cong [OF u(2), of set] by simp
      have "\<forall>j < length ls. fst (?ls ! j) = fst (ls ! j)" using Cons.prems(3) i' i by (auto simp: nth_list_update)
      moreover have "\<forall>k \<in> fst ` set tags. keys k = None \<longrightarrow> k \<notin> fst ` set ?ls"
        unfolding names using Cons.prems(5) by (auto simp: tag)
      moreover have "distinct (map fst ?ls)" using u(2) Cons.prems(1) by simp
      ultimately have ih: "distinct (map fst (append_tags pg keys tags ?ls))"
          "fst ` set (append_tags pg keys tags ?ls) = fst ` set ls' \<union> {k \<in> fst ` set tags. keys k = None}"
          "map_of (append_tags pg keys tags ?ls) k = (case map_of tags k of Some v \<Rightarrow> Some v | None \<Rightarrow> map_of ?ls k)"
        using Cons.IH [of ?ls] Cons.prems(2,4) False names by (simp_all add: tag)
      have step: "append_tags pg keys (tag # tags) ls' = append_tags pg keys tags ?ls"
        using False Some by (simp add: tag)
      have "{k \<in> fst ` set (tag # tags). keys k = None} = {k \<in> fst ` set tags. keys k = None}"
        using Some by (auto simp: tag)
      moreover have "map_of ?ls = (\<lambda>k. if k = key then Some v else map_of ls' k)" using u(1) i'(2) by auto
      ultimately show ?thesis
        unfolding step ih(2) using ih(1,3) False tags by (simp add: tag split: option.split)
    qed
  qed
qed simp

text \<open>The label of the business group, where the machine is in a group that has one.\<close>

definition group_label :: "pushgw_conf \<Rightarrow> (int, busi_group) gomap stat_cache \<Rightarrow> target \<Rightarrow> string option" where
  "group_label pg bgCache target =
     (if t_GroupId target > 0 \<and> pg_BusiGroupLabelKey pg \<noteq> [] then
        (case GetByBusiGroupId bgCache (t_GroupId target) of
           None \<Rightarrow> None | Some bg \<Rightarrow> if bg_LabelEnable bg = 0 then None else Some (bg_LabelValue bg))
      else None)"

lemma AppendLabels_spec:
  assumes "distinct (map fst ls)" and "mwf (t_TagsMap target)" and "range_order rng"
  shows "map_of (AppendLabels pg rng bgCache target ls) k =
      (case map_of ls k of
         Some v \<Rightarrow> (if pg_LabelRewrite pg \<and> pg_BusiGroupLabelKey pg \<notin> fst ` set ls
                    then (case mget (t_TagsMap target) k of Some w \<Rightarrow> Some w | None \<Rightarrow> Some v) else Some v)
       | None \<Rightarrow> (case mget (t_TagsMap target) k of
                    Some w \<Rightarrow> Some w
                  | None \<Rightarrow> if k = pg_BusiGroupLabelKey pg then group_label pg bgCache target else None))"
    and "mget (t_TagsMap target) (pg_BusiGroupLabelKey pg) = None \<Longrightarrow>
      distinct (map fst (AppendLabels pg rng bgCache target ls))"
proof -
  define keys where "keys = (\<lambda>name. label_index name 0 ls None)"
  define tags where "tags = map (\<lambda>k. (k, the (mget (t_TagsMap target) k))) (rng (mkeys (t_TagsMap target)))"
  let ?bk = "pg_BusiGroupLabelKey pg" and ?r = "append_tags pg keys tags ls"
  have in_ls: "keys name = None \<longleftrightarrow> map_of ls name = None" for name
    by (simp add: keys_def label_index_None map_of_eq_None_iff)
  have tnames: "map fst tags = rng (mkeys (t_TagsMap target))" by (simp add: tags_def comp_def)
  have dt: "distinct (map fst tags)" unfolding tnames using assms(2,3) by (simp add: distinct_range_order distinct_mkeys)
  have "set (map fst tags) = dom (map_of (t_TagsMap target))"
    unfolding tnames using assms(3) by (simp add: set_range_order set_mkeys)
  then have tk: "map_of tags name = mget (t_TagsMap target) name" for name
    by (cases "mget (t_TagsMap target) name") (auto simp: tags_def map_of_map_keys map_of_eq_None_iff intro!: map_of_is_SomeI)
  have "distinct (map fst ?r) \<and> fst ` set ?r = fst ` set ls \<union> {k \<in> fst ` set tags. keys k = None} \<and>
      map_of ?r name = (if keys name \<noteq> None \<and> (keys ?bk \<noteq> None \<or> \<not> pg_LabelRewrite pg) then map_of ls name
       else case map_of tags name of Some v \<Rightarrow> Some v | None \<Rightarrow> map_of ls name)" for name
    by (rule append_tags_spec [where ls = ls]) (use assms(1) dt in \<open>auto simp: keys_def label_index_None\<close>)
  then have r: "distinct (map fst ?r)" "fst ` set ?r = fst ` set ls \<union> {k \<in> fst ` set tags. keys k = None}"
    and look: "\<And>name. map_of ?r name =
      (if keys name \<noteq> None \<and> (keys ?bk \<noteq> None \<or> \<not> pg_LabelRewrite pg) then map_of ls name
       else case mget (t_TagsMap target) name of Some v \<Rightarrow> Some v | None \<Rightarrow> map_of ls name)"
    by (simp_all add: tk)
  have bk: "keys ?bk = None \<longleftrightarrow> ?bk \<notin> fst ` set ls" by (simp add: keys_def label_index_None)
  have app: "AppendLabels pg rng bgCache target ls =
      (if keys ?bk \<noteq> None then ?r
       else case group_label pg bgCache target of None \<Rightarrow> ?r | Some v \<Rightarrow> ?r @ [(?bk, v)])"
    by (simp add: AppendLabels_def group_label_def keys_def [symmetric] tags_def [symmetric] Let_def split: option.split)
  have snoc: "map_of (?r @ [(?bk, v)]) k = (case map_of ?r k of Some w \<Rightarrow> Some w | None \<Rightarrow> if k = ?bk then Some v else None)" for v k
    by (simp add: map_add_def split: option.split)
  show "map_of (AppendLabels pg rng bgCache target ls) k =
      (case map_of ls k of
         Some v \<Rightarrow> (if pg_LabelRewrite pg \<and> ?bk \<notin> fst ` set ls
                    then (case mget (t_TagsMap target) k of Some w \<Rightarrow> Some w | None \<Rightarrow> Some v) else Some v)
       | None \<Rightarrow> (case mget (t_TagsMap target) k of
                    Some w \<Rightarrow> Some w | None \<Rightarrow> if k = ?bk then group_label pg bgCache target else None))"
  proof (cases "keys ?bk = None")
    case True
    then show ?thesis
      using in_ls [of k] by (auto simp: app snoc look bk [symmetric] simp del: map_of_append split: option.split)
  next
    case False
    then have "map_of ls ?bk \<noteq> None" using in_ls [of ?bk] by simp
    then show ?thesis using False in_ls [of k] by (auto simp: app look bk [symmetric] split: option.split)
  qed
  show "distinct (map fst (AppendLabels pg rng bgCache target ls))" if "mget (t_TagsMap target) ?bk = None"
  proof -
    have "map_of tags ?bk = None" using that tk by simp
    then have "?bk \<notin> fst ` set tags" by (simp only: map_of_eq_None_iff simp_thms)
    then have "?bk \<notin> fst ` set ?r" if "keys ?bk = None" using that by (simp add: r(2) bk)
    then show ?thesis using r(1) by (auto simp: app split: option.split)
  qed
qed

section \<open>Lemmas: what is queued\<close>

definition labels_distinct :: "time_series \<Rightarrow> bool" where
  "labels_distinct t \<longleftrightarrow> distinct (map fst (ts_Labels t))"

definition queues_distinct :: "writers \<Rightarrow> bool" where
  "queues_distinct ws \<longleftrightarrow> (\<forall>(k, q) \<in> set (ws_queues ws). list_all labels_distinct (lq_list (iq_list q)))"

text \<open>A series that names its machine in no label that is empty.\<close>

definition named_series :: "time_series \<Rightarrow> bool" where
  "named_series t \<longleftrightarrow> (\<forall>l \<in> set (ts_Labels t). fst l \<in> {''ident'', ''agent_hostname''} \<longrightarrow> snd l \<noteq> [])"

lemma rename_distinct:
  assumes "distinct (map fst ls)" and "i < length ls" and "''ident'' \<notin> fst ` set ls"
  shows "distinct (map fst (rename_label ls i))"
proof -
  have "map fst (rename_label ls i) = (map fst ls)[i := ''ident'']" by (simp add: rename_label_def map_update)
  then show ?thesis using assms by (simp add: distinct_list_update)
qed

lemma extractIdent_distinct:
  assumes "distinct (map fst ls)" and "\<forall>l \<in> set ls. fst l \<in> {''ident'', ''agent_hostname''} \<longrightarrow> snd l \<noteq> []"
  shows "distinct (map fst (fst (extractIdentFromTimeSeries ls ii ih ms)))"
proof -
  let ?idx = "\<lambda>name. label_index name 0 ls None"
  have nonempty: "snd (ls ! i) \<noteq> []" if "?idx name = Some i" "name \<in> {''ident'', ''agent_hostname''}" for name i
    using assms(2) label_index_nth [OF that(1)] that(2) by auto
  have no_ident: "''ident'' \<notin> fst ` set ls" if "?idx ''ident'' = None" using that by (simp only: label_index_None simp_thms)
  show ?thesis
  proof (cases "?idx ''ident''")
    case (Some i)
    with nonempty [OF Some] assms(1) show ?thesis
      by (auto simp: extractIdentFromTimeSeries_def Let_def split: option.split)
  next
    case None
    show ?thesis
    proof (cases "?idx ''agent_hostname''")
      case (Some i)
      have d: "distinct (map fst (rename_label ls i))"
        by (rule rename_distinct [OF assms(1)]) (use label_index_nth [OF Some] no_ident None in auto)
      with None Some nonempty [OF Some] show ?thesis
        by (auto simp: extractIdentFromTimeSeries_def Let_def split: option.split)
    next
      case N: None
      have "distinct (map fst (rename_label ls i))" if "?idx ''host'' = Some i" for i
        by (rule rename_distinct [OF assms(1)]) (use label_index_nth [OF that] no_ident None in auto)
      with None N assms(1) show ?thesis
        by (auto simp: extractIdentFromTimeSeries_def Let_def split: option.split)
    qed
  qed
qed

definition caches_ok :: "pushgw_conf \<Rightarrow> label_caches \<Rightarrow> bool" where
  "caches_ok pg ca \<longleftrightarrow> range_order (ca_rng ca) \<and>
     (\<forall>i t. TargetCache_Get (ca_targets ca) i = Some t \<longrightarrow>
        mwf (t_TagsMap t) \<and> mget (t_TagsMap t) (pg_BusiGroupLabelKey pg) = None)"

lemma enrich_distinct:
  assumes "caches_ok pg ca" and "distinct (map fst ls)"
    and "\<forall>l \<in> set ls. fst l \<in> {''ident'', ''agent_hostname''} \<longrightarrow> snd l \<noteq> []"
  shows "distinct (map fst (fst (enrich pg ca ii ih ls)))"
proof -
  obtain ls1 ident ins where e: "extractIdentFromTimeSeries ls ii ih (pg_IdentMetrics pg) = (ls1, ident, ins)"
    by (cases "extractIdentFromTimeSeries ls ii ih (pg_IdentMetrics pg)") auto
  have d: "distinct (map fst ls1)" using extractIdent_distinct [OF assms(2,3), of ii ih "pg_IdentMetrics pg"] e by simp
  with AppendLabels_spec(2) [OF d] assms(1) show ?thesis
    by (auto simp: enrich_def e caches_ok_def split: option.split)
qed

lemma in_mput: "x \<in> set (mput k v m) \<Longrightarrow> x = (k, v) \<or> x \<in> set m"
  by (induction m) (auto split: if_splits)

lemma queues_distinct_push:
  assumes "queues_distinct ws" and "labels_distinct v"
  shows "queues_distinct (PushSample now qid v ws)"
proof -
  define q where "q = (case mget (ws_queues ws) qid of
      Some q \<Rightarrow> q | None \<Rightarrow> \<lparr>iq_list = NewSafeListLimited (ws_QueueMaxSize ws), iq_ts = now\<rparr>)"
  have "list_all labels_distinct (lq_list (iq_list q))"
    using assms(1) by (auto simp: q_def queues_distinct_def NewSafeListLimited_def split: option.split dest: map_of_SomeD)
  then have "list_all labels_distinct (lq_list (snd (PushFront v (iq_list q))))"
    using assms(2) by (simp add: PushFront_def PushFront_list_def)
  then show ?thesis
    using assms(1) by (auto simp: PushSample_def q_def [symmetric] queues_distinct_def dest!: in_mput split: prod.splits)
qed

lemma write_series_distinct:
  assumes "caches_ok pg ca" and "list_all named_series vs" and "queues_distinct ws"
  shows "queues_distinct (fst (write_series Some pg ca now qid ii ih vs (ws, ids)))"
  using assms(2,3)
proof (induction vs arbitrary: ws ids)
  case (Cons v vs)
  show ?case
  proof (cases "duplicateLabelKey (ts_Labels v)")
    case True
    with Cons show ?thesis by simp
  next
    case False
    obtain ls ident ins where e: "enrich pg ca ii ih (ts_Labels v) = (ls, ident, ins)"
      by (cases "enrich pg ca ii ih (ts_Labels v)") auto
    have "labels_distinct (v\<lparr>ts_Labels := ls\<rparr>)"
      using enrich_distinct [OF assms(1), of "ts_Labels v" ii ih] Cons.prems(1) False e
      by (auto simp: labels_distinct_def duplicateLabelKey_iff named_series_def)
    then have "queues_distinct (ForwardToQueue Some pg now qid (v\<lparr>ts_Labels := ls\<rparr>) ws)"
      using Cons.prems(2) by (auto simp: ForwardToQueue_def intro: queues_distinct_push split: prod.split)
    with Cons False show ?thesis by (simp add: e)
  qed
qed simp

section \<open>Lemmas: signs of life\<close>

definition store :: "(string \<times> string) list \<Rightarrow> redis \<Rightarrow> redis" where
  "store c r = (\<lambda>k. case map_of (rev c) k of Some v \<Rightarrow> Some v | None \<Rightarrow> r k)"

text \<open>
  What is expected of Redis: a write that succeeds stores all its entries and nothing else, one that
  fails may have stored some of them.
\<close>

definition redis_io_ok :: "redis_io \<Rightarrow> bool" where
  "redis_io_ok io \<longleftrightarrow>
     (\<forall>n dl t r c ok t' r'. io n dl t r c = (ok, t', r') \<longrightarrow>
        (if ok then r' = store c r else \<forall>k. r' k = r k \<or> r' k = store c r k))"

lemma store_append: "store (c @ c') r = store c' (store c r)"
  by (auto simp: store_def map_add_def fun_eq_iff split: option.split)

lemma store_partial: "\<forall>k. r' k = r k \<or> r' k = store c r k \<Longrightarrow> store c r' = store c r"
  by (auto simp: store_def fun_eq_iff split: option.splits) (metis option.distinct(1))

lemma map_of_rev_mwf: "mwf m \<Longrightarrow> map_of (rev m) = map_of m"
  by (rule map_of_eqI) (auto simp: mwf_def rev_map [symmetric] intro!: map_of_is_SomeI)

lemma store_same: "mwf m \<Longrightarrow> store m r k = (case mget m k of Some v \<Rightarrow> Some v | None \<Rightarrow> r k)"
  by (simp add: store_def map_of_rev_mwf)

lemma store_reordered:
  assumes "range_order ord" and "mwf m"
  shows "store (map (\<lambda>k. (k, the (mget m k))) (ord (mkeys m))) r = store m r"
proof
  fix k
  have "map_of (rev (map (\<lambda>k. (k, the (mget m k))) (ord (mkeys m)))) k = (if mhas m k then Some (the (mget m k)) else None)"
    using assms(1) by (simp add: rev_map map_of_map_restrict restrict_map_def set_range_order in_mkeys_iff comp_def)
  then show "store (map (\<lambda>k. (k, the (mget m k))) (ord (mkeys m))) r k = store m r k"
    using store_same [OF assms(2)] by (auto simp: store_def [of "map _ _"] mhas_def)
qed

text \<open>A write that reports success has stored its entries, whatever the failed attempts before it did.\<close>

lemma write_stores:
  assumes "redis_io_ok io" and "writeTargetTsInRedis io iv dl m c (n, t, r) = (True, n', t', r')"
  shows "r' = store c r"
  using assms(2)
proof (induction m arbitrary: n t r)
  case (Suc m)
  obtain ok t1 r1 where o1: "io n dl t r c = (ok, t1, r1)" by (cases "io n dl t r c") auto
  show ?case
  proof (cases ok)
    case True
    with o1 assms(1) Suc.prems show ?thesis by (auto simp: redis_io_ok_def)
  next
    case False
    from Suc.IH Suc.prems False o1 have "r' = store c r1" by auto
    moreover have "store c r1 = store c r"
      by (rule store_partial) (use o1 False assms(1) in \<open>auto simp: redis_io_ok_def\<close>)
    ultimately show ?thesis by simp
  qed
qed simp

lemma ts_loop_stores:
  assumes "redis_io_ok io"
  shows "ts_loop io pg dl es i batch err (n, t, r) = (False, n', t', r') \<Longrightarrow> \<not> err \<and> r' = store (batch @ es) r"
proof (induction es arbitrary: i batch err n t r)
  case Nil
  then show ?case using write_stores [OF assms]
    by (auto simp: write_batch_def store_def [of "[]"] split: if_split_asm prod.split_asm)
next
  case (Cons e es)
  show ?case
  proof (cases "(i + 1) mod pg_UpdateTargetBatchSize pg = 0")
    case True
    obtain ok n1 t1 r1 where w: "write_batch io pg dl (batch @ [e]) (n, t, r) = (ok, n1, t1, r1)"
      by (cases "write_batch io pg dl (batch @ [e]) (n, t, r)") auto
    with True Cons.prems have "ts_loop io pg dl es (i + 1) [] (err \<or> \<not> ok) (n1, t1, r1) = (False, n', t', r')" by (simp add: Let_def)
    from Cons.IH [OF this] have "\<not> err" ok "r' = store es r1" by auto
    moreover have "r1 = store (batch @ [e]) r" using write_stores [OF assms] w \<open>ok\<close> by (simp add: write_batch_def)
    ultimately show ?thesis by (simp add: store_append [symmetric])
  next
    case False
    with Cons.prems have "ts_loop io pg dl es (i + 1) (batch @ [e]) err (n, t, r) = (False, n', t', r')" by (simp add: Let_def)
    from Cons.IH [OF this] show ?thesis by simp
  qed
qed

lemma updateTargetTs_stores:
  assumes "redis_io_ok io" and "range_order ord" and "mwf m" and "updateTargetTsInRedis io pg ord m (n, t, r) = Some (False, n', t', r')"
  shows "r' = store m r"
proof -
  let ?es = "map (\<lambda>k. (k, the (mget m k))) (ord (mkeys m))" and ?dl = "t + pg_UpdateTargetTimeoutMills pg"
  consider (none) "m = []" "r' = r"
    | (single) "writeTargetTsInRedis io (pg_UpdateTargetRetryIntervalMills pg) ?dl (pg_UpdateTargetRetryCount pg) m (n, t, r) = (True, n', t', r')"
    | (batches) "ts_loop io pg ?dl ?es 0 [] False (n, t, r) = (False, n', t', r')"
    using assms(4) by (auto simp: updateTargetTsInRedis_def write_batch_def Let_def split: if_split_asm prod.split_asm)
  then show ?thesis
  proof cases
    case none
    then show ?thesis by (simp add: store_def)
  next
    case single
    then show ?thesis by (rule write_stores [OF assms(1)])
  next
    case batches
    from ts_loop_stores [OF assms(1) this] show ?thesis by (simp add: store_reordered [OF assms(2,3)])
  qed
qed

definition beat_entries :: "ident_env \<Rightarrow> int \<Rightarrow> string list \<Rightarrow> (string \<times> string) list" where
  "beat_entries ie now lst = map (\<lambda>i. (WrapIdentUpdateTime i, ie_mar ie i now)) lst"

lemma store_beats: "store (fold (\<lambda>i. mput (WrapIdentUpdateTime i) (ie_mar ie i now)) lst []) r = store (beat_entries ie now lst) r"
proof
  fix k
  have "mget (fold (\<lambda>i. mput (WrapIdentUpdateTime i) (ie_mar ie i now)) lst m) k =
      (case map_of (rev (beat_entries ie now lst)) k of Some v \<Rightarrow> Some v | None \<Rightarrow> mget m k)" for m
    by (induction lst arbitrary: m) (auto simp: beat_entries_def map_add_def split: option.split)
  moreover have "mwf (fold (\<lambda>i. mput (WrapIdentUpdateTime i) (ie_mar ie i now)) lst [])" by (rule mwf_fold_mput) simp
  ultimately show "store (fold (\<lambda>i. mput (WrapIdentUpdateTime i) (ie_mar ie i now)) lst []) r k = store (beat_entries ie now lst) r k"
    by (simp add: store_same store_def [of "beat_entries ie now lst"] split: option.split)
qed

text \<open>Lists whose times are written without an error; an error is counted.\<close>

lemma UpdateTargets_redis:
  assumes "ie_hasRedis ie" and "redis_io_ok (ie_io ie)" and "range_order (ie_ord ie)" and "UpdateTargets ie pg lst now st = Some st'"
  shows "is_failed st \<le> is_failed st' \<and>
    (is_failed st' = is_failed st \<longrightarrow> is_redis st' = store (beat_entries ie now lst) (is_redis st))"
proof (cases "lst = []")
  case True
  then show ?thesis using assms(4) by (simp add: UpdateTargets_def beat_entries_def store_def)
next
  case False
  let ?m = "fold (\<lambda>i. mput (WrapIdentUpdateTime i) (ie_mar ie i now)) lst []"
  have wf: "mwf ?m" by (rule mwf_fold_mput) simp
  obtain err n t r where w: "updateTargetTsInRedis (ie_io ie) pg (ie_ord ie) ?m (is_writes st, is_clock st, is_redis st) = Some (err, n, t, r)"
    using assms(1,4) False by (auto simp: UpdateTargets_def updateTargetsUpdateTs_def Let_def)
  with assms(1,4) False have st': "is_failed st' = is_failed st + (if err then 1 else 0)" "is_redis st' = r"
    by (auto simp: UpdateTargets_def updateTargetsUpdateTs_def Let_def split: if_split_asm)
  show ?thesis
  proof (cases err)
    case True
    then show ?thesis using st' by simp
  next
    case False
    with w have "r = store ?m (is_redis st)" using updateTargetTs_stores [OF assms(2,3) wf] by simp
    then show ?thesis using st' False by (simp add: store_beats)
  qed
qed

lemma updateTimestamp_redis:
  assumes "ie_hasRedis ie" and "redis_io_ok (ie_io ie)" and "range_order (ie_ord ie)"
  shows "updateTimestamp ie pg now idents lst st = Some st' \<Longrightarrow> is_failed st \<le> is_failed st' \<and>
    (is_failed st' = is_failed st \<longrightarrow> is_redis st' = store (beat_entries ie now (lst @ idents)) (is_redis st))"
proof (induction idents arbitrary: lst st)
  case Nil
  then show ?case using UpdateTargets_redis [OF assms] by simp
next
  case (Cons i idents)
  show ?case
  proof (cases "length (lst @ [i]) = 100")
    case True
    with Cons.prems obtain st1 where u: "UpdateTargets ie pg (lst @ [i]) now st = Some st1"
      and rest: "updateTimestamp ie pg now idents [] st1 = Some st'" by (auto simp: Let_def split: option.split_asm)
    have "beat_entries ie now (lst @ i # idents) = beat_entries ie now (lst @ [i]) @ beat_entries ie now idents"
      by (simp add: beat_entries_def)
    then show ?thesis
      using UpdateTargets_redis [OF assms u] Cons.IH [OF rest] by (auto simp: store_append)
  next
    case False
    with Cons.prems have "updateTimestamp ie pg now idents (lst @ [i]) st = Some st'" by (simp add: Let_def)
    from Cons.IH [OF this] show ?thesis by simp
  qed
qed

lemma beat_entries_lookup:
  "store (beat_entries ie now lst) r k =
     (if k \<in> WrapIdentUpdateTime ` set lst
      then Some (ie_mar ie (drop (length ''n9e_meta_update_time_'') k) now) else r k)"
proof -
  have "map_of (map (\<lambda>i. (WrapIdentUpdateTime i, ie_mar ie i now)) xs) k =
      (if k \<in> WrapIdentUpdateTime ` set xs then Some (ie_mar ie (drop (length ''n9e_meta_update_time_'') k) now) else None)" for xs
    by (induction xs) (auto simp: WrapIdentUpdateTime_def)
  then show ?thesis by (simp add: store_def beat_entries_def rev_map)
qed

text \<open>The machines that a request names.\<close>

lemma write_series_idents:
  assumes "v \<in> set vs" and "\<not> duplicateLabelKey (ts_Labels v)" and "pg_GetHeartbeatFromMetric pg"
    and "enrich pg ca ii ih (ts_Labels v) = (ls, i, True)"
  shows "mhas (snd (write_series h pg ca now qid ii ih vs (ws, ids))) i"
proof -
  have keep: "mhas ids' i \<Longrightarrow> mhas (snd (write_series h pg ca now qid ii ih us (ws', ids'))) i" for us ws' ids'
    by (induction us arbitrary: ws' ids') (auto simp: mhas_def split: prod.split)
  show ?thesis
    using assms(1)
  proof (induction vs arbitrary: ws ids)
    case (Cons u us)
    show ?case
    proof (cases "u = v")
      case True
      have "mhas (mput i () ids) i" by (simp add: mhas_def)
      then show ?thesis using True assms(2-4) keep by simp
    next
      case False
      with Cons show ?thesis by (auto split: prod.split)
    qed
  qed simp
qed

section \<open>Properties\<close>

definition sample_pushgw :: pushgw_conf where
  "sample_pushgw =
     \<lparr>pg_BusiGroupLabelKey = ''busigroup'', pg_LabelRewrite = False, pg_IdentMetrics = [],
      pg_DropSample = [[(''__name__'', ''up'')], [], [(''__name__'', ''cpu''), (''mode'', ''idle'')]],
      pg_GetHeartbeatFromMetric = True, pg_AllQueueMaxSize = 100, pg_OverLimitStatusCode = 499, pg_QueueNumber = 4,
      pg_UpdateTargetRetryCount = 3, pg_UpdateTargetBatchSize = 20,
      pg_UpdateTargetRetryIntervalMills = 500, pg_UpdateTargetTimeoutMills = 3000\<rparr>"

definition group_cache :: "(int, busi_group) gomap stat_cache" where
  "group_cache = \<lparr>sc_statTotal = 1, sc_statLastUpdated = 1,
     sc_data = [(1, \<lparr>bg_Id = 1, bg_Name = ''cloud'', bg_LabelEnable = 1, bg_LabelValue = ''cloud''\<rparr>)]\<rparr>"

definition machine_caches :: "(string, string) gomap \<Rightarrow> label_caches" where
  "machine_caches tags =
     \<lparr>ca_targets = \<lparr>sc_statTotal = 1, sc_statLastUpdated = 1, sc_data = [(''web1'', sample_target\<lparr>t_TagsMap := tags\<rparr>)]\<rparr>,
      ca_groups = group_cache, ca_rng = (\<lambda>ks. ks)\<rparr>"

text \<open>
  The filters, split at the start into a table of names and a list of the others, drop exactly the
  series for which one of the configured filters that are not empty has all its labels.
\<close>

theorem drop_filters_mean_their_labels:
  assumes "distinct (map fst ls)" and "initDropSampleFilters fs ([], []) = (byName, cpx)"
  shows "DropSample byName cpx ls \<longleftrightarrow> (\<exists>f \<in> set fs. f \<noteq> [] \<and> (\<forall>(k, v) \<in> set f. map_of ls k = Some v))"
proof -
  have b: "\<And>n. mhas byName n \<longleftrightarrow> [(''__name__'', n)] \<in> set fs"
    and c: "set cpx = {f \<in> set fs. f \<noteq> [] \<and> (\<forall>n. f \<noteq> [(''__name__'', n)])}"
    using initDropSampleFilters_spec [OF assms(2)] by (auto simp: mhas_def)
  have m: "matchSample f (label_map ls) \<longleftrightarrow> (\<forall>(k, v) \<in> set f. map_of ls k = Some v)" for f
    using label_map_lookup [OF assms(1)] by (auto simp: matchSample_def list_all_iff)
  have "(case find (\<lambda>l. fst l = ''__name__'') ls of None \<Rightarrow> False | Some l \<Rightarrow> mhas byName (snd l)) \<longleftrightarrow>
      (\<exists>n. [(''__name__'', n)] \<in> set fs \<and> map_of ls ''__name__'' = Some n)"
    using find_name [where k = "''__name__''" and ls = ls] b by (auto split: option.split)
  moreover have "byName = [] \<Longrightarrow> [(''__name__'', n)] \<notin> set fs" for n using b [of n] by (auto simp: mhas_def)
  ultimately have "DropSample byName cpx ls \<longleftrightarrow>
      (\<exists>n. [(''__name__'', n)] \<in> set fs \<and> map_of ls ''__name__'' = Some n) \<or>
      (\<exists>f \<in> set cpx. \<forall>(k, v) \<in> set f. map_of ls k = Some v)"
    by (auto simp: DropSample_def list_ex_iff m)
  also have "\<dots> \<longleftrightarrow> (\<exists>f \<in> set fs. f \<noteq> [] \<and> (\<forall>(k, v) \<in> set f. map_of ls k = Some v))"
  proof
    assume "(\<exists>n. [(''__name__'', n)] \<in> set fs \<and> map_of ls ''__name__'' = Some n) \<or>
      (\<exists>f \<in> set cpx. \<forall>(k, v) \<in> set f. map_of ls k = Some v)"
    then show "\<exists>f \<in> set fs. f \<noteq> [] \<and> (\<forall>(k, v) \<in> set f. map_of ls k = Some v)"
    proof
      assume "\<exists>n. [(''__name__'', n)] \<in> set fs \<and> map_of ls ''__name__'' = Some n"
      then obtain n where "[(''__name__'', n)] \<in> set fs" "map_of ls ''__name__'' = Some n" by blast
      then show ?thesis by (intro bexI [of _ "[(''__name__'', n)]"]) simp_all
    next
      assume "\<exists>f \<in> set cpx. \<forall>(k, v) \<in> set f. map_of ls k = Some v"
      then show ?thesis unfolding c by blast
    qed
  next
    assume "\<exists>f \<in> set fs. f \<noteq> [] \<and> (\<forall>(k, v) \<in> set f. map_of ls k = Some v)"
    then obtain f where f: "f \<in> set fs" "f \<noteq> []" "\<forall>(k, v) \<in> set f. map_of ls k = Some v" by blast
    show "(\<exists>n. [(''__name__'', n)] \<in> set fs \<and> map_of ls ''__name__'' = Some n) \<or>
      (\<exists>f \<in> set cpx. \<forall>(k, v) \<in> set f. map_of ls k = Some v)"
    proof (cases "\<exists>n. f = [(''__name__'', n)]")
      case True
      with f show ?thesis by auto
    next
      case False
      with f(1,2) have "f \<in> set cpx" unfolding c by blast
      with f(3) show ?thesis by blast
    qed
  qed
  finally show ?thesis .
qed

theorem drop_filters_witness:
  "case initDropSampleFilters (pg_DropSample sample_pushgw) ([], []) of (byName, cpx) \<Rightarrow>
     DropSample byName cpx [(''mode'', ''idle''), (''__name__'', ''cpu'')]"
proof -
  obtain byName cpx where i: "initDropSampleFilters (pg_DropSample sample_pushgw) ([], []) = (byName, cpx)" by force
  have "DropSample byName cpx [(''mode'', ''idle''), (''__name__'', ''cpu'')]"
    by (subst drop_filters_mean_their_labels [OF _ i]) (simp_all add: sample_pushgw_def)
  with i show ?thesis by simp
qed

text \<open>
  A series of a known machine carries its own labels, then the tags of the machine, then the label
  of its business group: an own label is overwritten by a tag only where the settings ask for it and the
  series does not name the group itself; a tag beats the label of the group.
\<close>

theorem labels_of_a_machine:
  assumes "distinct (map fst ls)" and "mwf (t_TagsMap target)" and "range_order rng"
  shows "map_of (AppendLabels pg rng bgCache target ls) k =
      (case map_of ls k of
         Some v \<Rightarrow> (if pg_LabelRewrite pg \<and> pg_BusiGroupLabelKey pg \<notin> fst ` set ls
                    then (case mget (t_TagsMap target) k of Some w \<Rightarrow> Some w | None \<Rightarrow> Some v) else Some v)
       | None \<Rightarrow> (case mget (t_TagsMap target) k of
                    Some w \<Rightarrow> Some w
                  | None \<Rightarrow> if k = pg_BusiGroupLabelKey pg then group_label pg bgCache target else None))"
  using assms by (rule AppendLabels_spec(1))

theorem labels_of_a_machine_witness:
  "map_of (AppendLabels sample_pushgw rev group_cache (sample_target\<lparr>t_TagsMap := [(''region'', ''bj''), (''env'', ''prod'')]\<rparr>)
     [(''env'', ''test'')]) ''busigroup'' = Some ''cloud''"
  by (subst labels_of_a_machine)
    (simp_all add: mwf_def group_label_def sample_pushgw_def sample_target_def group_cache_def GetByBusiGroupId_def)

text \<open>
  C25. Every series that a request puts into a queue has each label name once, which the backends
  demand, provided that no series has an empty machine label and that no machine has a tag with the name
  of the group label.
\<close>

theorem queued_series_have_distinct_labels:
  assumes "remoteWrite Some pg ca now ii ih (Some body) g = Some (status, g')" and "caches_ok pg ca"
    and "list_all named_series body" and "queues_distinct (gw_writers g)"
  shows "queues_distinct (gw_writers g')"
proof -
  have "queues_distinct (fst (write_series Some pg ca now qid ii ih body (gw_writers g, [])))" for qid
    by (rule write_series_distinct [OF assms(2-4)])
  with assms(1,4) show ?thesis
    by (auto simp: remoteWrite_def Let_def split: if_splits prod.splits) (metis fst_conv)+
qed

definition sample_gateway :: gateway where
  "sample_gateway = \<lparr>gw_writers = sample_writers, gw_allLen = 0, gw_counter = 0, gw_idents = []\<rparr>"

theorem queued_series_witness:
  "\<exists>g'. remoteWrite Some sample_pushgw (machine_caches [(''env'', ''prod'')]) 0 False True (Some [up_series]) sample_gateway
     = Some (200, g') \<and> queues_distinct (gw_writers g')"
proof -
  let ?ca = "machine_caches [(''env'', ''prod'')]"
  have "\<exists>g'. remoteWrite Some sample_pushgw ?ca 0 False True (Some [up_series]) sample_gateway = Some (200, g')"
    by (simp add: remoteWrite_def sample_gateway_def sample_pushgw_def Let_def split: prod.split)
  then obtain g' where g': "remoteWrite Some sample_pushgw ?ca 0 False True (Some [up_series]) sample_gateway = Some (200, g')"
    by blast
  have "caches_ok sample_pushgw ?ca"
    by (auto simp: caches_ok_def machine_caches_def TargetCache_Get_def sample_pushgw_def mwf_def split: if_splits)
  moreover have "list_all named_series [up_series]" by (simp add: named_series_def up_series_def)
  moreover have "queues_distinct (gw_writers sample_gateway)"
    by (simp add: queues_distinct_def sample_gateway_def sample_writers_def labels_distinct_def up_series_def)
  ultimately show ?thesis using queued_series_have_distinct_labels [OF g'] g' by blast
qed

text \<open>
  C24. A metric is a sign of life: with heartbeats taken from metrics and Redis configured, after a request with a series of a machine the next write of
  the seen machines either logs an error for a list of machines or puts the time of that write where the host rules look, so
  that an evaluation that asks for the machine gets this time. This holds for any number of machines,
  however the batches and the attempts fall and whenever the context of the write ends. Redis is expected to
  have stored what it reports as stored, and the encoded time to name its machine.
\<close>

theorem metric_is_a_sign_of_life:
  assumes "remoteWrite h pg ca t ii ih (Some body) g = Some (200, g')" and "gw_allLen g \<le> pg_AllQueueMaxSize pg"
    and "v \<in> set body" and "\<not> duplicateLabelKey (ts_Labels v)" and "pg_GetHeartbeatFromMetric pg"
    and "enrich pg ca ii ih (ts_Labels v) = (ls, ident, True)" and "range_order rng" and "ie_hasRedis ie"
    and "redis_io_ok (ie_io ie)" and "range_order (ie_ord ie)"
    and "persist_idents rng ie pg now (g', st) = Some (g'', st')"
    and "rd_redis rd = Some (is_redis st')" and "beats_named rd" and "rd_un_beat rd (ie_mar ie ident now) = Some (ident, now)"
    and "ident \<in> set asked"
  shows "is_failed st' > is_failed st \<or> mget (GetHostUpdateTime rd cache asked) ident = Some now"
proof (cases "is_failed st' > is_failed st")
  case False
  have "body \<noteq> []" using assms(3) by auto
  then obtain qid ws ids where w: "write_series h pg ca t qid ii ih body (gw_writers g, []) = (ws, ids)"
    and ids: "gw_idents g' = MSet ids (gw_idents g)"
    using assms(1,2) by (auto simp: remoteWrite_def Let_def split: if_splits prod.splits)
  have has: "mhas ids ident" using write_series_idents [OF assms(3-6), of h t qid "gw_writers g" "[]"] w by simp
  have "mget (fold (\<lambda>(k, u). mput k u) m s) ident = Some ()" if "mhas m ident \<or> mhas s ident" for m s :: "(string, unit) gomap"
    using that by (induction m arbitrary: s) (auto simp: mhas_def split: if_splits)
  then have seen: "ident \<in> set (mkeys (gw_idents g'))"
    using has unfolding in_mkeys_iff ids MSet_def by (simp add: mhas_def)
  then have ne: "gw_idents g' \<noteq> []" by (auto simp: mkeys_def)
  have "updateTimestamp ie pg now (rng (mkeys (gw_idents g'))) [] st = Some st'"
    using assms(11) ne by (auto simp: persist_idents_def)
  from updateTimestamp_redis [OF assms(8-10) this] False
  have st': "is_redis st' = store (beat_entries ie now (rng (mkeys (gw_idents g')))) (is_redis st)" by simp
  have "is_redis st' (WrapIdentUpdateTime ident) = Some (ie_mar ie ident now)"
    using seen assms(7) by (auto simp: st' beat_entries_lookup set_range_order WrapIdentUpdateTime_def)
  then have "stored_beat rd ident = Some now" by (simp add: stored_beat_def assms(12,14))
  then show ?thesis using GetHostUpdateTime_lookup [OF assms(13)] assms(12,15) by simp
qed simp

text \<open>A client that fails every other write.\<close>

definition sample_ident_env :: ident_env where
  "sample_ident_env =
     \<lparr>ie_io = (\<lambda>n dl t r c. (n mod 2 = 1, t + 1, if n mod 2 = 1 then store c r else r)), ie_ord = rev, ie_mar = (\<lambda>i t. i),
      ie_sub = (\<lambda>a b. filter (\<lambda>i. i \<notin> set b) a), ie_hasRedis = True, ie_isCenter = True, ie_TryAcquire = (\<lambda>l. True), ie_dbq = False, ie_dbi = (\<lambda>i. False)\<rparr>"

lemma sample_io: "ie_hasRedis sample_ident_env" "redis_io_ok (ie_io sample_ident_env)" "range_order (ie_ord sample_ident_env)"
  by (auto simp: redis_io_ok_def sample_ident_env_def range_order_def)

lemma up_dup: "\<not> duplicateLabelKey (ts_Labels up_series)"
  by (simp add: duplicateLabelKey_iff up_series_def)

lemma sample_settings:
  "pg_GetHeartbeatFromMetric sample_pushgw" "pg_QueueNumber sample_pushgw = 4" "pg_AllQueueMaxSize sample_pushgw = 100"
  by (simp_all add: sample_pushgw_def)

theorem metric_is_a_sign_of_life_witness:
  "\<exists>g' g'' st'.
     remoteWrite Some sample_pushgw (machine_caches []) 0 False True (Some [up_series]) sample_gateway = Some (200, g') \<and>
     persist_idents rev sample_ident_env sample_pushgw 77
       (g', \<lparr>is_writes = 0, is_clock = 0, is_redis = (\<lambda>k. None), is_failed = 0, is_table = [], is_posted = []\<rparr>) = Some (g'', st') \<and>
     is_failed st' = 0 \<and>
     mget (GetHostUpdateTime \<lparr>rd_redis = Some (is_redis st'), rd_un_beat = (\<lambda>s. Some (s, 77)), rd_un_meta = (\<lambda>_. None),
       rd_ord = (\<lambda>ks. ks)\<rparr> (ca_targets (machine_caches [])) [''web1'']) ''web1'' = Some 77"
proof -
  let ?ca = "machine_caches []"
  let ?st = "\<lparr>is_writes = 0, is_clock = 0, is_redis = (\<lambda>k. None), is_failed = 0, is_table = [], is_posted = []\<rparr>"
  have e: "\<exists>ls. enrich sample_pushgw ?ca False True (ts_Labels up_series) = (ls, ''web1'', True)"
    by (simp add: enrich_def extractIdentFromTimeSeries_def up_series_def sample_pushgw_def Let_def)
  then obtain ls where e: "enrich sample_pushgw ?ca False True (ts_Labels up_series) = (ls, ''web1'', True)" by blast
  have "\<exists>g'. remoteWrite Some sample_pushgw ?ca 0 False True (Some [up_series]) sample_gateway = Some (200, g') \<and> gw_idents g' = [(''web1'', ())]"
    using e by (simp add: remoteWrite_def sample_gateway_def Let_def MSet_def up_dup sample_settings split: prod.split)
  then obtain g' where g': "remoteWrite Some sample_pushgw ?ca 0 False True (Some [up_series]) sample_gateway = Some (200, g')"
    and ids: "gw_idents g' = [(''web1'', ())]" by blast
  obtain g'' st' where p: "persist_idents rev sample_ident_env sample_pushgw 77 (g', ?st) = Some (g'', st')" and ok: "is_failed st' = 0"
    using ids by (simp add: persist_idents_def mkeys_def UpdateTargets_def updateTargetsUpdateTs_def updateTargetTsInRedis_def
        sample_ident_env_def sample_pushgw_def write_batch_def numeral_3_eq_3 Let_def)
  let ?rd = "\<lparr>rd_redis = Some (is_redis st'), rd_un_beat = (\<lambda>s. Some (s, 77 :: int)), rd_un_meta = (\<lambda>_. None), rd_ord = (\<lambda>ks. ks)\<rparr>"
  have "is_redis st' = store (beat_entries sample_ident_env 77 [''web1'']) (\<lambda>k. None)"
    using p ok ids updateTimestamp_redis [OF sample_io, of sample_pushgw 77 "[''web1'']" "[]" ?st st']
    by (auto simp: persist_idents_def mkeys_def)
  then have named: "beats_named ?rd"
    by (auto simp: beats_named_def beat_entries_lookup sample_ident_env_def WrapIdentUpdateTime_def split: if_splits)
  have "is_failed st' > is_failed ?st \<or> mget (GetHostUpdateTime ?rd (ca_targets ?ca) [''web1'']) ''web1'' = Some 77"
    by (rule metric_is_a_sign_of_life [OF g' _ _ _ _ e _ sample_io p _ named])
      (simp_all add: sample_gateway_def sample_pushgw_def sample_ident_env_def duplicateLabelKey_iff up_series_def)
  with g' p ok show ?thesis by auto
qed

text \<open>
  The two provisos of the distinct labels are needed: a tag with the name of the group label is added, and
  the label of the group beside it; and a series with an empty machine label gets a second one.
\<close>

theorem group_label_is_doubled:
  "map fst (AppendLabels sample_pushgw (\<lambda>ks. ks) group_cache (sample_target\<lparr>t_TagsMap := [(''busigroup'', ''x'')]\<rparr>) [(''env'', ''test'')]) =
     [''env'', ''busigroup'', ''busigroup'']"
  by code_simp

theorem empty_ident_is_doubled:
  "map fst (fst (extractIdentFromTimeSeries [(''ident'', []), (''agent_hostname'', ''web1'')] False True [])) = [''ident'', ''ident'']"
  by code_simp

end
