(* ===== verification/Send_Task.thy ===== *)
theory Send_Task
  imports Consume Write_Queue
begin

text \<open>
  The goroutine that sends one event: \<open>Send\<close> and \<open>SendCallbacks\<close> of \<^verbatim>\<open>alert/dispatch/dispatch.go\<close>, the webhooks of
  \<^verbatim>\<open>alert/sender/webhook.go\<close> with the queue by severity of \<^verbatim>\<open>alert/sender/webhook_event_queue.go\<close>, and the default
  callback and the notification records of \<^verbatim>\<open>alert/sender/callback.go\<close>.

  The goroutine is described by the effects it has, in order, and by whether it is still in a loop of a
  consumer: a push to a URL that has no queue yet calls the consumer of the queue and not a new goroutine.
  The loop of the consumer is run for a number of rounds, which is an argument of everything that calls it. What other
  goroutines push to the queue before a round is an argument too; other changes to the maps of the queues at the same
  time are not modelled. Templates, the parser of URLs, the senders of the channels and the answers of
  the receivers are arguments. A panic is \<open>None\<close>.

  The lemmas show that the queue is a bounded priority queue, first in, first out for every severity, where
  a callback goes, and what is lost when a queue is created.
\<close>

section \<open>The queue by severity\<close>

record event_queue =
  eq_maxSize :: nat
  eq_High :: "event list"
  eq_Middle :: "event list"
  eq_Low :: "event list"

definition NewSafeEventQueue :: "nat \<Rightarrow> event_queue" where
  "NewSafeEventQueue mx = \<lparr>eq_maxSize = mx, eq_High = [], eq_Middle = [], eq_Low = []\<rparr>"

definition eq_len :: "event_queue \<Rightarrow> nat" where
  "eq_len q = length (eq_High q) + length (eq_Middle q) + length (eq_Low q)"

definition eq_Push :: "event \<Rightarrow> event_queue \<Rightarrow> bool \<times> event_queue" where
  "eq_Push e q =
     (if eq_len q \<ge> eq_maxSize q then (False, q)
      else if e_Severity e = 1 then (True, q\<lparr>eq_High := eq_High q @ [e]\<rparr>)
      else if e_Severity e = 2 then (True, q\<lparr>eq_Middle := eq_Middle q @ [e]\<rparr>)
      else if e_Severity e = 3 then (True, q\<lparr>eq_Low := eq_Low q @ [e]\<rparr>)
      else (False, q))"

definition eq_pop :: "event_queue \<Rightarrow> event option \<times> event_queue" where
  "eq_pop q =
     (if eq_len q = 0 then (None, q)
      else if eq_High q \<noteq> [] then (Some (hd (eq_High q)), q\<lparr>eq_High := tl (eq_High q)\<rparr>)
      else if eq_Middle q \<noteq> [] then (Some (hd (eq_Middle q)), q\<lparr>eq_Middle := tl (eq_Middle q)\<rparr>)
      else (Some (hd (eq_Low q)), q\<lparr>eq_Low := tl (eq_Low q)\<rparr>))"

fun PopN :: "nat \<Rightarrow> event_queue \<Rightarrow> event list \<times> event_queue" where
  "PopN 0 q = ([], q)"
| "PopN (Suc n) q =
     (if eq_len q > 0
      then let (e, q1) = eq_pop q; (es, q2) = PopN n q1
           in (case e of None \<Rightarrow> es | Some ev \<Rightarrow> ev # es, q2)
      else ([], q))"

section \<open>Webhooks\<close>

datatype hook_answer = HookNoRequest | HookNoAnswer | HookStatus int

text \<open>\<open>sendWebhook\<close>: whether to try again, and whether the call is recorded as a success.\<close>

definition sendWebhook :: "bool \<Rightarrow> hook_answer \<Rightarrow> webhook \<Rightarrow> bool \<times> bool" where
  "sendWebhook encodes ans conf =
     (if wh_Url conf = [] \<or> \<not> wh_Enable conf then (False, True)
      else if \<not> encodes then (False, False)
      else case ans of
             HookNoRequest \<Rightarrow> (True, False)
           | HookNoAnswer \<Rightarrow> (True, False)
           | HookStatus c \<Rightarrow> if c = 429 then (True, False) else (False, True))"

text \<open>The attempts from number \<open>i\<close>; each is recorded.\<close>

fun hook_tries :: "(nat \<Rightarrow> bool \<times> bool) \<Rightarrow> nat \<Rightarrow> nat \<Rightarrow> bool list" where
  "hook_tries res i 0 = []"
| "hook_tries res i (Suc n) = (let (retry, ok) = res i in ok # (if retry then hook_tries res (Suc i) n else []))"

record send_env =
  se_encodes :: bool
  se_answer :: "string \<Rightarrow> nat \<Rightarrow> hook_answer"
  se_answers :: "string \<Rightarrow> nat \<Rightarrow> nat \<Rightarrow> hook_answer" \<comment> \<open>to an attempt of a round of a consumer\<close>
  se_pushed :: "string \<Rightarrow> nat \<Rightarrow> event list" \<comment> \<open>what the other goroutines push to the queue of a URL before a round\<close>
  se_consumer :: consumer \<comment> \<open>with the templates of an event\<close>
  se_parse :: "string \<Rightarrow> (string \<times> string) option" \<comment> \<open>the host and the parameter \<^verbatim>\<open>card\<close> of a URL\<close>
  se_callbacks :: "string list"
  se_senders :: "string list"
  se_override :: "string \<Rightarrow> bool option" \<comment> \<open>the decoder of the rule configuration\<close>
  se_ordS :: "string list \<Rightarrow> string list"
  se_ordI :: "int list \<Rightarrow> int list"
  se_batch :: bool
  se_needSend :: "event \<Rightarrow> bool"

definition SingleSendWebhooks :: "send_env \<Rightarrow> (string, webhook) gomap \<Rightarrow> (string \<times> bool list) list" where
  "SingleSendWebhooks se webhooks =
     map (\<lambda>k. let conf = the (mget webhooks k)
              in (wh_Url conf, hook_tries (\<lambda>i. sendWebhook (se_encodes se) (se_answer se (wh_Url conf) i) conf) 0 3))
       (se_ordS se (mkeys webhooks))"

section \<open>Queues and their consumers\<close>

definition QueueMaxSize :: nat where
  "QueueMaxSize = 100000"

text \<open>A queue and whether its channel is closed. No function of the package closes it.\<close>

record webhook_queue =
  wq_eventQueue :: event_queue
  wq_closed :: bool

type_synonym queue_map = "(string, webhook_queue) gomap"

datatype send_effect =
    ChannelMessage string "int list"
  | CallbackTo string string \<comment> \<open>the callback and the URL it is given\<close>
  | WebhookCalls string "bool list"
  | Queued string bool
  | BatchSent string "event list" "bool list"
  | PluginCall
  | IbexTasks

text \<open>One round of the consumer of a URL: the batch, at most \<open>popSize\<close> events, and its attempts.\<close>

definition consume_round ::
  "send_env \<Rightarrow> nat \<Rightarrow> nat \<Rightarrow> webhook \<Rightarrow> event_queue \<Rightarrow> send_effect list \<times> event_queue"
where
  "consume_round se i popSize conf q =
     (let (events, q1) = PopN popSize q
      in if events = [] then ([], q1)
         else ([BatchSent (wh_Url conf) events
                  (hook_tries (\<lambda>a. sendWebhook (se_encodes se) (se_answers se (wh_Url conf) i a) conf) 0 (nat (wh_RetryCount conf)))], q1))"

text \<open>
  The loop of the consumer from round \<open>i\<close>, for at most the given number of rounds: the batches, whether the loop was left, and
  the queue. It is left only through the channel.
\<close>

fun StartConsumer ::
  "send_env \<Rightarrow> nat \<Rightarrow> nat \<Rightarrow> nat \<Rightarrow> webhook \<Rightarrow> webhook_queue \<Rightarrow> send_effect list \<times> bool \<times> webhook_queue"
where
  "StartConsumer se i 0 popSize conf wq = ([], False, wq)"
| "StartConsumer se i (Suc rounds) popSize conf wq =
     (let q = fold (\<lambda>e q. snd (eq_Push e q)) (se_pushed se (wh_Url conf) i) (wq_eventQueue wq)
      in if wq_closed wq then ([], True, wq\<lparr>wq_eventQueue := q\<rparr>)
         else let (sent, q1) = consume_round se i popSize conf q;
                  (effs, left, wq1) = StartConsumer se (Suc i) rounds popSize conf (wq\<lparr>wq_eventQueue := q1\<rparr>)
              in (sent @ effs, left, wq1))"

text \<open>
  \<open>PushEvent\<close>: the event is pushed when the URL has a queue, and otherwise when the call of the consumer of the new queue
  has returned. \<open>PushCallbackEvent\<close> does the same on the queues of the callbacks.
\<close>

datatype push_outcome = PushDone bool | InConsumer

definition PushEvent ::
  "send_env \<Rightarrow> nat \<Rightarrow> webhook \<Rightarrow> event \<Rightarrow> queue_map \<Rightarrow> send_effect list \<times> push_outcome \<times> queue_map"
where
  "PushEvent se rounds conf event qs =
     (let (effs, left, wq) =
            (case mget qs (wh_Url conf) of
               Some wq \<Rightarrow> ([], True, wq)
             | None \<Rightarrow> StartConsumer se 0 rounds (nat (wh_Batch conf)) conf
                         \<lparr>wq_eventQueue = NewSafeEventQueue QueueMaxSize, wq_closed = False\<rparr>)
      in if left
         then (let (succ, q1) = eq_Push event (wq_eventQueue wq)
               in (effs, PushDone succ, mput (wh_Url conf) (wq\<lparr>wq_eventQueue := q1\<rparr>) qs))
         else (effs, InConsumer, mput (wh_Url conf) wq qs))"

section \<open>The sending goroutine\<close>

record queues =
  qm_webhook :: queue_map
  qm_callback :: queue_map

fun BatchSendWebhooks ::
  "send_env \<Rightarrow> nat \<Rightarrow> (string \<times> webhook) list \<Rightarrow> event \<Rightarrow> queues \<Rightarrow> send_effect list \<times> bool \<times> queues"
where
  "BatchSendWebhooks se rounds [] event qm = ([], False, qm)"
| "BatchSendWebhooks se rounds ((k, conf) # hooks) event qm =
     (let (sent, r, qs) = PushEvent se rounds conf event (qm_webhook qm); qm1 = qm\<lparr>qm_webhook := qs\<rparr>
      in case r of
           InConsumer \<Rightarrow> (sent, True, qm1)
         | PushDone succ \<Rightarrow>
             (let (effs, stuck, qm2) = BatchSendWebhooks se rounds hooks event qm1
              in (sent @ Queued (wh_Url conf) succ # effs, stuck, qm2)))"

definition OverrideGlobalWebhook :: "send_env \<Rightarrow> event \<Rightarrow> bool" where
  "OverrideGlobalWebhook se event = (case se_override se (e_RuleConfig event) of None \<Rightarrow> False | Some b \<Rightarrow> b)"

text \<open>Which callback a URL goes to, and the URL it is called with; \<open>None\<close> skips the URL.\<close>

definition route :: "send_env \<Rightarrow> (string, webhook) gomap \<Rightarrow> event \<Rightarrow> string \<Rightarrow> (string \<times> string) option" where
  "route se whMap event urlStr =
     (if urlStr = [] then None
      else let cbURL = ParseURL (se_consumer se) event urlStr in
      if \<not> OverrideGlobalWebhook se event \<and> (case mget whMap cbURL of None \<Rightarrow> False | Some wh \<Rightarrow> wh_Enable wh) then None
      else if HasPrefix urlStr ''${ibex}'' then Some (''ibex'', cbURL)
      else let cbURL1 = (if \<not> (HasPrefix urlStr ''http://'' \<or> HasPrefix urlStr ''https://'') then ''http://'' @ urlStr else cbURL)
           in case se_parse se urlStr of
                None \<Rightarrow> None
              | Some (host, crd) \<Rightarrow>
                  (if host = ''open.feishu.cn'' \<and> crd = ''1'' then Some (''open.feishu.cn?card=1'', cbURL1)
                   else if host = ''open.larksuite.com'' \<and> crd = ''1'' then Some (''open.larksuite.com?card=1'', cbURL1)
                   else if host \<in> set (se_callbacks se) then Some (host, cbURL1)
                   else Some (''default'', cbURL1)))"

text \<open>
  The call of a callback: \<open>None\<close> is the nil callback of a name that is not registered. The default callback
  pushes the event when events are sent in batches.
\<close>

definition call_back ::
  "send_env \<Rightarrow> nat \<Rightarrow> event \<Rightarrow> string \<times> string \<Rightarrow> queues \<Rightarrow> (send_effect list \<times> bool \<times> queues) option"
where
  "call_back se rounds event = (\<lambda>(name, url) qm.
     if name \<notin> set (se_callbacks se) then None
     else if name = ''default'' \<and> url = [] then Some ([], False, qm)
     else if name = ''default'' \<and> se_batch se then
       (let (sent, r, qs) = PushEvent se rounds \<lparr>wh_Enable = True, wh_Url = url, wh_Batch = 1000, wh_RetryCount = 3\<rparr> event (qm_callback qm);
            qm1 = qm\<lparr>qm_callback := qs\<rparr>
        in case r of InConsumer \<Rightarrow> Some (sent, True, qm1) | PushDone succ \<Rightarrow> Some (sent @ [Queued url succ], False, qm1))
     else Some ([CallbackTo name url], False, qm))"

fun SendCallbacks ::
  "send_env \<Rightarrow> nat \<Rightarrow> (string, webhook) gomap \<Rightarrow> event \<Rightarrow> string list \<Rightarrow> queues \<Rightarrow> (send_effect list \<times> bool \<times> queues) option"
where
  "SendCallbacks se rounds whMap event [] qm = Some ([], False, qm)"
| "SendCallbacks se rounds whMap event (u # us) qm =
     (case route se whMap event u of
        None \<Rightarrow> SendCallbacks se rounds whMap event us qm
      | Some r \<Rightarrow>
          (case call_back se rounds event r qm of
             None \<Rightarrow> None
           | Some (effs, True, qm1) \<Rightarrow> Some (effs, True, qm1)
           | Some (effs, False, qm1) \<Rightarrow>
               map_option (\<lambda>(effs', stuck, qm2). (effs @ effs', stuck, qm2)) (SendCallbacks se rounds whMap event us qm1)))"

definition channel_messages :: "send_env \<Rightarrow> event \<Rightarrow> notify_target \<Rightarrow> send_effect list" where
  "channel_messages se event nt =
     (if \<not> se_needSend se event then []
      else let m = ToChannelUserMap (se_ordI se) (se_ordS se) nt
           in map (\<lambda>ch. ChannelMessage ch (the (mget m ch)))
                (filter (\<lambda>ch. ch \<in> set (se_senders se)) (se_ordS se (mkeys m))))"

text \<open>The effects of \<open>Send\<close>, whether it is still in the loop of a consumer, and the queues.\<close>

definition Send ::
  "send_env \<Rightarrow> nat \<Rightarrow> event \<Rightarrow> notify_target \<Rightarrow> bool \<Rightarrow> queues \<Rightarrow> (send_effect list \<times> bool \<times> queues) option"
where
  "Send se rounds event nt isSubscribe qm =
     (let whMap = ToWebhookMap nt; msgs = channel_messages se event nt;
          tail = PluginCall # (if isSubscribe then [] else [IbexTasks])
      in case SendCallbacks se rounds whMap event (ToCallbackList (se_ordS se) nt) qm of
           None \<Rightarrow> None
         | Some (cbs, True, qm1) \<Rightarrow> Some (msgs @ cbs, True, qm1)
         | Some (cbs, False, qm1) \<Rightarrow>
             (if OverrideGlobalWebhook se event then Some (msgs @ cbs @ tail, False, qm1)
              else if se_batch se then
                (let (effs, stuck, qm2) =
                       BatchSendWebhooks se rounds (map (\<lambda>k. (k, the (mget whMap k))) (se_ordS se (mkeys whMap))) event qm1
                 in Some (msgs @ cbs @ effs @ (if stuck then [] else tail), stuck, qm2))
              else Some (msgs @ cbs @ map (\<lambda>(u, oks). WebhookCalls u oks) (SingleSendWebhooks se whMap) @ tail, False, qm1)))"

section \<open>The queue as a priority list\<close>

definition eq_abs :: "event_queue \<Rightarrow> event list" where
  "eq_abs q = eq_High q @ eq_Middle q @ eq_Low q"

definition eq_wf :: "event_queue \<Rightarrow> bool" where
  "eq_wf q \<longleftrightarrow> list_all (\<lambda>e. e_Severity e = 1) (eq_High q) \<and> list_all (\<lambda>e. e_Severity e = 2) (eq_Middle q) \<and>
     list_all (\<lambda>e. e_Severity e = 3) (eq_Low q) \<and> eq_len q \<le> eq_maxSize q"

text \<open>
  The specification: a list in the order of severity that holds at most \<open>mx\<close> events. An event goes behind
  those that are as severe as it is; events leave at the head.
\<close>

definition place :: "event \<Rightarrow> event list \<Rightarrow> event list" where
  "place e es = takeWhile (\<lambda>x. e_Severity x \<le> e_Severity e) es @ e # dropWhile (\<lambda>x. e_Severity x \<le> e_Severity e) es"

definition pq_push :: "nat \<Rightarrow> event \<Rightarrow> event list \<Rightarrow> bool \<times> event list" where
  "pq_push mx e es = (if length es < mx \<and> e_Severity e \<in> {1, 2, 3} then (True, place e es) else (False, es))"

fun pq_run :: "nat \<Rightarrow> (event + nat) list \<Rightarrow> event list \<Rightarrow> (bool + event list) list \<times> event list" where
  "pq_run mx [] es = ([], es)"
| "pq_run mx (Inl e # ops) es = (let (ok, es1) = pq_push mx e es; (rs, es2) = pq_run mx ops es1 in (Inl ok # rs, es2))"
| "pq_run mx (Inr n # ops) es = (let (rs, es2) = pq_run mx ops (drop n es) in (Inr (take n es) # rs, es2))"

fun eq_run :: "(event + nat) list \<Rightarrow> event_queue \<Rightarrow> (bool + event list) list \<times> event_queue" where
  "eq_run [] q = ([], q)"
| "eq_run (Inl e # ops) q = (let (ok, q1) = eq_Push e q; (rs, q2) = eq_run ops q1 in (Inl ok # rs, q2))"
| "eq_run (Inr n # ops) q = (let (out, q1) = PopN n q; (rs, q2) = eq_run ops q1 in (Inr out # rs, q2))"

lemma eq_len_abs: "eq_len q = length (eq_abs q)"
  by (simp add: eq_len_def eq_abs_def)

lemma place_split:
  assumes "\<forall>x \<in> set as. e_Severity x \<le> e_Severity e" and "\<forall>x \<in> set bs. \<not> e_Severity x \<le> e_Severity e"
  shows "place e (as @ bs) = as @ e # bs"
  using assms by (cases bs) (auto simp: place_def takeWhile_append dropWhile_append takeWhile_eq_all_conv dropWhile_eq_Nil_conv)

lemma eq_Push_refines:
  assumes "eq_wf q"
  shows "\<exists>q'. eq_Push e q = (fst (pq_push (eq_maxSize q) e (eq_abs q)), q') \<and> eq_wf q' \<and> eq_maxSize q' = eq_maxSize q \<and>
    eq_abs q' = snd (pq_push (eq_maxSize q) e (eq_abs q))"
proof (cases "length (eq_abs q) < eq_maxSize q \<and> e_Severity e \<in> {1, 2, 3}")
  case False
  then show ?thesis using assms by (auto simp: eq_Push_def pq_push_def eq_len_abs)
next
  case True
  have s: "\<forall>x \<in> set (eq_High q). e_Severity x = 1" "\<forall>x \<in> set (eq_Middle q). e_Severity x = 2" "\<forall>x \<in> set (eq_Low q). e_Severity x = 3"
    using assms by (auto simp: eq_wf_def list_all_iff)
  consider "e_Severity e = 1" | "e_Severity e = 2" | "e_Severity e = 3" using True by auto
  then show ?thesis
  proof cases
    case 1
    have "place e (eq_abs q) = eq_High q @ e # eq_Middle q @ eq_Low q"
      unfolding eq_abs_def by (rule place_split) (use 1 s in auto)
    then show ?thesis using 1 True assms by (auto simp: eq_Push_def pq_push_def eq_len_abs eq_wf_def) (simp_all add: eq_abs_def)
  next
    case 2
    have "place e ((eq_High q @ eq_Middle q) @ eq_Low q) = (eq_High q @ eq_Middle q) @ e # eq_Low q"
      by (rule place_split) (use 2 s in auto)
    then show ?thesis using 2 True assms by (auto simp: eq_Push_def pq_push_def eq_len_abs eq_wf_def) (simp_all add: eq_abs_def)
  next
    case 3
    have "place e (eq_abs q @ []) = eq_abs q @ e # []"
      by (rule place_split) (use 3 s in \<open>auto simp: eq_abs_def\<close>)
    then show ?thesis using 3 True assms by (auto simp: eq_Push_def pq_push_def eq_len_abs eq_wf_def) (simp_all add: eq_abs_def)
  qed
qed

lemma eq_pop_refines:
  assumes "eq_wf q" and "eq_abs q \<noteq> []"
  shows "\<exists>q'. eq_pop q = (Some (hd (eq_abs q)), q') \<and> eq_wf q' \<and> eq_maxSize q' = eq_maxSize q \<and> eq_abs q' = tl (eq_abs q)"
proof -
  obtain mx h m l where q: "q = \<lparr>eq_maxSize = mx, eq_High = h, eq_Middle = m, eq_Low = l\<rparr>" by (cases q) auto
  show ?thesis
    using assms unfolding q
    by (cases h; cases m; cases l) (auto simp: eq_pop_def eq_len_def eq_wf_def eq_abs_def)
qed

lemma PopN_refines:
  "eq_wf q \<Longrightarrow> \<exists>q'. PopN n q = (take n (eq_abs q), q') \<and> eq_wf q' \<and> eq_maxSize q' = eq_maxSize q \<and> eq_abs q' = drop n (eq_abs q)"
proof (induction n arbitrary: q)
  case (Suc n)
  show ?case
  proof (cases "eq_abs q")
    case Nil
    then show ?thesis using Suc.prems by (simp add: eq_len_abs)
  next
    case (Cons e es)
    obtain q1 where p: "eq_pop q = (Some e, q1)" "eq_wf q1" "eq_maxSize q1 = eq_maxSize q" "eq_abs q1 = es"
      using eq_pop_refines [OF Suc.prems] Cons by auto
    obtain q2 where r: "PopN n q1 = (take n es, q2)" "eq_wf q2" "eq_maxSize q2 = eq_maxSize q" "eq_abs q2 = drop n es"
      using Suc.IH [OF p(2)] p(3,4) by auto
    then show ?thesis using p(1) Cons by (simp add: eq_len_abs)
  qed
qed simp

lemma eq_run_refines:
  "eq_wf q \<Longrightarrow> eq_run ops q = (rs, q') \<Longrightarrow> pq_run (eq_maxSize q) ops (eq_abs q) = (rs, eq_abs q') \<and> eq_wf q' \<and> eq_maxSize q' = eq_maxSize q"
proof (induction ops arbitrary: q rs)
  case (Cons op ops)
  show ?case
  proof (cases op)
    case (Inl e)
    obtain q1 where p: "eq_Push e q = (fst (pq_push (eq_maxSize q) e (eq_abs q)), q1)" "eq_wf q1" "eq_maxSize q1 = eq_maxSize q"
        "eq_abs q1 = snd (pq_push (eq_maxSize q) e (eq_abs q))"
      using eq_Push_refines [OF Cons.prems(1)] by blast
    obtain rs1 where r: "eq_run ops q1 = (rs1, q')" and rs: "rs = Inl (fst (pq_push (eq_maxSize q) e (eq_abs q))) # rs1"
      using Cons.prems(2) p(1) by (auto simp: Inl split: prod.splits)
    show ?thesis using Cons.IH [OF p(2) r] p(3,4) rs by (cases "pq_push (eq_maxSize q) e (eq_abs q)") (auto simp: Inl)
  next
    case (Inr n)
    obtain q1 where p: "PopN n q = (take n (eq_abs q), q1)" "eq_wf q1" "eq_maxSize q1 = eq_maxSize q" "eq_abs q1 = drop n (eq_abs q)"
      using PopN_refines [OF Cons.prems(1)] by blast
    obtain rs1 where r: "eq_run ops q1 = (rs1, q')" and rs: "rs = Inr (take n (eq_abs q)) # rs1"
      using Cons.prems(2) p(1) by (auto simp: Inr split: prod.splits)
    show ?thesis using Cons.IH [OF p(2) r] p(3,4) rs by (auto simp: Inr)
  qed
qed simp

section \<open>Lemmas: the goroutine\<close>

text \<open>A callback without a scheme is called with the text of its template: what the template rendered is dropped.\<close>

lemma bare_url_is_not_rendered:
  assumes "\<not> HasPrefix u ''http://''" and "\<not> HasPrefix u ''https://''" and "\<not> HasPrefix u ''${ibex}''"
    and "route se whMap event u = Some (name, url)"
  shows "url = ''http://'' @ u"
  using assms by (auto simp: route_def Let_def split: if_splits option.splits prod.splits)

text \<open>
  The consumer of an open queue is never left, and it neither holds nor sends an event that nobody else
  pushed to its queue.
\<close>

lemma eq_Push_keeps:
  assumes "eq_wf q"
  shows "eq_wf (snd (eq_Push e q))" and "set (eq_abs (snd (eq_Push e q))) \<subseteq> insert e (set (eq_abs q))"
proof -
  have place: "x \<in> set (place e es) \<Longrightarrow> x = e \<or> x \<in> set es" for x es
    by (auto simp: place_def dest: set_takeWhileD set_dropWhileD)
  show "eq_wf (snd (eq_Push e q))" "set (eq_abs (snd (eq_Push e q))) \<subseteq> insert e (set (eq_abs q))"
    using eq_Push_refines [OF assms, of e] by (auto simp: pq_push_def dest!: place split: if_split_asm)
qed

lemma pushed_keeps:
  "eq_wf q \<Longrightarrow> eq_wf (fold (\<lambda>e q. snd (eq_Push e q)) es q) \<and>
     set (eq_abs (fold (\<lambda>e q. snd (eq_Push e q)) es q)) \<subseteq> set es \<union> set (eq_abs q)"
proof (induction es arbitrary: q)
  case (Cons e es)
  from Cons.IH [OF eq_Push_keeps(1) [OF Cons.prems]] eq_Push_keeps(2) [OF Cons.prems, of e] show ?case by auto
qed simp

lemma consume_round_keeps:
  assumes "consume_round se i popSize conf q = (sent, q')" and "eq_wf q" and "event \<notin> set (eq_abs q)"
  shows "eq_wf q' \<and> event \<notin> set (eq_abs q') \<and> list_all (\<lambda>e. \<exists>es oks. e = BatchSent (wh_Url conf) es oks \<and> event \<notin> set es) sent"
  using PopN_refines [OF assms(2), of popSize] assms(1,3)
  by (auto simp: consume_round_def dest!: in_set_takeD in_set_dropD split: if_split_asm)

lemma consumer_is_never_left:
  assumes "StartConsumer se i rounds popSize conf wq = (effs, left, wq')" and "\<not> wq_closed wq" and "eq_wf (wq_eventQueue wq)"
    and "event \<notin> set (eq_abs (wq_eventQueue wq))" and "\<forall>i. event \<notin> set (se_pushed se (wh_Url conf) i)"
  shows "\<not> left \<and> event \<notin> set (eq_abs (wq_eventQueue wq')) \<and>
    list_all (\<lambda>e. \<exists>es oks. e = BatchSent (wh_Url conf) es oks \<and> event \<notin> set es) effs"
  using assms
proof (induction rounds arbitrary: i wq effs left wq')
  case (Suc rounds)
  let ?q = "fold (\<lambda>e q. snd (eq_Push e q)) (se_pushed se (wh_Url conf) i) (wq_eventQueue wq)"
  have q: "eq_wf ?q" "event \<notin> set (eq_abs ?q)" using pushed_keeps [OF Suc.prems(3)] Suc.prems(4,5) by blast+
  obtain sent q1 where c: "consume_round se i popSize conf ?q = (sent, q1)" by force
  obtain effs1 left1 wq1 where r: "StartConsumer se (Suc i) rounds popSize conf (wq\<lparr>wq_eventQueue := q1\<rparr>) = (effs1, left1, wq1)"
    by (cases "StartConsumer se (Suc i) rounds popSize conf (wq\<lparr>wq_eventQueue := q1\<rparr>)") auto
  have "effs = sent @ effs1" "left = left1" "wq' = wq1" using Suc.prems(1,2) c r by (simp_all add: Let_def)
  moreover have "\<not> left1 \<and> event \<notin> set (eq_abs (wq_eventQueue wq1)) \<and>
      list_all (\<lambda>e. \<exists>es oks. e = BatchSent (wh_Url conf) es oks \<and> event \<notin> set es) effs1"
    by (rule Suc.IH [OF r]) (use Suc.prems(2,5) consume_round_keeps [OF c q] in simp_all)
  ultimately show ?case using consume_round_keeps [OF c q] by simp
qed simp

lemma push_to_new_queue:
  assumes "mget qs (wh_Url conf) = None" and "\<forall>i. event \<notin> set (se_pushed se (wh_Url conf) i)"
  shows "\<exists>sent wq. PushEvent se rounds conf event qs = (sent, InConsumer, mput (wh_Url conf) wq qs) \<and>
    event \<notin> set (eq_abs (wq_eventQueue wq)) \<and>
    list_all (\<lambda>e. \<exists>es oks. e = BatchSent (wh_Url conf) es oks \<and> event \<notin> set es) sent"
proof -
  let ?wq = "\<lparr>wq_eventQueue = NewSafeEventQueue QueueMaxSize, wq_closed = False\<rparr>"
  obtain sent left wq where c: "StartConsumer se 0 rounds (nat (wh_Batch conf)) conf ?wq = (sent, left, wq)"
    by (cases "StartConsumer se 0 rounds (nat (wh_Batch conf)) conf ?wq") auto
  have "eq_wf (NewSafeEventQueue QueueMaxSize)" "eq_abs (NewSafeEventQueue QueueMaxSize) = []"
    by (simp_all add: eq_wf_def eq_abs_def NewSafeEventQueue_def eq_len_def)
  then have "\<not> left \<and> event \<notin> set (eq_abs (wq_eventQueue wq)) \<and>
      list_all (\<lambda>e. \<exists>es oks. e = BatchSent (wh_Url conf) es oks \<and> event \<notin> set es) sent"
    by (intro consumer_is_never_left [OF c _ _ _ assms(2)]) simp_all
  with c assms(1) show ?thesis by (intro exI [of _ sent] exI [of _ wq]) (simp add: PushEvent_def)
qed

text \<open>The webhooks in front of the first one without a queue get the event, those behind it are not reached.\<close>

lemma webhooks_up_to_the_first_new:
  assumes "\<forall>(j, c) \<in> set hs. mhas (qm_webhook qm) (wh_Url c)" and "\<not> mhas (qm_webhook qm) (wh_Url conf)"
    and "\<forall>i. event \<notin> set (se_pushed se (wh_Url conf) i)"
  shows "\<exists>pushes sent wq qm'. BatchSendWebhooks se rounds (hs @ (k, conf) # hs') event qm = (pushes @ sent, True, qm') \<and>
    list_all2 (\<lambda>(j, c) e. \<exists>ok. e = Queued (wh_Url c) ok) hs pushes \<and>
    list_all (\<lambda>e. \<exists>es oks. e = BatchSent (wh_Url conf) es oks \<and> event \<notin> set es) sent \<and>
    mget (qm_webhook qm') (wh_Url conf) = Some wq \<and> event \<notin> set (eq_abs (wq_eventQueue wq)) \<and>
    (\<forall>u. u \<notin> (\<lambda>(j, c). wh_Url c) ` set hs \<longrightarrow> u \<noteq> wh_Url conf \<longrightarrow> mget (qm_webhook qm') u = mget (qm_webhook qm) u)"
  using assms(1,2)
proof (induction hs arbitrary: qm)
  case Nil
  then have "mget (qm_webhook qm) (wh_Url conf) = None" by (simp add: mhas_def)
  from push_to_new_queue [OF this assms(3), of rounds] show ?case by (fastforce simp: Let_def)
next
  case (Cons h hs)
  obtain j c where h: "h = (j, c)" by force
  obtain q where q: "mget (qm_webhook qm) (wh_Url c) = Some q" using Cons.prems(1) by (auto simp: h mhas_def)
  obtain ok q1 where p: "eq_Push event (wq_eventQueue q) = (ok, q1)" by force
  let ?qm = "qm\<lparr>qm_webhook := mput (wh_Url c) (q\<lparr>wq_eventQueue := q1\<rparr>) (qm_webhook qm)\<rparr>"
  have "\<forall>(j, c) \<in> set hs. mhas (qm_webhook ?qm) (wh_Url c)" "\<not> mhas (qm_webhook ?qm) (wh_Url conf)"
    using Cons.prems q by (auto simp: mhas_def)
  from Cons.IH [OF this] obtain pushes sent wq qm' where
    r: "BatchSendWebhooks se rounds (hs @ (k, conf) # hs') event ?qm = (pushes @ sent, True, qm')"
      "list_all2 (\<lambda>(j, c) e. \<exists>ok. e = Queued (wh_Url c) ok) hs pushes"
      "list_all (\<lambda>e. \<exists>es oks. e = BatchSent (wh_Url conf) es oks \<and> event \<notin> set es) sent"
      "mget (qm_webhook qm') (wh_Url conf) = Some wq" "event \<notin> set (eq_abs (wq_eventQueue wq))"
      "\<forall>u. u \<notin> (\<lambda>(j, c). wh_Url c) ` set hs \<longrightarrow> u \<noteq> wh_Url conf \<longrightarrow> mget (qm_webhook qm') u = mget (qm_webhook ?qm) u"
    by blast
  have "BatchSendWebhooks se rounds ((h # hs) @ (k, conf) # hs') event qm = ((Queued (wh_Url c) ok # pushes) @ sent, True, qm')"
    using r(1) p q by (simp add: h PushEvent_def)
  moreover have "list_all2 (\<lambda>(j, c) e. \<exists>ok. e = Queued (wh_Url c) ok) (h # hs) (Queued (wh_Url c) ok # pushes)"
    using r(2) by (simp add: h)
  moreover have "\<forall>u. u \<notin> (\<lambda>(j, c). wh_Url c) ` set (h # hs) \<longrightarrow> u \<noteq> wh_Url conf \<longrightarrow> mget (qm_webhook qm') u = mget (qm_webhook qm) u"
    using r(6) by (auto simp: h)
  ultimately show ?case using r(3-5) by blast
qed

section \<open>Properties\<close>

text \<open>
  C28. The queue of a webhook is a bounded priority queue: over any sequence of pushes and pops it answers as
  the list of events in the order of severity would, each event behind those that are as severe, and it
  never holds more events than its size. An event of no known severity is refused.
\<close>

theorem event_queue_refines_priority_list:
  assumes "eq_run ops (NewSafeEventQueue mx) = (answers, q)"
  shows "pq_run mx ops [] = (answers, eq_abs q) \<and> eq_len q \<le> mx"
proof -
  have "eq_wf (NewSafeEventQueue mx)" by (simp add: eq_wf_def NewSafeEventQueue_def eq_len_def)
  from eq_run_refines [OF this assms] show ?thesis by (simp add: NewSafeEventQueue_def eq_abs_def eq_wf_def)
qed

theorem event_queue_witness:
  "\<exists>answers q. eq_run [Inl (zero_event\<lparr>e_Severity := 3\<rparr>), Inl (zero_event\<lparr>e_Severity := 1\<rparr>), Inl zero_event, Inr 1]
       (NewSafeEventQueue 2) = (answers, q) \<and>
     pq_run 2 [Inl (zero_event\<lparr>e_Severity := 3\<rparr>), Inl (zero_event\<lparr>e_Severity := 1\<rparr>), Inl zero_event, Inr 1] [] = (answers, eq_abs q) \<and>
     eq_len q \<le> 2"
proof -
  let ?ops = "[Inl (zero_event\<lparr>e_Severity := 3\<rparr>), Inl (zero_event\<lparr>e_Severity := 1\<rparr>), Inl zero_event, Inr 1]"
  obtain answers q where r: "eq_run ?ops (NewSafeEventQueue 2) = (answers, q)" by force
  with event_queue_refines_priority_list [OF r] show ?thesis by blast
qed

text \<open>The callbacks reach neither the plugin nor the tasks.\<close>

lemma PushEvent_effects:
  assumes "PushEvent se rounds conf event qs = (sent, r, qs')"
  shows "PluginCall \<notin> set sent" and "IbexTasks \<notin> set sent"
proof -
  have "\<forall>e \<in> set (fst (StartConsumer se i n popSize c wq)). \<exists>u es oks. e = BatchSent u es oks" for i n popSize c wq
  proof (induction n arbitrary: i wq)
    case (Suc n)
    let ?q = "fold (\<lambda>e q. snd (eq_Push e q)) (se_pushed se (wh_Url c) i) (wq_eventQueue wq)"
    obtain sent q1 where r: "consume_round se i popSize c ?q = (sent, q1)" by force
    then have "\<forall>e \<in> set sent. \<exists>u es oks. e = BatchSent u es oks"
      by (auto simp: consume_round_def split: prod.splits if_splits)
    with Suc.IH [of "Suc i" "wq\<lparr>wq_eventQueue := q1\<rparr>"] r show ?case by (auto simp: Let_def split: prod.splits if_splits)
  qed simp
  moreover have "sent = [] \<or> (\<exists>wq. sent = fst (StartConsumer se 0 rounds (nat (wh_Batch conf)) conf wq))"
    using assms by (auto simp: PushEvent_def split: option.splits prod.splits if_splits) (metis fst_conv)+
  ultimately show "PluginCall \<notin> set sent" "IbexTasks \<notin> set sent" by fastforce+
qed

lemma SendCallbacks_effects:
  "SendCallbacks se rounds whMap event us qm = Some (effs, stuck, qm') \<Longrightarrow> PluginCall \<notin> set effs \<and> IbexTasks \<notin> set effs"
proof (induction us arbitrary: qm effs)
  case (Cons u us)
  have cb: "call_back se rounds event r qm = Some (e, s, qm1) \<Longrightarrow> PluginCall \<notin> set e \<and> IbexTasks \<notin> set e" for r e s qm1
    by (cases r) (auto simp: call_back_def Let_def dest: PushEvent_effects split: if_splits prod.splits push_outcome.splits)
  show ?case
    using Cons by (auto split: option.splits prod.splits bool.splits dest!: cb)
qed simp

text \<open>
  C29. Webhooks in batches lose the event that finds a webhook without a queue. Take a goroutine whose callbacks have
  returned, with batches on and the global webhooks not overridden, and let one of its webhooks have no
  queue. It pushes the event to the queues of the webhooks that come before the first such webhook and then
  serves the new queue: after any number of rounds of the consumer it is still there, the event is neither in the new queue
  nor in a batch sent from it, unless another goroutine pushed it, the queues of the later webhooks are
  as they were, the plugin is not called and no repair task is started.
\<close>

theorem first_batched_event_is_lost:
  assumes "se_batch se" and "\<not> OverrideGlobalWebhook se event" and "range_order (se_ordS se)"
    and "SendCallbacks se rounds (ToWebhookMap nt) event (ToCallbackList (se_ordS se) nt) qm = Some (cbs, False, qm1)"
    and "url = (\<lambda>k. wh_Url (the (mget (ToWebhookMap nt) k)))"
    and "k0 \<in> set (mkeys (ToWebhookMap nt))" and "\<not> mhas (qm_webhook qm1) (url k0)"
    and "\<forall>u i. event \<notin> set (se_pushed se u i)"
  shows "\<exists>ks k ks' pushes sent wq effs qm'.
    se_ordS se (mkeys (ToWebhookMap nt)) = ks @ k # ks' \<and> (\<forall>j \<in> set ks. mhas (qm_webhook qm1) (url j)) \<and> \<not> mhas (qm_webhook qm1) (url k) \<and>
    Send se rounds event nt isSubscribe qm = Some (effs, True, qm') \<and>
    effs = channel_messages se event nt @ cbs @ pushes @ sent \<and> PluginCall \<notin> set effs \<and> IbexTasks \<notin> set effs \<and>
    list_all2 (\<lambda>j e. \<exists>ok. e = Queued (url j) ok) ks pushes \<and>
    list_all (\<lambda>e. \<exists>es oks. e = BatchSent (url k) es oks \<and> event \<notin> set es) sent \<and>
    mget (qm_webhook qm') (url k) = Some wq \<and> event \<notin> set (eq_abs (wq_eventQueue wq)) \<and>
    (\<forall>u. u \<notin> url ` set (ks @ [k]) \<longrightarrow> mget (qm_webhook qm') u = mget (qm_webhook qm1) u)"
proof -
  let ?wh = "ToWebhookMap nt" and ?has = "\<lambda>k. mhas (qm_webhook qm1) (url k)"
  have "k0 \<in> set (se_ordS se (mkeys ?wh))" using assms(3,6) by (simp add: set_range_order)
  then obtain ks k ks' where o: "se_ordS se (mkeys ?wh) = ks @ k # ks'" "\<not> ?has k" "\<forall>j \<in> set ks. ?has j"
    using split_list_first_prop [of "se_ordS se (mkeys ?wh)" "\<lambda>k. \<not> ?has k"] assms(7) by blast
  let ?pair = "\<lambda>k. (k, the (mget ?wh k))"
  have pre: "\<forall>(j, c) \<in> set (map ?pair ks). mhas (qm_webhook qm1) (wh_Url c)" "\<not> mhas (qm_webhook qm1) (wh_Url (the (mget ?wh k)))"
    using o(2,3) assms(5) by auto
  from webhooks_up_to_the_first_new [OF pre, of event se rounds k "map ?pair ks'"] assms(8)
  obtain pushes sent wq qm' where
    b: "BatchSendWebhooks se rounds (map ?pair ks @ ?pair k # map ?pair ks') event qm1 = (pushes @ sent, True, qm')"
    and p: "list_all2 (\<lambda>(j, c) e. \<exists>ok. e = Queued (wh_Url c) ok) (map ?pair ks) pushes"
    and s: "list_all (\<lambda>e. \<exists>es oks. e = BatchSent (url k) es oks \<and> event \<notin> set es) sent"
    and q: "mget (qm_webhook qm') (url k) = Some wq" "event \<notin> set (eq_abs (wq_eventQueue wq))"
      "\<forall>u. u \<notin> (\<lambda>(j, c). wh_Url c) ` set (map ?pair ks) \<longrightarrow> u \<noteq> url k \<longrightarrow> mget (qm_webhook qm') u = mget (qm_webhook qm1) u"
    by (auto simp: assms(5))
  have p': "list_all2 (\<lambda>j e. \<exists>ok. e = Queued (url j) ok) ks pushes"
    using p by (simp add: list_all2_map1 assms(5))
  let ?effs = "channel_messages se event nt @ cbs @ pushes @ sent"
  have "Send se rounds event nt isSubscribe qm = Some (?effs, True, qm')"
    using assms(1,2,4) b o(1) by (simp add: Send_def)
  moreover have "PluginCall \<notin> set ?effs" "IbexTasks \<notin> set ?effs"
    using SendCallbacks_effects [OF assms(4)] s p'
    by (auto simp: channel_messages_def Let_def list_all_iff list_all2_conv_all_nth in_set_conv_nth)
  moreover have "\<forall>u. u \<notin> url ` set (ks @ [k]) \<longrightarrow> mget (qm_webhook qm') u = mget (qm_webhook qm1) u"
    using q(3) by (auto simp: assms(5) image_image)
  ultimately show ?thesis using o p' s q(1,2) by blast
qed

text \<open>Two webhooks, the first with a queue and the second without one.\<close>

theorem first_batched_event_witness:
  "\<exists>se nt qm effs qm'. mkeys (nt_webhooks nt) = [''http://a'', ''http://b''] \<and> Send se 7 zero_event nt False qm = Some (effs, True, qm') \<and>
     (\<exists>ok. Queued ''http://a'' ok \<in> set effs) \<and> PluginCall \<notin> set effs \<and> IbexTasks \<notin> set effs"
proof -
  let ?se = "\<lparr>se_encodes = True, se_answer = \<lambda>_ _. HookStatus 200, se_answers = \<lambda>_ _ _. HookStatus 200,
    se_pushed = \<lambda>_ i. [zero_event\<lparr>e_Id := 5, e_Severity := 1\<rparr>], se_consumer = sample_consumer, se_parse = \<lambda>u. Some (u, []),
    se_callbacks = [''default''], se_senders = [], se_override = \<lambda>_. None, se_ordS = \<lambda>ks. ks, se_ordI = \<lambda>ks. ks,
    se_batch = True, se_needSend = \<lambda>_. True\<rparr>"
  let ?conf = "\<lambda>u. \<lparr>wh_Enable = True, wh_Url = u, wh_Batch = 10, wh_RetryCount = 3\<rparr>"
  let ?nt = "NewNotifyTarget\<lparr>nt_webhooks := [(''http://a'', ?conf ''http://a''), (''http://b'', ?conf ''http://b'')]\<rparr>"
  let ?url = "\<lambda>k. wh_Url (the (mget (ToWebhookMap ?nt) k))"
  let ?qm = "\<lparr>qm_webhook = [(''http://a'', \<lparr>wq_eventQueue = NewSafeEventQueue 9, wq_closed = False\<rparr>)], qm_callback = []\<rparr>"
  have cb: "SendCallbacks ?se 7 (ToWebhookMap ?nt) zero_event (ToCallbackList (se_ordS ?se) ?nt) ?qm = Some ([], False, ?qm)"
    by (simp add: ToCallbackList_def NewNotifyTarget_def mkeys_def)
  have pre: "se_batch ?se" "\<not> OverrideGlobalWebhook ?se zero_event" "range_order (se_ordS ?se)"
    by (simp_all add: OverrideGlobalWebhook_def range_order_def)
  have new: "''http://b'' \<in> set (mkeys (ToWebhookMap ?nt))" "\<not> mhas (qm_webhook ?qm) (?url ''http://b'')"
    "\<forall>u i. zero_event \<notin> set (se_pushed ?se u i)"
    by (simp_all add: ToWebhookMap_def NewNotifyTarget_def mkeys_def mhas_def zero_event_def)
  obtain ks k ks' pushes sent effs qm' where
    r: "se_ordS ?se (mkeys (ToWebhookMap ?nt)) = ks @ k # ks'" "\<not> mhas (qm_webhook ?qm) (?url k)"
      "Send ?se 7 zero_event ?nt False ?qm = Some (effs, True, qm')"
      "effs = channel_messages ?se zero_event ?nt @ [] @ pushes @ sent" "PluginCall \<notin> set effs" "IbexTasks \<notin> set effs"
      "list_all2 (\<lambda>j e. \<exists>ok. e = Queued (?url j) ok) ks pushes"
    using first_batched_event_is_lost [OF pre cb refl new, of False] by blast
  have keys: "mkeys (nt_webhooks ?nt) = [''http://a'', ''http://b'']" by (simp add: mkeys_def)
  have "ks = [''http://a'']" using r(1,2) by (auto simp: ToWebhookMap_def mkeys_def mhas_def Cons_eq_append_conv)
  then have "\<exists>ok. Queued ''http://a'' ok \<in> set effs" using r(4,7) by (auto simp: ToWebhookMap_def list_all2_Cons1)
  with r(3,5,6) keys show ?thesis by blast
qed

end
