(* ===== verification/Spec2Isabelle.thy ===== *)
theory Spec2Isabelle
  imports Event_Notify Workflow_Order Workflow_Chain Processors Subscribe Notify_Target Notify_Rule Event_Persist
    Consume Persist_Race Rule_Eval Rule_Form Ingest Send_Task
begin

text \<open>
  A verification development for the alerting engine of Nightingale (pharos-be) and for the path that
  brings metrics and heartbeats into it. It models the Go code under \<^verbatim>\<open>alert/\<close>, \<^verbatim>\<open>memsto/\<close>, \<^verbatim>\<open>pushgw/\<close>, the parts
  of \<^verbatim>\<open>models/\<close> these packages work on and the rule handlers of \<^verbatim>\<open>center/router/\<close>, as functions and step relations,
  and proves what each part promises to the next one.

  \<^bold>\<open>The program.\<close> Users write alert rules, mute rules, subscriptions and notification rules through the web
  interface into a database. Every engine process copies these tables into memory caches, agrees with the
  other processes which of them evaluates which rule, runs one worker per assigned rule and data source, and
  turns the answers of the data sources into anomaly points. A processor per worker turns points into events
  and decides when an event fires, is repeated, is inhibited or recovers; events pass mute rules and
  pipelines on the way. A queue hands the events to a consumer, which writes them to two tables and
  dispatches them to channels, webhooks, callbacks, subscriptions and repair tasks. Beside this, a gateway
  receives time series, labels them with the tags of their machine, queues them for the storage backends and
  notes which machines are alive; the host rules read these notes.

  \<^bold>\<open>Conventions.\<close>
  \<^item> A Go struct is a record whose fields carry the Go names behind a short prefix, an enumeration a
    datatype, a string a list of bytes, a Go integer an \<open>int\<close> unless its width matters, in which case it is a
    \<open>64 word\<close>; \<^verbatim>\<open>float64\<close> is \<open>Float64.float64\<close>, which rounds as IEEE arithmetic does.
  \<^item> A Go map is an association list (\<open>gomap\<close>) with at most one entry per key (\<open>mwf\<close>); a \<^verbatim>\<open>range\<close> over it takes
    the order as an argument that is known only to be a permutation (\<open>range_order\<close>), so every theorem holds for
    every order the runtime may choose.
  \<^item> A panic is \<open>None\<close> of an outer option, an error return is \<open>Inl\<close> of a sum or a value of an error type; an early
    return is a branch.
  \<^item> Pointers that are shared, the events of a processor, live in an explicit store; goroutines that race
    are step relations whose steps are the atomic actions of the code.
  \<^item> Code outside the repository (regular expressions, JSON, MD5, templates, the cron parser, the hash ring,
    databases, Redis, HTTP clients) is an argument of the definitions. What a theorem needs of it is one of
    its hypotheses, and a witness shows that the hypothesis can hold.
  \<^item> Loops are structural recursion, or recursion with a termination proof (the loop of the workflow engine
    by the nodes that have not run and the length of its queue), so the definitions are total and no fuel is
    needed; loops that serve for ever are the sequences of their rounds, or run for a number of rounds that a theorem
    leaves open (the consumer of a webhook queue).

  \<^bold>\<open>Theories, from the bottom up.\<close>
  \<^item> \<open>Prelude\<close>: maps, the functions of the packages strings, strconv and time that the code uses, and their
    lemmas. \<open>Float64\<close>: rounding arithmetic.
  \<^item> \<open>Alert_Types\<close> (\<^verbatim>\<open>models/alert_cur_event.go\<close>, \<^verbatim>\<open>models/alert_rule.go\<close>, \<^verbatim>\<open>models/target.go\<close>): events, rules, machines, the
    conversions between columns and lists, which round-trip, tags and card titles.
  \<^item> \<open>Tag_Match\<close> (\<^verbatim>\<open>alert/common/key.go\<close>, filters of \<^verbatim>\<open>models/alert_mute.go\<close>): parsing and matching of filters; parsed
    filters never panic, apart from one kind.
  \<^item> \<open>Mute_Rule\<close>, \<open>Mute\<close> (\<^verbatim>\<open>models/alert_mute.go\<close>, \<^verbatim>\<open>alert/mute/mute.go\<close>): time ranges and weekly schedules as windows of
    minutes, the five mute strategies, and the strongest rule.
  \<^item> \<open>Memsto\<close>, \<open>Target_Cache\<close> (\<^verbatim>\<open>memsto/\<close>): the polled caches as refinements of one specification (the locale
    \<open>polled_cache\<close>, interpreted for each cache), the freshness of the rule cache after its last complete poll, users, groups, tokens, machines, their index by
    address and their heartbeats.
  \<^item> \<open>Relabel\<close> (\<^verbatim>\<open>pushgw/writer/relabel.go\<close>, the relabel processor), \<open>Workflow\<close>, \<open>Workflow_Order\<close>, \<open>Workflow_Chain\<close>,
    \<open>Processors\<close>, \<open>Event_Pipeline\<close> (\<^verbatim>\<open>alert/pipeline/\<close>, \<^verbatim>\<open>models/event_pipeline.go\<close>): the workflow engine. Nodes run once and
    after their sources, the engine returns on every graph, and a pipeline of the old form is the sequence
    of its processors.
  \<^item> \<open>Event_Process\<close>, \<open>Event_Store\<close>, \<open>Event_Notify\<close> (\<^verbatim>\<open>alert/process/\<close>): the processor over its store; \<open>Event_Store\<close> keeps the
    maps consistent (the locale \<open>keyed_map\<close>), \<open>Event_Notify\<close> holds the specification machine of one alert,
    which \<open>fireEvent\<close> refines, and the theorems on numbering, spacing, duration, inhibition and recovery.
  \<^item> \<open>Event_Persist\<close>, \<open>Persist_Race\<close> (\<^verbatim>\<open>models/alert_his_event.go\<close>): the two event tables as the map of the last event,
    and the interleavings of several consumers.
  \<^item> \<open>Notify_Target\<close>, \<open>Notify_Rule\<close>, \<open>Subscribe\<close>, \<open>Ibex\<close>, \<open>Consume\<close> (\<^verbatim>\<open>alert/dispatch/\<close>, \<^verbatim>\<open>alert/sender/ibex.go\<close>, \<^verbatim>\<open>models/notify_rule.go\<close>,
    \<^verbatim>\<open>models/alert_subscribe.go\<close>, \<^verbatim>\<open>models/task_tpl.go\<close>): consumption of the queue and who is notified: members of groups,
    rules whose filters and time windows match, subscriptions, tasks that the editor may run, and that a
    muted event is recorded and not sent. \<open>Send_Task\<close> (\<^verbatim>\<open>alert/sender/webhook.go\<close>, \<^verbatim>\<open>webhook_event_queue.go\<close>,
    \<^verbatim>\<open>callback.go\<close>): the goroutine that sends an event, the queue by severity of a webhook, which refines a
    priority list, the consumer that is called where a queue is created, and the event that is lost there.
  \<^item> \<open>Naming\<close>, \<open>Datasource_Query\<close>, \<open>Scheduler\<close> (\<^verbatim>\<open>alert/naming/\<close>, \<^verbatim>\<open>models/alerting_engine.go\<close>, \<^verbatim>\<open>alert/eval/alert_rule.go\<close>,
    \<^verbatim>\<open>alert/record/\<close>): rings and heartbeats, the data sources of a rule, the workers of an instance (the locale
    \<open>worker_scheduler\<close>, for alert rules and for recording rules); together, after two rounds of heartbeats and a
    synchronisation, every rule and data source has exactly one worker in the cluster.
  \<^item> \<open>Eval_Joins\<close>, \<open>Prom_Vars\<close>, \<open>Rule_Eval\<close> (\<^verbatim>\<open>alert/eval/eval.go\<close>, \<^verbatim>\<open>models/ts.go\<close>, \<^verbatim>\<open>models/anomaly_point.go\<close>, \<^verbatim>\<open>pkg/hash/\<close>,
    \<^verbatim>\<open>pkg/promql/\<close>): the evaluation of Prometheus, host and other rules with joins, variables and missing data, down to
    what an evaluation hands to the processor; a query that fails changes no alert.
  \<^item> \<open>Rule_Form\<close> (\<^verbatim>\<open>models/alert_rule.go\<close>, \<^verbatim>\<open>center/router/router_alert_rule.go\<close>): verification, conversions and the
    operations on the rule table with its well-formedness; the schedule that an engine at the edge rebuilds.
  \<^item> \<open>Write_Queue\<close>, \<open>Ingest\<close> (\<^verbatim>\<open>pushgw/\<close>): the bounded queues between requests and consumer (the locale \<open>fifo\<close> and a step
    relation for the race between test and push), the writers with their attempts, the receiver of remote
    writes, the labels of a series, and the signs of life of machines, with the batches, attempts and time limit of their writes,
    up to what a host rule reads.

  \<^bold>\<open>Not modelled.\<close>
  \<^item> The SQL that lists and searches rows for the web interface, the handlers other than those of alert
    rules, single sign-on, and the upgrade scripts: they pass values between forms and the database.
  \<^item> The clients of data sources, the senders for chat and mail services and the template functions: input and
    output. What the engine does with their answers is modelled.
  \<^item> The AI assistant: conversations with language models.
  \<^item> Logging, metrics, configuration files, process start-up. Buffers that are pooled for speed are taken to
    be fresh, and the timers that call the loops are the sequences of calls that the theorems quantify over.
  \<^item> The receivers for other metric formats and the proxy that forwards request bodies unread.
\<close>

end
